(* ===== verification/Prelude.thy ===== *)
theory Prelude
  imports Main "HOL-Library.Word"
begin

unbundle bit_operations_syntax

text \<open>
  Shared vocabulary of the development: the machine integers of the Rust sources as words, results
  that are a value, an error value of the source or a panic, the \<open>?\<close> operator, and big and
  little endian byte conversions with their round trips, the validity of UTF-8, and
  socket addresses.

  Integers are \<open>w word\<close>s and wrap, as they do in the release profile of the workspace
  (\<open>Cargo.toml\<close> sets no overflow checks).  A byte buffer (\<open>&[u8]\<close>, \<open>Vec<u8>\<close>,
  \<open>Bytes\<close>, \<open>BytesMut\<close>, \<open>[u8; N]\<close>) is a \<open>byte list\<close>; lengths (\<open>usize\<close>) are \<open>nat\<close>.
\<close>

type_synonym byte = "8 word"
type_synonym u16 = "16 word"
type_synonym u32 = "32 word"
type_synonym u64 = "64 word"
type_synonym u128 = "128 word"

named_theorems wire_simps \<open>evaluation of readers on what the writers produce\<close>
named_theorems no_panic \<open>a function of the model never panics\<close>

subsection \<open>Results: values, errors, panics\<close>

text \<open>\<open>Err e\<close> is an error the source returns, \<open>Panic\<close> an index out of range, a
  \<open>copy_from_slice\<close> of the wrong length, a read past the end of a buffer.\<close>

datatype 'e fault = Err 'e | Panic

type_synonym ('e, 'a) res = "'e fault + 'a"

definition bindR :: "('e, 'a) res \<Rightarrow> ('a \<Rightarrow> ('e, 'b) res) \<Rightarrow> ('e, 'b) res" where
  "bindR r f = (case r of Inl e \<Rightarrow> Inl e | Inr a \<Rightarrow> f a)"

lemma bindR_simps [simp]:
  "bindR (Inl e) f = Inl e"
  "bindR (Inr a) f = f a"
  by (simp_all add: bindR_def)

lemma bindR_Inr_iff: "bindR r f = Inr b \<longleftrightarrow> (\<exists>a. r = Inr a \<and> f a = Inr b)"
  by (cases r) auto

lemma bindR_panic_iff:
  "bindR r f = Inl Panic \<longleftrightarrow> r = Inl Panic \<or> (\<exists>a. r = Inr a \<and> f a = Inl Panic)"
  by (cases r) auto

lemma res_option_cases [case_names err more val]:
  obtains e where "r = Inl e" | "r = Inr None" | x where "r = Inr (Some x)"
  by (cases r; cases "projr r") auto

definition is_panic :: "('e, 'a) res \<Rightarrow> bool" where
  "is_panic r = (case r of Inl Panic \<Rightarrow> True | _ \<Rightarrow> False)"

lemma is_panic_simps [simp]:
  "is_panic (Inl Panic)" "\<not> is_panic (Inl (Err e))" "\<not> is_panic (Inr a)"
  by (simp_all add: is_panic_def)

lemma is_panic_iff: "is_panic r \<longleftrightarrow> r = Inl Panic"
  by (auto simp: is_panic_def split: sum.splits fault.splits)

lemma is_panic_bindR:
  "is_panic (bindR r f) \<longleftrightarrow> is_panic r \<or> (\<exists>a. r = Inr a \<and> is_panic (f a))"
  by (cases r) (auto simp: is_panic_def split: fault.splits)

text \<open>A result that is no panic and whose value, if there is one, has the property.\<close>

definition yields :: "('a \<Rightarrow> bool) \<Rightarrow> ('e, 'a) res \<Rightarrow> bool" where
  "yields P r = (case r of Inl Panic \<Rightarrow> False | Inl (Err _) \<Rightarrow> True | Inr a \<Rightarrow> P a)"

lemma yieldsI: "r \<noteq> Inl Panic \<Longrightarrow> (\<And>a. r = Inr a \<Longrightarrow> P a) \<Longrightarrow> yields P r"
  by (auto simp: yields_def split: sum.splits fault.splits)

text \<open>Mapping a fallible function over a list, stopping at the first failure (\<open>collect\<close> into a
  \<open>Result\<close>).\<close>

fun mapR :: "('a \<Rightarrow> ('e, 'b) res) \<Rightarrow> 'a list \<Rightarrow> ('e, 'b list) res" where
  "mapR f [] = Inr []"
| "mapR f (x # xs) = bindR (f x) (\<lambda>y. bindR (mapR f xs) (\<lambda>ys. Inr (y # ys)))"

lemma mapR_Inr: "(\<And>x. x \<in> set xs \<Longrightarrow> f x = Inr (g x)) \<Longrightarrow> mapR f xs = Inr (map g xs)"
  by (induction xs) auto

text \<open>Mapping the error of a result (\<open>map_err\<close>); a panic stays one.\<close>

definition map_err :: "('e \<Rightarrow> 'f) \<Rightarrow> ('e, 'a) res \<Rightarrow> ('f, 'a) res" where
  "map_err f r = (case r of Inl (Err e) \<Rightarrow> Inl (Err (f e)) | Inl Panic \<Rightarrow> Inl Panic | Inr a \<Rightarrow> Inr a)"

lemma map_err_simps [simp]:
  "map_err f (Inr a) = Inr a" "map_err f (Inl (Err e)) = Inl (Err (f e))"
  "map_err f (Inl Panic) = Inl Panic"
  by (simp_all add: map_err_def)

lemma map_err_Inr [simp]: "map_err f r = Inr x \<longleftrightarrow> r = Inr x"
  by (auto simp: map_err_def split: sum.splits fault.splits)

text \<open>Decimal digits of a number, as \<open>format!\<close> prints it.\<close>

fun show_nat :: "nat \<Rightarrow> string" where
  "show_nat n = (if n < 10 then [char_of (48 + n)] else show_nat (n div 10) @ [char_of (48 + n mod 10)])"

declare show_nat.simps [simp del]

text \<open>Indexing a slice: \<open>s[i]\<close>, and the array \<open>[s[i], s[j], ...]\<close>; both panic out of range.\<close>

definition ix :: "'a list \<Rightarrow> nat \<Rightarrow> ('e, 'a) res" where
  "ix xs i = (if i < length xs then Inr (xs ! i) else Inl Panic)"

definition ixs :: "'a list \<Rightarrow> nat list \<Rightarrow> ('e, 'a list) res" where
  "ixs xs is = (if list_all (\<lambda>i. i < length xs) is then Inr (map ((!) xs) is) else Inl Panic)"

lemma ix_in [simp]: "i < length xs \<Longrightarrow> ix xs i = Inr (xs ! i)"
  by (simp add: ix_def)

lemma ixs_in [simp]: "list_all (\<lambda>i. i < length xs) is \<Longrightarrow> ixs xs is = Inr (map ((!) xs) is)"
  by (simp add: ixs_def)

subsection \<open>Single bit masks\<close>

lemma bit_or_mask:
  "bit ((x :: 'a::len word) OR push_bit n 1) m \<longleftrightarrow> bit x m \<or> (m = n \<and> n < LENGTH('a))"
  by (auto simp: bit_or_iff bit_exp_iff)

lemma bit_and_not_mask:
  "bit ((x :: 'a::len word) AND NOT (push_bit n 1)) m \<longleftrightarrow> bit x m \<and> m \<noteq> n"
  by (auto simp: bit_and_iff bit_not_iff bit_exp_iff dest: bit_imp_le_length)

lemma and_mask_iff: "(x :: 'a::len word) AND push_bit n 1 \<noteq> 0 \<longleftrightarrow> bit x n"
  by (simp only: bit_iff_and_push_bit_not_eq_0)

text \<open>Words that agree above a bit compare as that bit does.\<close>

lemma int_less_by_bit:
  fixes a b :: int
  assumes "bit b t" "\<not> bit a t" and eq: "\<And>j. t < j \<Longrightarrow> bit a j = bit b j"
  shows "a < b"
proof -
  have "drop_bit (Suc t) a = drop_bit (Suc t) b"
    by (rule bit_eqI) (simp add: bit_drop_bit_eq eq)
  then have "push_bit (Suc t) (drop_bit (Suc t) a) = push_bit (Suc t) (drop_bit (Suc t) b)"
    by (rule arg_cong)
  moreover have "take_bit (Suc t) a = take_bit t a" "take_bit (Suc t) b = 2 ^ t + take_bit t b"
    using assms(1,2) by (simp_all add: take_bit_Suc_from_most)
  ultimately show ?thesis
    using bits_ident [of "Suc t" a] bits_ident [of "Suc t" b]
      take_bit_nonnegative [of t b] take_bit_int_less_exp [of t a] by linarith
qed

lemma word_less_by_bit:
  fixes x y :: "'a::len word"
  assumes "bit y t" "\<not> bit x t" and "\<And>j. t < j \<Longrightarrow> bit x j = bit y j"
  shows "x < y"
  unfolding word_less_def using assms
  by (intro int_less_by_bit [where t = t]) (auto simp: bit_uint_iff dest: bit_imp_le_length)

lemma unat_byte_le: "unat (b :: byte) \<le> 255"
  using unsigned_less [of b, where 'a = nat] by simp

subsection \<open>Big and little endian bytes\<close>

definition be_bytes :: "nat \<Rightarrow> 'a::len word \<Rightarrow> byte list" where
  "be_bytes n x = map (\<lambda>i. ucast (drop_bit (8 * i) x)) (rev [0..<n])"

definition of_be :: "byte list \<Rightarrow> 'a::len word" where
  "of_be bs = foldl (\<lambda>acc b. push_bit 8 acc OR ucast b) 0 bs"

definition le_bytes :: "nat \<Rightarrow> 'a::len word \<Rightarrow> byte list" where
  "le_bytes n x = rev (be_bytes n x)"

definition of_le :: "byte list \<Rightarrow> 'a::len word" where
  "of_le bs = of_be (rev bs)"

lemma length_be_bytes [simp]: "length (be_bytes n x) = n"
  by (simp add: be_bytes_def)

lemma length_le_bytes [simp]: "length (le_bytes n x) = n"
  by (simp add: le_bytes_def)

lemma of_be_Nil [simp]: "of_be [] = 0"
  by (simp add: of_be_def)

lemma of_be_snoc [simp]: "of_be (bs @ [b]) = push_bit 8 (of_be bs) OR ucast b"
  by (simp add: of_be_def)

lemma bit_of_be:
  "bit (of_be bs :: 'a::len word) k \<longleftrightarrow>
     k < LENGTH('a) \<and> k < 8 * length bs \<and> bit (rev bs ! (k div 8)) (k mod 8)"
proof (induction bs arbitrary: k rule: rev_induct)
  case Nil
  then show ?case by simp
next
  case (snoc b bs)
  show ?case
  proof (cases "k < 8")
    case True
    then show ?thesis
      by (auto simp: bit_or_iff bit_push_bit_iff bit_ucast_iff)
  next
    case False
    then obtain m where m: "k = m + 8" by (metis add.commute le_Suc_ex not_less)
    have "\<not> bit b k" using False by (simp add: bit_word.rep_eq m)
    moreover have "(m + 8) div 8 - Suc 0 = m div 8" by simp
    ultimately show ?thesis
      using snoc.IH [of m] m
      by (auto simp: bit_or_iff bit_push_bit_iff bit_ucast_iff dest: bit_imp_le_length)
  qed
qed

lemma bit_be_bytes:
  assumes "i < n" and "j < 8"
  shows "bit (rev (be_bytes n x) ! i) j \<longleftrightarrow> bit x (8 * i + j)"
  using assms by (simp add: be_bytes_def rev_map bit_ucast_iff bit_drop_bit_eq)

lemma of_be_be_bytes [wire_simps]:
  assumes "LENGTH('a) = 8 * n"
  shows "of_be (be_bytes n (x :: 'a::len word)) = x"
proof (rule bit_word_eqI)
  fix k assume k: "k < LENGTH('a)"
  then have "k div 8 < n" using assms by (metis less_mult_imp_div_less mult.commute)
  then show "bit (of_be (be_bytes n x) :: 'a word) k \<longleftrightarrow> bit x k"
    using k assms by (simp add: bit_of_be bit_be_bytes)
qed

lemma be_bytes_of_be:
  assumes "LENGTH('a) = 8 * n" and "length bs = n"
  shows "be_bytes n (of_be bs :: 'a::len word) = bs"
proof -
  have "rev (be_bytes n (of_be bs :: 'a word)) = rev bs"
  proof (rule nth_equalityI)
    show "length (rev (be_bytes n (of_be bs :: 'a word))) = length (rev bs)"
      by (simp add: assms(2))
  next
    fix i assume "i < length (rev (be_bytes n (of_be bs :: 'a word)))"
    then have i: "i < n" by simp
    show "rev (be_bytes n (of_be bs :: 'a word)) ! i = rev bs ! i"
    proof (rule bit_word_eqI)
      fix j assume "j < LENGTH(8)"
      then have j: "j < 8" by simp
      have "8 * i + j < 8 * n" using i j by linarith
      then show "bit (rev (be_bytes n (of_be bs :: 'a word)) ! i) j \<longleftrightarrow> bit (rev bs ! i) j"
        using i j assms by (simp add: bit_be_bytes bit_of_be)
    qed
  qed
  then show ?thesis by simp
qed

lemma of_le_le_bytes [wire_simps]:
  "LENGTH('a) = 8 * n \<Longrightarrow> of_le (le_bytes n (x :: 'a::len word)) = x"
  by (simp add: of_le_def le_bytes_def of_be_be_bytes)

text \<open>The widths the sources use.\<close>

lemma of_be_be_bytes_widths [simp]:
  "of_be (be_bytes 2 (x :: u16)) = x"
  "of_be (be_bytes 4 (y :: u32)) = y"
  "of_be (be_bytes 8 (z :: u64)) = z"
  "of_be (be_bytes 16 (w :: u128)) = w"
  by (simp_all add: of_be_be_bytes)

lemma be_bytes_of_be_widths [simp]:
  "length bs = 2 \<Longrightarrow> be_bytes 2 (of_be bs :: u16) = bs"
  "length bs = 4 \<Longrightarrow> be_bytes 4 (of_be bs :: u32) = bs"
  "length bs = 8 \<Longrightarrow> be_bytes 8 (of_be bs :: u64) = bs"
  "length bs = 16 \<Longrightarrow> be_bytes 16 (of_be bs :: u128) = bs"
  by (simp_all add: be_bytes_of_be)

lemma be_bytes_inject [simp]:
  "be_bytes 2 (x :: u16) = be_bytes 2 x' \<longleftrightarrow> x = x'"
  "be_bytes 4 (y :: u32) = be_bytes 4 y' \<longleftrightarrow> y = y'"
  "be_bytes 8 (z :: u64) = be_bytes 8 z' \<longleftrightarrow> z = z'"
  by (metis of_be_be_bytes_widths)+

subsection \<open>UTF-8\<close>

definition utf8_cont :: "byte \<Rightarrow> bool" where
  "utf8_cont b \<longleftrightarrow> 0x80 \<le> b \<and> b \<le> 0xBF"

text \<open>What \<open>str::from_utf8\<close> accepts.  The well-formed byte sequences: no overlong forms, no surrogates, nothing above U+10FFFF.\<close>

fun utf8_valid :: "byte list \<Rightarrow> bool" where
  "utf8_valid [] = True"
| "utf8_valid (b # bs) =
     (if b < 0x80 then utf8_valid bs
      else if 0xC2 \<le> b \<and> b \<le> 0xDF then
        (case bs of c # r \<Rightarrow> utf8_cont c \<and> utf8_valid r | _ \<Rightarrow> False)
      else if 0xE0 \<le> b \<and> b \<le> 0xEF then
        (case bs of c # d # r \<Rightarrow>
           (if b = 0xE0 then 0xA0 \<le> c \<and> c \<le> 0xBF else if b = 0xED then 0x80 \<le> c \<and> c \<le> 0x9F
            else utf8_cont c) \<and> utf8_cont d \<and> utf8_valid r
         | _ \<Rightarrow> False)
      else if 0xF0 \<le> b \<and> b \<le> 0xF4 then
        (case bs of c # d # e # r \<Rightarrow>
           (if b = 0xF0 then 0x90 \<le> c \<and> c \<le> 0xBF else if b = 0xF4 then 0x80 \<le> c \<and> c \<le> 0x8F
            else utf8_cont c) \<and> utf8_cont d \<and> utf8_cont e \<and> utf8_valid r
         | _ \<Rightarrow> False)
      else False)"

subsection \<open>Socket addresses\<close>

text \<open>\<open>std::net::SocketAddr\<close>; an IP address is its octets (4 or 16).\<close>

datatype SocketAddr =
    SockV4 (octets: "byte list") (port: u16)
  | SockV6 (octets: "byte list") (port: u16) (flowinfo: u32) (scope_id: u32)

primrec sock_ok :: "SocketAddr \<Rightarrow> bool" where
  "sock_ok (SockV4 ip p) \<longleftrightarrow> length ip = 4"
| "sock_ok (SockV6 ip p fl sc) \<longleftrightarrow> length ip = 16"

text \<open>The bytes of a string literal.\<close>

definition utf8 :: "string \<Rightarrow> byte list" where
  "utf8 s = map (\<lambda>c. of_nat (of_char c)) s"

end
