(* ===== verification/Identity.thy ===== *)
theory Identity
  imports Prelude "HOL-Library.List_Lexorder"
begin

text \<open>
  \<open>ceky-crypto/src/identity.rs\<close> and \<open>error.rs\<close>: peer ids with the XOR metric and the bucket index of
  the routing table, their hexadecimal form, and node identities.  The Ed25519, X25519 and SHA-256
  functions are fields of the parameter \<open>crypto_impl\<close>; random keys are arguments.  Rust strings are
  lists of UTF-8 bytes, error reasons are HOL strings.
\<close>

datatype CryptoError =
    HandshakeFailed string
  | InvalidHandshakeState string string
  | DecryptionFailed
  | InvalidSignature
  | InvalidPeerId string
  | NonceOverflow
  | ReplayDetected u64
  | KeyGenerationFailed string
  | Serialization string
  | CryptoIo string

subsection \<open>Hexadecimal\<close>

definition hex_digit :: "byte \<Rightarrow> byte" where
  "hex_digit n = (if n < 10 then 48 + n else 87 + n)"

definition hex_encode :: "byte list \<Rightarrow> byte list" where
  "hex_encode bs = concat (map (\<lambda>b. [hex_digit (b div 16), hex_digit (b mod 16)]) bs)"

definition hex_val :: "byte \<Rightarrow> byte option" where
  "hex_val c = (if 48 \<le> c \<and> c \<le> 57 then Some (c - 48)
     else if 97 \<le> c \<and> c \<le> 102 then Some (c - 87)
     else if 65 \<le> c \<and> c \<le> 70 then Some (c - 55) else None)"

text \<open>\<open>u8::from_str_radix(s, 16)\<close> on a string of two bytes: a leading plus sign is allowed.\<close>

definition u8_from_hex2 :: "byte list \<Rightarrow> byte option" where
  "u8_from_hex2 s = (case s of
      [c, d] \<Rightarrow> (case (hex_val c, hex_val d) of
         (Some x, Some y) \<Rightarrow> Some (16 * x + y)
       | (None, Some y) \<Rightarrow> if c = 43 then Some y else None
       | _ \<Rightarrow> None)
    | _ \<Rightarrow> None)"

text \<open>Slicing a \<open>str\<close> panics unless both ends are character boundaries.\<close>

definition char_boundary :: "byte list \<Rightarrow> nat \<Rightarrow> bool" where
  "char_boundary s i \<longleftrightarrow> i = length s \<or> (i < length s \<and> (s ! i < 0x80 \<or> 0xC0 \<le> s ! i))"

definition str_slice :: "byte list \<Rightarrow> nat \<Rightarrow> nat \<Rightarrow> ('e, byte list) res" where
  "str_slice s a b =
     (if a \<le> b \<and> char_boundary s a \<and> char_boundary s b then Inr (take (b - a) (drop a s))
      else Inl Panic)"

definition hex_decode :: "byte list \<Rightarrow> (string, byte list) res" where
  "hex_decode s =
     (if length s mod 2 \<noteq> 0 then Inl (Err ''odd-length hex string'')
      else mapR (\<lambda>i. bindR (str_slice s i (i + 2)) (\<lambda>p. case u8_from_hex2 p of
           Some b \<Rightarrow> Inr b
         | None \<Rightarrow> Inl (Err (''invalid hex at '' @ show_nat i @ '': invalid digit found in string''))))
         (map (\<lambda>k. 2 * k) [0..<length s div 2]))"

subsection \<open>Peer ids\<close>

datatype PeerId = PeerId (as_bytes: "byte list")

definition pid_ok :: "PeerId \<Rightarrow> bool" where
  "pid_ok p \<longleftrightarrow> length (as_bytes p) = 32"

definition xor_distance :: "PeerId \<Rightarrow> PeerId \<Rightarrow> byte list" where
  "xor_distance p q = map (\<lambda>i. as_bytes p ! i XOR as_bytes q ! i) [0..<32]"

definition leading_zeros :: "byte \<Rightarrow> nat" where
  "leading_zeros b = length (takeWhile Not (map (bit b) (rev [0..<8])))"

fun bucket_index_from :: "nat \<Rightarrow> byte list \<Rightarrow> nat option" where
  "bucket_index_from byte_idx [] = None"
| "bucket_index_from byte_idx (b # bs) =
     (if b \<noteq> 0 then Some (byte_idx * 8 + (7 - leading_zeros b))
      else bucket_index_from (byte_idx + 1) bs)"

definition bucket_index :: "PeerId \<Rightarrow> PeerId \<Rightarrow> nat option" where
  "bucket_index p q = bucket_index_from 0 (xor_distance p q)"

definition PeerId_fmt :: "PeerId \<Rightarrow> byte list" where
  "PeerId_fmt p = hex_encode (take 4 (as_bytes p)) @ [0xE2, 0x80, 0xA6] @ hex_encode (drop 30 (as_bytes p))"

definition PeerId_debug :: "PeerId \<Rightarrow> byte list" where
  "PeerId_debug p = utf8 ''PeerId('' @ PeerId_fmt p @ utf8 '')''"

definition PeerId_from_str :: "byte list \<Rightarrow> (CryptoError, PeerId) res" where
  "PeerId_from_str s =
     bindR (map_err (\<lambda>e. InvalidPeerId (''invalid hex: '' @ e)) (hex_decode s)) (\<lambda>bytes.
     if length bytes \<noteq> 32
     then Inl (Err (InvalidPeerId (''expected 32 bytes, got '' @ show_nat (length bytes))))
     else Inr (PeerId bytes))"

subsection \<open>Identities\<close>

text \<open>What the sources use of the cryptographic crates: the Ed25519 public key of a secret key, its
  signatures and their verification, the X25519 public key of a secret and the
  Diffie-Hellman function, SHA-256, and what is left of
  a vector after \<open>zeroize\<close>.\<close>

record crypto_impl =
  ed_verifying_key :: "byte list \<Rightarrow> byte list"
  ed_sign :: "byte list \<Rightarrow> byte list \<Rightarrow> byte list"
  ed_verify :: "byte list \<Rightarrow> byte list \<Rightarrow> byte list \<Rightarrow> bool"
  x_public :: "byte list \<Rightarrow> byte list"
  x_dh :: "byte list \<Rightarrow> byte list \<Rightarrow> byte list"
  sha256 :: "byte list \<Rightarrow> byte list"
  zeroize_vec :: "byte list \<Rightarrow> byte list"

record Identity =
  ed25519_signing_key :: "byte list"
  ed25519_public_key :: "byte list"
  x25519_static_secret :: "byte list"
  x25519_public_key :: "byte list"
  x25519_signature :: "byte list"
  peer_id :: PeerId

definition from_public_key :: "crypto_impl \<Rightarrow> byte list \<Rightarrow> PeerId" where
  "from_public_key cr pk = PeerId (sha256 cr pk)"

definition Identity_generate :: "crypto_impl \<Rightarrow> byte list \<Rightarrow> byte list \<Rightarrow> Identity" where
  "Identity_generate cr ed_rnd x_rnd =
     (let ed_pk = ed_verifying_key cr ed_rnd;
          x_pk = x_public cr x_rnd
      in \<lparr>ed25519_signing_key = ed_rnd, ed25519_public_key = ed_pk,
          x25519_static_secret = x_rnd, x25519_public_key = x_pk,
          x25519_signature = ed_sign cr ed_rnd x_pk, peer_id = from_public_key cr ed_pk\<rparr>)"

definition verify_peer_binding ::
    "crypto_impl \<Rightarrow> byte list \<Rightarrow> byte list \<Rightarrow> byte list \<Rightarrow> (CryptoError, PeerId) res" where
  "verify_peer_binding cr ed_pk x_pk sig =
     (if \<not> ed_verify cr ed_pk x_pk sig then Inl (Err InvalidSignature)
      else Inr (from_public_key cr ed_pk))"

definition Identity_sign :: "crypto_impl \<Rightarrow> Identity \<Rightarrow> byte list \<Rightarrow> byte list" where
  "Identity_sign cr me dat = ed_sign cr (ed25519_signing_key me) dat"

definition Identity_debug :: "Identity \<Rightarrow> byte list" where
  "Identity_debug me = utf8 ''Identity { peer_id: '' @ PeerId_debug (peer_id me) @
     utf8 '', ed25519_pk: '' @ [0x22] @ hex_encode (ed25519_public_key me) @ [0x22] @
     utf8 '', x25519_pk: '' @ [0x22] @ hex_encode (x25519_public_key me) @ [0x22] @ utf8 '' }''"

text \<open>Printing an identity reveals nothing of its secrets: identities with the same public part print the same.\<close>

lemma debug_hides_secrets:
  "Identity_debug (me\<lparr>ed25519_signing_key := k, x25519_static_secret := x, x25519_signature := s\<rparr>) = Identity_debug me"
  by (simp add: Identity_debug_def)

text \<open>The file system is a map from paths to contents; \<open>wr\<close> is the result of the write.\<close>

type_synonym fs = "string \<rightharpoonup> byte list"

definition save_to_file :: "Identity \<Rightarrow> string \<Rightarrow> string option \<Rightarrow> fs \<Rightarrow> (CryptoError, fs) res" where
  "save_to_file me path wr fs =
     (let dat = ed25519_signing_key me @ x25519_static_secret me in
      case wr of Some e \<Rightarrow> Inl (Err (CryptoIo e)) | None \<Rightarrow> Inr (fs(path \<mapsto> dat)))"

definition load_from_file :: "crypto_impl \<Rightarrow> fs \<Rightarrow> string \<Rightarrow> (CryptoError, Identity) res" where
  "load_from_file cr fs path =
     (case fs path of
        None \<Rightarrow> Inl (Err (CryptoIo ''not found''))
      | Some dat \<Rightarrow>
          if length dat \<noteq> 64 then
            (let dat' = zeroize_vec cr dat in
             Inl (Err (Serialization (''identity file should be 64 bytes, got '' @ show_nat (length dat')))))
          else
            (let ed = take 32 dat; x = take 32 (drop 32 dat);
                 ed_pk = ed_verifying_key cr ed;
                 x_pk = x_public cr x
             in Inr \<lparr>ed25519_signing_key = ed, ed25519_public_key = ed_pk,
                  x25519_static_secret = x, x25519_public_key = x_pk,
                  x25519_signature = ed_sign cr ed x_pk, peer_id = from_public_key cr ed_pk\<rparr>))"

text \<open>Concrete functions to run the identity operations with.\<close>

definition toy_crypto :: crypto_impl where
  "toy_crypto = \<lparr>ed_verifying_key = rev, ed_sign = (\<lambda>sk m. rev sk @ m),
     ed_verify = (\<lambda>pk m s. s = pk @ m), x_public = (\<lambda>s. map (\<lambda>i. s ! i + 1) [0..<32]),
     x_dh = (\<lambda>s p. map (\<lambda>i. s ! i + p ! i) [0..<32]),
     sha256 = (\<lambda>bs. take 32 (bs @ replicate 32 0)), zeroize_vec = (\<lambda>_. [])\<rparr>"

subsection \<open>The XOR metric\<close>

lemma length_xor_distance [simp]: "length (xor_distance p q) = 32"
  by (simp add: xor_distance_def)

lemma nth_xor_distance [simp]: "i < 32 \<Longrightarrow> xor_distance p q ! i = as_bytes p ! i XOR as_bytes q ! i"
  by (simp add: xor_distance_def)

lemma word_xor_eq_0_iff [simp]: "(x :: 'a::len word) XOR y = 0 \<longleftrightarrow> x = y"
  by (simp add: bit_eq_iff bit_xor_iff)

lemma word_xor_left_cancel [simp]: "(x :: 'a::len word) XOR y = x XOR z \<longleftrightarrow> y = z"
  by (auto simp: bit_eq_iff bit_xor_iff)

lemma xor_distance_commute: "xor_distance p q = xor_distance q p"
  by (simp add: xor_distance_def xor.commute)

lemma pid_eqI: "pid_ok p \<Longrightarrow> pid_ok q \<Longrightarrow> (\<And>i. i < 32 \<Longrightarrow> as_bytes p ! i = as_bytes q ! i) \<Longrightarrow> p = q"
  by (cases p; cases q) (auto simp: pid_ok_def intro: nth_equalityI)

lemma xor_distance_cancel:
  assumes "pid_ok q" "pid_ok r" "xor_distance p q = xor_distance p r"
  shows "q = r"
proof (rule pid_eqI [OF assms(1,2)])
  fix i :: nat assume "i < 32"
  then have "as_bytes p ! i XOR as_bytes q ! i = as_bytes p ! i XOR as_bytes r ! i"
    using assms(3) nth_xor_distance by metis
  then show "as_bytes q ! i = as_bytes r ! i" by simp
qed

lemma leading_zeros_top:
  assumes "b \<noteq> 0"
  shows "bit b (7 - leading_zeros b)" and "7 - leading_zeros b < j \<Longrightarrow> \<not> bit b j"
proof -
  obtain k where k: "bit b k" using assms by (metis bit_eqI bit_0_eq bot_apply bot_bool_def)
  then have "k < 8" using bit_imp_le_length by fastforce
  then have k8: "k \<in> {0, 1, 2, 3, 4, 5, 6, 7}" by auto
  have lz: "leading_zeros b = length (takeWhile Not (map (bit b) [7, 6, 5, 4, 3, 2, 1, 0]))"
    by (simp add: leading_zeros_def upt_rec eval_nat_numeral)
  show "bit b (7 - leading_zeros b)" using k k8 unfolding lz by auto
  assume j: "7 - leading_zeros b < j"
  show "\<not> bit b j"
  proof (cases "j < 8")
    case True
    then have "j \<in> {0, 1, 2, 3, 4, 5, 6, 7}" by auto
    then show ?thesis using j unfolding lz by (auto split: if_splits)
  next
    case False
    then show ?thesis using bit_imp_le_length by fastforce
  qed
qed

lemma bucket_index_from_Some:
  "bucket_index_from n ds = Some i \<longleftrightarrow>
     (\<exists>k < length ds. (\<forall>j < k. ds ! j = 0) \<and> ds ! k \<noteq> 0 \<and> i = (n + k) * 8 + (7 - leading_zeros (ds ! k)))"
proof (induction ds arbitrary: n)
  case (Cons d ds)
  show ?case
  proof (cases "d = 0")
    case True
    then show ?thesis
      using Cons.IH [of "n + 1"] by (simp add: Ex_less_Suc2 All_less_Suc2 ac_simps)
  next
    case False
    then show ?thesis by (auto simp: Ex_less_Suc2 All_less_Suc2)
  qed
qed simp

lemma bucket_index_from_None: "bucket_index_from n ds = None \<longleftrightarrow> (\<forall>d \<in> set ds. d = 0)"
  by (induction ds arbitrary: n) auto

lemma bucket_index_Some:
  "bucket_index p q = Some i \<longleftrightarrow>
     (\<exists>k < 32. (\<forall>j < k. as_bytes p ! j = as_bytes q ! j) \<and> as_bytes p ! k \<noteq> as_bytes q ! k \<and>
        i = 8 * k + (7 - leading_zeros (as_bytes p ! k XOR as_bytes q ! k)))"
  by (auto simp: bucket_index_def bucket_index_from_Some mult.commute)

lemma bucket_index_less: "bucket_index p q = Some i \<Longrightarrow> i < 256"
  by (auto simp: bucket_index_Some)

lemma bucket_index_None_iff: "pid_ok p \<Longrightarrow> pid_ok q \<Longrightarrow> bucket_index p q = None \<longleftrightarrow> p = q"
  by (auto simp: bucket_index_def bucket_index_from_None all_set_conv_all_nth intro: pid_eqI)

lemma bucket_index_commute: "bucket_index p q = bucket_index q p"
  by (simp add: bucket_index_def xor_distance_commute)

lemma lexorder_at:
  assumes "k < length xs" "k < length ys" "\<And>j. j < k \<Longrightarrow> xs ! j = ys ! j" "xs ! k < (ys ! k :: 'a::order)"
  shows "xs < ys"
proof -
  have "take k xs = take k ys" using assms by (intro nth_equalityI) auto
  then show ?thesis using assms by (auto simp: list_less_def lexord_take_index_conv)
qed

lemma xor_top_less:
  fixes a b :: byte
  assumes "a \<noteq> 0" "b \<noteq> 0" "7 - leading_zeros a = 7 - leading_zeros b"
  shows "a XOR b < a"
  by (rule word_less_by_bit [of _ "7 - leading_zeros a"])
    (use leading_zeros_top [OF assms(1)] leading_zeros_top [OF assms(2)] assms(3) in
      \<open>auto simp: bit_xor_iff\<close>)

subsection \<open>Hexadecimal round trip\<close>

lemma byte_16: "(b :: byte) div 16 < 16" "b mod 16 < 16" "16 * (b div 16) + b mod 16 = b"
proof -
  show "b div 16 < 16" "b mod 16 < 16"
    using unat_byte_le [of b] by (simp_all add: word_less_nat_alt unat_div_distrib unat_mod_distrib)
  show "16 * (b div 16) + b mod 16 = b" by (rule mult_div_mod_eq)
qed

lemma hex_digits_ok:
  "list_all (\<lambda>n. hex_val (hex_digit n) = Some n \<and> hex_digit n < 0x80) (map of_nat [0..<16])"
  by code_simp

lemma hex_val_digit:
  assumes "(n :: byte) < 16"
  shows "hex_val (hex_digit n) = Some n" "hex_digit n < 0x80"
proof -
  have "unat n \<in> set [0..<16]" using assms by (simp add: word_less_nat_alt)
  then have "of_nat (unat n) \<in> set (map of_nat [0..<16] :: byte list)" by (metis image_eqI set_map)
  then show "hex_val (hex_digit n) = Some n" "hex_digit n < 0x80"
    using hex_digits_ok by (auto simp: list_all_iff)
qed

lemma length_hex_encode [simp]: "length (hex_encode bs) = 2 * length bs"
  by (induction bs) (simp_all add: hex_encode_def)

lemma hex_encode_pair:
  "k < length bs \<Longrightarrow>
   take 2 (drop (2 * k) (hex_encode bs)) = [hex_digit (bs ! k div 16), hex_digit (bs ! k mod 16)]"
proof (induction bs arbitrary: k)
  case (Cons b bs)
  then show ?case by (cases k) (simp_all add: hex_encode_def)
qed simp

lemma hex_encode_ascii: "c \<in> set (hex_encode bs) \<Longrightarrow> c < 0x80"
  by (auto simp: hex_encode_def hex_val_digit byte_16)

lemma hex_decode_encode: "hex_decode (hex_encode bs) = Inr bs"
proof -
  let ?s = "hex_encode bs"
  have "(str_slice ?s (2 * k) (2 * k + 2) :: (string, byte list) res) = Inr (take 2 (drop (2 * k) ?s))"
    if "k < length bs" for k
    using that hex_encode_ascii [OF nth_mem] by (auto simp: str_slice_def char_boundary_def)
  then have "mapR (\<lambda>i. bindR (str_slice ?s i (i + 2)) (\<lambda>p. case u8_from_hex2 p of
           Some b \<Rightarrow> Inr b
         | None \<Rightarrow> Inl (Err (''invalid hex at '' @ show_nat i @ '': invalid digit found in string''))))
         (map (\<lambda>k. 2 * k) [0..<length ?s div 2]) = Inr (map (\<lambda>i. bs ! (i div 2)) (map (\<lambda>k. 2 * k) [0..<length ?s div 2]))"
    by (intro mapR_Inr)
      (auto simp: hex_encode_pair u8_from_hex2_def hex_val_digit byte_16 simp del: mult_Suc_right)
  moreover have "map (\<lambda>i. bs ! (i div 2)) (map (\<lambda>k. 2 * k) [0..<length ?s div 2]) = bs"
    by (simp add: comp_def map_nth)
  ultimately show ?thesis by (simp add: hex_decode_def)
qed

lemma PeerId_from_hex: "pid_ok p \<Longrightarrow> PeerId_from_str (hex_encode (as_bytes p)) = Inr p"
  by (simp add: PeerId_from_str_def hex_decode_encode pid_ok_def)

subsection \<open>Correctness of peer ids and identities\<close>

text \<open>The bucket index is below 256, the same seen from either side, and absent exactly for the
  peer itself, so every other peer belongs to exactly one bucket.\<close>

lemma bucket_index_partition:
  assumes "pid_ok p" and "pid_ok q"
  shows "(bucket_index p q = None \<longleftrightarrow> p = q) \<and> (\<forall>i. bucket_index p q = Some i \<longrightarrow> i < 256) \<and>
     bucket_index p q = bucket_index q p"
  using bucket_index_None_iff [OF assms] bucket_index_less [of p q] bucket_index_commute [of p q] by blast

text \<open>Two peers in the same bucket of a node are strictly closer to each other, in the XOR metric,
  than the node is to either: what makes one bucket a neighbourhood.\<close>

lemma same_bucket_closer:
  assumes "bucket_index l p = Some i" and "bucket_index l q = Some i"
  shows "xor_distance p q < xor_distance l p \<and> xor_distance p q < xor_distance l q"
proof -
  have less: "xor_distance p q < xor_distance l p"
    if p: "bucket_index l p = Some i" and q: "bucket_index l q = Some i" for p q
  proof -
    obtain k where k: "k < 32" "\<And>j. j < k \<Longrightarrow> as_bytes l ! j = as_bytes p ! j"
      "as_bytes l ! k \<noteq> as_bytes p ! k"
      "i = 8 * k + (7 - leading_zeros (as_bytes l ! k XOR as_bytes p ! k))"
      using p by (auto simp: bucket_index_Some)
    obtain k' where k': "k' < 32" "\<And>j. j < k' \<Longrightarrow> as_bytes l ! j = as_bytes q ! j"
      "as_bytes l ! k' \<noteq> as_bytes q ! k'"
      "i = 8 * k' + (7 - leading_zeros (as_bytes l ! k' XOR as_bytes q ! k'))"
      using q by (auto simp: bucket_index_Some)
    have same: "k' = k" using k(4) k'(4) by linarith
    let ?a = "as_bytes l ! k XOR as_bytes p ! k" and ?b = "as_bytes l ! k XOR as_bytes q ! k"
    have "as_bytes p ! k XOR as_bytes q ! k = ?a XOR ?b" by (auto simp: bit_eq_iff bit_xor_iff)
    also have "\<dots> < ?a" using k k' same by (intro xor_top_less) auto
    finally show ?thesis
      using k(1,2) k'(2) same by (intro lexorder_at [of k]) simp_all
  qed
  show ?thesis using less [OF assms] less [OF assms(2,1)] by (simp add: xor_distance_commute)
qed

text \<open>C36. How the bucket index orders distances: a larger byte part means a peer is closer, and within
  one byte part a larger bit part means it is farther.  It is not the position of the highest set bit
  of the distance: a peer at distance one is put in bucket 248, one at distance \<open>2 ^ 255\<close> in bucket 7.\<close>

theorem bucket_index_orders_distance:
  assumes "bucket_index l p = Some i" and "bucket_index l q = Some j"
  shows "(i div 8 > j div 8 \<longrightarrow> xor_distance l p < xor_distance l q) \<and>
     (i div 8 = j div 8 \<and> i < j \<longrightarrow> xor_distance l p < xor_distance l q) \<and>
     bucket_index (PeerId (replicate 32 0)) (PeerId (replicate 31 0 @ [1])) = Some 248 \<and>
     bucket_index (PeerId (replicate 32 0)) (PeerId (128 # replicate 31 0)) = Some 7"
proof (intro conjI impI)
  obtain k where k: "k < 32" "\<And>j. j < k \<Longrightarrow> as_bytes l ! j = as_bytes p ! j"
    "as_bytes l ! k \<noteq> as_bytes p ! k"
    "i = 8 * k + (7 - leading_zeros (as_bytes l ! k XOR as_bytes p ! k))"
    using assms(1) by (auto simp: bucket_index_Some)
  obtain m where m: "m < 32" "\<And>j. j < m \<Longrightarrow> as_bytes l ! j = as_bytes q ! j"
    "as_bytes l ! m \<noteq> as_bytes q ! m"
    "j = 8 * m + (7 - leading_zeros (as_bytes l ! m XOR as_bytes q ! m))"
    using assms(2) by (auto simp: bucket_index_Some)
  have div: "i div 8 = k" "j div 8 = m" using k(4) m(4) by (simp_all add: div_add1_eq)
  show "xor_distance l p < xor_distance l q" if "i div 8 > j div 8"
    using that div k(2) m by (intro lexorder_at [of m]) (simp_all add: word_gt_0)
  let ?a = "as_bytes l ! k XOR as_bytes p ! k" and ?b = "as_bytes l ! k XOR as_bytes q ! k"
  show "xor_distance l p < xor_distance l q" if "i div 8 = j div 8 \<and> i < j"
  proof -
    have "m = k" using that div by simp
    with that k m have nz: "?a \<noteq> 0" "?b \<noteq> 0" and lt: "7 - leading_zeros ?a < 7 - leading_zeros ?b"
      by simp_all
    have "?a < ?b"
      using leading_zeros_top [OF nz(1)] leading_zeros_top [OF nz(2)] lt
      by (intro word_less_by_bit [of _ "7 - leading_zeros ?b"]) auto
    then show ?thesis using k m \<open>m = k\<close> by (intro lexorder_at [of k]) simp_all
  qed
qed code_simp+

theorem bucket_index_orders_distance_witness:
  "xor_distance (PeerId (replicate 32 0)) (PeerId (replicate 31 0 @ [1])) <
   xor_distance (PeerId (replicate 32 0)) (PeerId (128 # replicate 31 0))"
proof -
  have "bucket_index (PeerId (replicate 32 0)) (PeerId (replicate 31 0 @ [1])) = Some 248"
    "bucket_index (PeerId (replicate 32 0)) (PeerId (128 # replicate 31 0)) = Some 7"
    by code_simp+
  from bucket_index_orders_distance [OF this] show ?thesis by simp
qed

text \<open>Printing the bytes of a peer id in hexadecimal and parsing the result gives the id back.\<close>

lemma peer_id_hex_roundtrip:
  assumes "pid_ok p"
  shows "PeerId_from_str (hex_encode (as_bytes p)) = Inr p"
  by (rule PeerId_from_hex [OF assms])

text \<open>\<open>PeerId::from_str\<close> panics, instead of returning an error, on the valid UTF-8 string whose
  bytes are \<open>61 C3 A9 62\<close>: its second pair is cut inside a character.\<close>

lemma from_str_panics_inside_char:
  "utf8_valid [0x61, 0xC3, 0xA9, 0x62] \<and> PeerId_from_str [0x61, 0xC3, 0xA9, 0x62] = Inl Panic"
  by (simp add: utf8_cont_def PeerId_from_str_def hex_decode_def str_slice_def char_boundary_def)

text \<open>An identity saved to a file and loaded again is the same identity, keys, signature and peer
  id included, and other files are untouched.\<close>

lemma identity_save_load:
  assumes "length ed_rnd = 32" and "length x_rnd = 32"
  shows "\<exists>fs'. save_to_file (Identity_generate cr ed_rnd x_rnd) path None fs = Inr fs' \<and>
     load_from_file cr fs' path = Inr (Identity_generate cr ed_rnd x_rnd) \<and>
     (\<forall>other. other \<noteq> path \<longrightarrow> fs' other = fs other)"
  using assms by (simp add: save_to_file_def load_from_file_def Identity_generate_def Let_def)

text \<open>If every Ed25519 signature verifies under its own key, the binding of a generated identity
  verifies and yields its own peer id; a binding that does not verify yields no peer id.\<close>

lemma identity_binding:
  assumes "\<And>sk m. ed_verify cr (ed_verifying_key cr sk) m (ed_sign cr sk m)"
    and "me = Identity_generate cr ed_rnd x_rnd"
  shows "verify_peer_binding cr (ed25519_public_key me) (x25519_public_key me) (x25519_signature me) =
       Inr (peer_id me) \<and>
     (\<not> ed_verify cr pk m sig \<longrightarrow> verify_peer_binding cr pk m sig = Inl (Err InvalidSignature))"
  using assms by (simp add: verify_peer_binding_def Identity_generate_def Let_def)

end
