(* ===== verification/Session.thy ===== *)
theory Session
  imports Identity
begin

text \<open>
  \<open>ceky-crypto/src/session.rs\<close>: the sliding window against replays and the encrypted session.  The
  AEAD cipher (ChaCha20-Poly1305) is the parameter \<open>aead_impl\<close>; that decryption undoes encryption is
  the hypothesis \<open>aead_law\<close> where it is used.  The locale \<open>replay_filter\<close> is the contract of a filter
  that accepts no value twice; the window and the session both provide it.
\<close>

subsection \<open>The replay window\<close>

definition TAG_SIZE :: nat where "TAG_SIZE = 16"

definition MAX_NONCE :: u64 where "MAX_NONCE = push_bit 48 1 - 1"

definition REPLAY_WINDOW_SIZE :: nat where "REPLAY_WINDOW_SIZE = 256"

record ReplayWindow =
  max_nonce :: u64
  bitmap :: "u64 list"

definition ReplayWindow_new :: ReplayWindow where
  "ReplayWindow_new = \<lparr>max_nonce = 0, bitmap = replicate (REPLAY_WINDOW_SIZE div 64) 0\<rparr>"

definition shift_words :: "nat \<Rightarrow> u64 list \<Rightarrow> u64 list" where
  "shift_words word_shift bm =
     foldl (\<lambda>b i. b[i := if i \<ge> word_shift then b ! (i - word_shift) else 0]) bm (rev [0..<length bm])"

definition shift_bits :: "nat \<Rightarrow> u64 list \<Rightarrow> u64 list" where
  "shift_bits n bm =
     foldl (\<lambda>b i. let b = b[i := push_bit n (b ! i)] in
              if i > 0 then b[i := b ! i OR drop_bit (64 - n) (b ! (i - 1))] else b)
       bm (rev [0..<length bm])"

definition shift_left :: "nat \<Rightarrow> u64 list \<Rightarrow> u64 list" where
  "shift_left amount bm =
     (if amount \<ge> 64 then
        let word_shift = amount div 64; bit_shift = amount mod 64;
            bm = shift_words word_shift bm
        in if bit_shift > 0 then shift_bits bit_shift bm else bm
      else if amount > 0 then shift_bits amount bm else bm)"

definition check_and_mark :: "ReplayWindow \<Rightarrow> u64 \<Rightarrow> bool \<times> ReplayWindow" where
  "check_and_mark w nonce =
     (if nonce > max_nonce w then
        let shift = unat (nonce - max_nonce w);
            bm = (if shift \<ge> REPLAY_WINDOW_SIZE then replicate (REPLAY_WINDOW_SIZE div 64) 0
                  else shift_left shift (bitmap w))
        in (True, \<lparr>max_nonce = nonce, bitmap = bm[0 := bm ! 0 OR 1]\<rparr>)
      else
        let diff = unat (max_nonce w - nonce) in
        if diff \<ge> REPLAY_WINDOW_SIZE then (False, w) else
        let word_idx = diff div 64; bit_idx = diff mod 64 in
        if bitmap w ! word_idx AND push_bit bit_idx 1 \<noteq> 0 then (False, w)
        else (True, w\<lparr>bitmap := (bitmap w)[word_idx := bitmap w ! word_idx OR push_bit bit_idx 1]\<rparr>))"

subsection \<open>The session\<close>

record aead_impl =
  aead_new :: "byte list \<Rightarrow> string option"
  aead_encrypt :: "byte list \<Rightarrow> byte list \<Rightarrow> byte list \<Rightarrow> byte list \<Rightarrow> byte list option"
  aead_decrypt :: "byte list \<Rightarrow> byte list \<Rightarrow> byte list \<Rightarrow> byte list \<Rightarrow> byte list option"

record SessionKeys =
  send_key :: "byte list"
  recv_key :: "byte list"
  remote_static :: "byte list"

record SecureSession =
  send_cipher :: "byte list"
  recv_cipher :: "byte list"
  send_nonce :: u64
  recv_nonce_max :: u64
  replay_window :: ReplayWindow
  sess_remote_static :: "byte list"

definition from_keys :: "aead_impl \<Rightarrow> SessionKeys \<Rightarrow> (CryptoError, SecureSession) res" where
  "from_keys ae keys =
     (case aead_new ae (send_key keys) of
        Some e \<Rightarrow> Inl (Err (KeyGenerationFailed (''send cipher: '' @ e)))
      | None \<Rightarrow>
     (case aead_new ae (recv_key keys) of
        Some e \<Rightarrow> Inl (Err (KeyGenerationFailed (''recv cipher: '' @ e)))
      | None \<Rightarrow>
        Inr \<lparr>send_cipher = send_key keys, recv_cipher = recv_key keys, send_nonce = 0,
          recv_nonce_max = 0, replay_window = ReplayWindow_new,
          sess_remote_static = remote_static keys\<rparr>))"

definition build_nonce :: "u64 \<Rightarrow> byte list" where
  "build_nonce counter = replicate 4 0 @ le_bytes 8 counter"

definition encrypt_with_ad :: "aead_impl \<Rightarrow> SecureSession \<Rightarrow> byte list \<Rightarrow> byte list \<Rightarrow>
    (CryptoError, u64 \<times> byte list) res \<times> SecureSession" where
  "encrypt_with_ad ae s plaintext ad =
     (let nonce_val = send_nonce s; s = s\<lparr>send_nonce := send_nonce s + 1\<rparr> in
      if nonce_val > MAX_NONCE then (Inl (Err NonceOverflow), s) else
      (case aead_encrypt ae (send_cipher s) (build_nonce nonce_val) ad plaintext of
         None \<Rightarrow> (Inl (Err (HandshakeFailed ''AEAD encrypt failed'')), s)
       | Some ct \<Rightarrow> (Inr (nonce_val, ct), s)))"

definition encrypt :: "aead_impl \<Rightarrow> SecureSession \<Rightarrow> byte list \<Rightarrow>
    (CryptoError, u64 \<times> byte list) res \<times> SecureSession" where
  "encrypt ae s plaintext =
     (let nonce_val = send_nonce s; s = s\<lparr>send_nonce := send_nonce s + 1\<rparr> in
      if nonce_val > MAX_NONCE then (Inl (Err NonceOverflow), s) else
      (case aead_encrypt ae (send_cipher s) (build_nonce nonce_val) [] plaintext of
         None \<Rightarrow> (Inl (Err (HandshakeFailed ''AEAD encrypt failed'')), s)
       | Some ct \<Rightarrow> (Inr (nonce_val, ct), s)))"

definition decrypt_with_ad :: "aead_impl \<Rightarrow> SecureSession \<Rightarrow> u64 \<Rightarrow> byte list \<Rightarrow> byte list \<Rightarrow>
    (CryptoError, byte list) res \<times> SecureSession" where
  "decrypt_with_ad ae s nonce_val ciphertext ad =
     (let (fresh, w) = check_and_mark (replay_window s) nonce_val;
          s = s\<lparr>replay_window := w\<rparr> in
      if \<not> fresh then (Inl (Err (ReplayDetected nonce_val)), s) else
      (case aead_decrypt ae (recv_cipher s) (build_nonce nonce_val) ad ciphertext of
         None \<Rightarrow> (Inl (Err DecryptionFailed), s)
       | Some plaintext \<Rightarrow>
           (Inr plaintext, s\<lparr>recv_nonce_max := max (recv_nonce_max s) nonce_val\<rparr>)))"

definition decrypt :: "aead_impl \<Rightarrow> SecureSession \<Rightarrow> u64 \<Rightarrow> byte list \<Rightarrow>
    (CryptoError, byte list) res \<times> SecureSession" where
  "decrypt ae s nonce_val ciphertext =
     (let (fresh, w) = check_and_mark (replay_window s) nonce_val;
          s = s\<lparr>replay_window := w\<rparr> in
      if \<not> fresh then (Inl (Err (ReplayDetected nonce_val)), s) else
      (case aead_decrypt ae (recv_cipher s) (build_nonce nonce_val) [] ciphertext of
         None \<Rightarrow> (Inl (Err DecryptionFailed), s)
       | Some plaintext \<Rightarrow>
           (Inr plaintext, s\<lparr>recv_nonce_max := max (recv_nonce_max s) nonce_val\<rparr>)))"

subsection \<open>Shifting the window\<close>

text \<open>Bit \<open>d\<close> of the window: whether the nonce \<open>d\<close> below the highest one is marked.\<close>

definition wbit :: "u64 list \<Rightarrow> nat \<Rightarrow> bool" where
  "wbit bm d \<longleftrightarrow> bit (bm ! (d div 64)) (d mod 64)"

lemma length4E:
  assumes "length xs = 4"
  obtains a b c d where "xs = [a, b, c, d]"
  using assms by (auto simp: numeral_eq_Suc length_Suc_conv)

lemma rev_upt_4: "rev [0..<4] = [3, 2, 1, 0 :: nat]"
  by (simp add: upt_rec eval_nat_numeral)

lemma shift_bits_4:
  "shift_bits n [a, b, c, d] =
     [push_bit n a, push_bit n b OR drop_bit (64 - n) a, push_bit n c OR drop_bit (64 - n) b,
      push_bit n d OR drop_bit (64 - n) c]"
  by (simp add: shift_bits_def rev_upt_4 Let_def)

lemma shift_words_4:
  "shift_words (Suc 0) [a, b, c, d] = [0, a, b, c]"
  "shift_words 2 [a, b, c, d] = [0, 0, a, b]"
  "shift_words 3 [a, b, c, d] = [0, 0, 0, a]"
  by (simp_all add: shift_words_def rev_upt_4)

lemma bit_shift_pair:
  assumes "0 < n" "n < 64" "m < 64"
  shows "bit (push_bit n (x :: u64) OR drop_bit (64 - n) y) m =
     (if n \<le> m then bit x (m - n) else bit y (64 + m - n))"
proof (cases "n \<le> m")
  case True
  then have "\<not> bit y (64 - n + m)" using assms by (auto dest: bit_imp_le_length)
  then show ?thesis using True assms by (auto simp: bit_or_iff bit_push_bit_iff bit_drop_bit_eq)
next
  case False
  then show ?thesis using assms by (auto simp: bit_or_iff bit_push_bit_iff bit_drop_bit_eq)
qed

lemma less_4_cases: "(q :: nat) < 4 \<Longrightarrow> q = 0 \<or> q = 1 \<or> q = 2 \<or> q = 3"
  by auto

lemma nth_shift_bits:
  assumes "length bm = 4" "q < 4"
  shows "shift_bits n bm ! q =
     (if q = 0 then push_bit n (bm ! 0) else push_bit n (bm ! q) OR drop_bit (64 - n) (bm ! (q - 1)))"
proof -
  obtain a b c d where bm: "bm = [a, b, c, d]" using assms(1) by (rule length4E)
  show ?thesis using less_4_cases [OF assms(2)] unfolding bm shift_bits_4 by (elim disjE) simp_all
qed

lemma nth_shift_words:
  assumes "length bm = 4" "q < 4" "0 < ws" "ws < 4"
  shows "shift_words ws bm ! q = (if ws \<le> q then bm ! (q - ws) else 0)"
proof -
  obtain a b c d where bm: "bm = [a, b, c, d]" using assms(1) by (rule length4E)
  have ws: "ws = Suc 0 \<or> ws = 2 \<or> ws = 3" using assms(3,4) by auto
  show ?thesis
    using ws less_4_cases [OF assms(2)] unfolding bm
    by (elim disjE) (simp_all only: shift_words_4, simp_all)
qed

lemma length_shift:
  "length (shift_bits n bm) = length bm" "length (shift_words ws bm) = length bm"
proof -
  have "length (foldl (\<lambda>b i. let b = b[i := push_bit n (b ! i)] in
              if i > 0 then b[i := b ! i OR drop_bit (64 - n) (b ! (i - 1))] else b) bm is) = length bm"
    for "is" :: "nat list"
    by (induction "is" arbitrary: bm) (simp_all add: Let_def)
  then show "length (shift_bits n bm) = length bm" by (simp add: shift_bits_def)
  have "length (foldl (\<lambda>b i. b[i := if i \<ge> ws then b ! (i - ws) else 0]) bm is) = length bm"
    for "is" :: "nat list"
    by (induction "is" arbitrary: bm) simp_all
  then show "length (shift_words ws bm) = length bm" by (simp add: shift_words_def)
qed

lemma wbit_shift_bits:
  assumes "length bm = 4" "d < 256" "0 < n" "n < 64"
  shows "wbit (shift_bits n bm) d \<longleftrightarrow> n \<le> d \<and> wbit bm (d - n)"
proof -
  define q m where "q = d div 64" and "m = d mod 64"
  have d: "d = 64 * q + m" "q < 4" "m < 64" using assms(2) by (auto simp: q_def m_def)
  show ?thesis
  proof (cases "n \<le> m")
    case True
    then have "(d - n) div 64 = q" "(d - n) mod 64 = m - n"
      using d by (auto simp: div_nat_eqI mod_nat_eqI)
    then show ?thesis
      using True d assms bit_shift_pair [of n m "bm ! q" "bm ! (q - 1)"]
      by (auto simp: wbit_def nth_shift_bits bit_push_bit_iff simp flip: q_def m_def)
  next
    case False
    show ?thesis
    proof (cases "q = 0")
      case True
      then show ?thesis
        using False d assms by (simp add: wbit_def nth_shift_bits bit_push_bit_iff)
    next
      case nz: False
      have "d - n = 64 * (q - 1) + (64 + m - n)" using nz False d assms by (cases q) auto
      moreover have "64 + m - n < 64" using False by linarith
      ultimately have "(d - n) div 64 = q - 1" "(d - n) mod 64 = 64 + m - n" by simp_all
      then show ?thesis
        using nz False d assms bit_shift_pair [of n m "bm ! q" "bm ! (q - 1)"]
        by (auto simp: wbit_def nth_shift_bits simp flip: q_def m_def)
    qed
  qed
qed

lemma wbit_shift_words:
  assumes "length bm = 4" "d < 256" "0 < ws" "ws < 4"
  shows "wbit (shift_words ws bm) d \<longleftrightarrow> 64 * ws \<le> d \<and> wbit bm (d - 64 * ws)"
proof -
  define q m where "q = d div 64" and "m = d mod 64"
  have d: "d = 64 * q + m" "q < 4" "m < 64" using assms(2) by (auto simp: q_def m_def)
  show ?thesis
  proof (cases "ws \<le> q")
    case True
    then have "d - 64 * ws = 64 * (q - ws) + m" "64 * ws \<le> d" using d by auto
    then show ?thesis
      using True d assms by (simp add: wbit_def nth_shift_words)
  next
    case False
    then have "\<not> 64 * ws \<le> d" using d by linarith
    then show ?thesis using False d assms by (simp add: wbit_def nth_shift_words)
  qed
qed

lemma wbit_shift_left:
  assumes "length bm = 4" "d < 256" "0 < n" "n < 256"
  shows "wbit (shift_left n bm) d \<longleftrightarrow> n \<le> d \<and> wbit bm (d - n)"
proof (cases "64 \<le> n")
  case True
  define ws bs where "ws = n div 64" and "bs = n mod 64"
  have n: "n = 64 * ws + bs" "bs < 64" "0 < ws" "ws < 4" using True assms(4) by (auto simp: ws_def bs_def)
  have eq: "shift_left n bm = (if 0 < bs then shift_bits bs (shift_words ws bm) else shift_words ws bm)"
    using True by (simp add: shift_left_def Let_def ws_def bs_def)
  show ?thesis
  proof (cases "0 < bs")
    case True
    have "wbit (shift_words ws bm) (d - bs) \<longleftrightarrow> 64 * ws \<le> d - bs \<and> wbit bm (d - bs - 64 * ws)"
      using assms n by (intro wbit_shift_words) auto
    then show ?thesis
      using True assms n unfolding eq by (auto simp: wbit_shift_bits length_shift add.commute)
  next
    case False
    then show ?thesis using assms n unfolding eq by (simp add: wbit_shift_words)
  qed
next
  case False
  then show ?thesis using assms by (simp add: shift_left_def wbit_shift_bits)
qed

lemma length_shift_left [simp]: "length (shift_left n bm) = length bm"
  by (simp add: shift_left_def Let_def length_shift)

lemma wbit_mark:
  assumes "length bm = 4" "d < 256" "e < 256"
  shows "wbit (bm[d div 64 := bm ! (d div 64) OR push_bit (d mod 64) 1]) e \<longleftrightarrow> e = d \<or> wbit bm e"
proof -
  have eq: "e div 64 = d div 64 \<Longrightarrow> e mod 64 = d mod 64 \<longleftrightarrow> e = d" by (metis div_mult_mod_eq)
  show ?thesis
    using assms eq unfolding wbit_def
    by (cases "e div 64 = d div 64") (auto simp: bit_or_mask simp del: push_bit_of_1)
qed

subsection \<open>The window remembers exactly the accepted nonces\<close>

text \<open>\<open>represents w H\<close>: the window \<open>w\<close> stands for the set \<open>H\<close> of nonces accepted so far, exactly on
  the 256 nonces up to the highest one.\<close>

definition represents :: "ReplayWindow \<Rightarrow> u64 set \<Rightarrow> bool" where
  "represents w H \<longleftrightarrow> length (bitmap w) = 4 \<and> (\<forall>n \<in> H. n \<le> max_nonce w) \<and>
     (\<forall>n. n \<le> max_nonce w \<longrightarrow> unat (max_nonce w - n) < 256 \<longrightarrow>
        (wbit (bitmap w) (unat (max_nonce w - n)) \<longleftrightarrow> n \<in> H))"

lemma wbit_zero [simp]: "d < 256 \<Longrightarrow> \<not> wbit (replicate 4 0) d"
  by (simp add: wbit_def)

lemma represents_new: "represents ReplayWindow_new {}"
  by (simp add: represents_def ReplayWindow_new_def REPLAY_WINDOW_SIZE_def)

lemma check_and_mark_old:
  assumes rep: "represents w H" and le: "nonce \<le> max_nonce w"
  defines "diff \<equiv> unat (max_nonce w - nonce)"
  shows "fst (check_and_mark w nonce) \<longleftrightarrow> diff < 256 \<and> nonce \<notin> H"
    and "represents (snd (check_and_mark w nonce)) (if fst (check_and_mark w nonce) then insert nonce H else H)"
    and "max_nonce (snd (check_and_mark w nonce)) = max_nonce w"
proof -
  have len: "length (bitmap w) = 4" using rep by (simp add: represents_def)
  have inj: "n \<le> max_nonce w \<Longrightarrow> unat (max_nonce w - n) = diff \<longleftrightarrow> n = nonce" for n
    by (simp add: diff_def flip: word_unat_eq_iff)
  have test: "bitmap w ! (diff div 64) AND push_bit (diff mod 64) 1 \<noteq> 0 \<longleftrightarrow> wbit (bitmap w) diff"
    unfolding wbit_def and_mask_iff ..
  have seen: "diff < 256 \<Longrightarrow> wbit (bitmap w) diff \<longleftrightarrow> nonce \<in> H"
    using rep le by (simp add: represents_def diff_def)
  have cm: "check_and_mark w nonce =
      (if diff \<ge> 256 \<or> wbit (bitmap w) diff then (False, w)
       else (True, w\<lparr>bitmap := (bitmap w)[diff div 64 := bitmap w ! (diff div 64) OR push_bit (diff mod 64) 1]\<rparr>))"
    using le unfolding check_and_mark_def Let_def diff_def [symmetric] test REPLAY_WINDOW_SIZE_def
    by (simp add: leD)
  show "fst (check_and_mark w nonce) \<longleftrightarrow> diff < 256 \<and> nonce \<notin> H" using seen by (auto simp: cm)
  show "max_nonce (snd (check_and_mark w nonce)) = max_nonce w" by (simp add: cm)
  show "represents (snd (check_and_mark w nonce)) (if fst (check_and_mark w nonce) then insert nonce H else H)"
    using rep le inj len seen unfolding cm by (auto simp: represents_def wbit_mark simp del: push_bit_of_1)
qed

lemma check_and_mark_new:
  assumes rep: "represents w H" and gt: "nonce > max_nonce w"
  shows "fst (check_and_mark w nonce)"
    and "represents (snd (check_and_mark w nonce)) (insert nonce H)"
    and "max_nonce (snd (check_and_mark w nonce)) = nonce"
proof -
  let ?shift = "unat (nonce - max_nonce w)"
  define bm where "bm = (if ?shift \<ge> 256 then replicate 4 0 else shift_left ?shift (bitmap w))"
  have cm: "check_and_mark w nonce = (True, \<lparr>max_nonce = nonce, bitmap = bm[0 := bm ! 0 OR 1]\<rparr>)"
    using gt by (simp add: check_and_mark_def Let_def REPLAY_WINDOW_SIZE_def bm_def)
  show "fst (check_and_mark w nonce)" "max_nonce (snd (check_and_mark w nonce)) = nonce"
    by (simp_all add: cm)
  have len: "length (bitmap w) = 4" "length bm = 4"
    using rep by (simp_all add: represents_def bm_def)
  have shift: "?shift = unat nonce - unat (max_nonce w)" "unat (max_nonce w) < unat nonce"
    using gt by (simp_all add: unat_sub less_imp_le word_less_nat_alt)
  have "wbit (bm[0 := bm ! 0 OR 1]) (unat (nonce - n)) \<longleftrightarrow> n \<in> insert nonce H"
    if n: "n \<le> nonce" "unat (nonce - n) < 256" for n
  proof -
    have d: "unat (nonce - n) = unat nonce - unat n" "unat n \<le> unat nonce"
      using n by (simp_all add: unat_sub word_le_nat_alt)
    have mark: "wbit (bm[0 := bm ! 0 OR 1]) (unat (nonce - n)) \<longleftrightarrow> n = nonce \<or> wbit bm (unat (nonce - n))"
      using wbit_mark [OF len(2) _ n(2), of 0] d by (auto simp: word_unat_eq_iff)
    show ?thesis
    proof (cases "n \<le> max_nonce w")
      case True
      then have le: "unat n \<le> unat (max_nonce w)" by (simp add: word_le_nat_alt)
      then have small: "\<not> ?shift \<ge> 256" "?shift \<le> unat (nonce - n)" "0 < ?shift"
        "unat (nonce - n) - ?shift = unat (max_nonce w - n)" "unat (max_nonce w - n) < 256"
        using True n(2) d shift by (simp_all add: unat_sub)
      then have "wbit bm (unat (nonce - n)) \<longleftrightarrow> n \<in> H"
        using rep True len n(2) by (simp add: bm_def wbit_shift_left represents_def)
      then show ?thesis using mark True gt by auto
    next
      case False
      then have "n \<notin> H" using rep by (auto simp: represents_def)
      moreover have "\<not> ?shift \<le> unat (nonce - n)"
        using False d shift by (simp add: word_le_nat_alt not_le)
      ultimately show ?thesis
        using mark n(2) len shift by (auto simp: bm_def wbit_shift_left)
    qed
  qed
  moreover have "\<forall>n \<in> insert nonce H. n \<le> nonce"
    using rep gt by (auto simp: represents_def)
  ultimately show "represents (snd (check_and_mark w nonce)) (insert nonce H)"
    using len(2) by (simp add: cm represents_def)
qed

lemma check_and_mark_accepts:
  assumes "represents w H"
  shows "fst (check_and_mark w n) \<longleftrightarrow> n > max_nonce w \<or> (unat (max_nonce w - n) < 256 \<and> n \<notin> H)"
  using check_and_mark_new(1) [OF assms] check_and_mark_old(1) [OF assms]
  by (cases "n > max_nonce w") (auto simp: not_less)

lemma check_and_mark_max:
  assumes "represents w H"
  shows "max_nonce (snd (check_and_mark w n)) = max (max_nonce w) n"
  using check_and_mark_new(3) [OF assms] check_and_mark_old(3) [OF assms]
  by (cases "n > max_nonce w") (auto simp: not_less max_def)

lemma check_and_mark_represents:
  assumes "represents w H"
  shows "represents (snd (check_and_mark w n)) (if fst (check_and_mark w n) then insert n H else H)"
  using check_and_mark_new(1,2) [OF assms] check_and_mark_old(2) [OF assms]
  by (cases "n > max_nonce w") (auto simp: not_less)

lemma check_and_mark_never_twice:
  assumes "represents w H" and "fst (check_and_mark w n)"
  shows "n \<notin> H"
  using assms check_and_mark_accepts [OF assms(1), of n] by (auto simp: represents_def)

subsection \<open>Filters that accept nothing twice\<close>

fun run_filter :: "('s \<Rightarrow> 'm \<Rightarrow> bool \<times> 's) \<Rightarrow> 's \<Rightarrow> 'm list \<Rightarrow> 'm list" where
  "run_filter chk s [] = []"
| "run_filter chk s (m # ms) =
     (case chk s m of (ok, s') \<Rightarrow> (if ok then [m] else []) @ run_filter chk s' ms)"

locale replay_filter =
  fixes chk :: "'s \<Rightarrow> 'm \<Rightarrow> bool \<times> 's"
    and key :: "'m \<Rightarrow> 'k"
    and rep :: "'s \<Rightarrow> 'k set \<Rightarrow> bool"
  assumes accept_fresh: "rep s H \<Longrightarrow> chk s m = (True, s') \<Longrightarrow> key m \<notin> H \<and> rep s' (insert (key m) H)"
    and reject_keeps: "rep s H \<Longrightarrow> chk s m = (False, s') \<Longrightarrow> \<exists>H'. H \<subseteq> H' \<and> rep s' H'"
begin

lemma accepted_fresh: "rep s H \<Longrightarrow> m \<in> set (run_filter chk s ms) \<Longrightarrow> key m \<notin> H"
proof (induction ms arbitrary: s H)
  case (Cons x ms)
  obtain ok s' where chk: "chk s x = (ok, s')" by (cases "chk s x")
  show ?case
  proof (cases ok)
    case True
    then have fresh: "key x \<notin> H" "rep s' (insert (key x) H)"
      using accept_fresh [OF Cons.prems(1), of x s'] chk by simp_all
    from Cons.prems(2) chk True have "m = x \<or> m \<in> set (run_filter chk s' ms)" by simp
    then show ?thesis using fresh Cons.IH [OF fresh(2)] by blast
  next
    case False
    then obtain H' where H': "H \<subseteq> H'" "rep s' H'"
      using reject_keeps [OF Cons.prems(1), of x s'] chk by auto
    from Cons.prems(2) chk False have "m \<in> set (run_filter chk s' ms)" by simp
    then show ?thesis using Cons.IH [OF H'(2)] H'(1) by auto
  qed
qed simp

lemma accepted_distinct: "rep s H \<Longrightarrow> distinct (map key (run_filter chk s ms))"
proof (induction ms arbitrary: s H)
  case (Cons x ms)
  obtain ok s' where chk: "chk s x = (ok, s')" by (cases "chk s x")
  show ?case
  proof (cases ok)
    case True
    then have rep: "rep s' (insert (key x) H)"
      using accept_fresh [OF Cons.prems, of x s'] chk by simp
    have "key m \<noteq> key x" if "m \<in> set (run_filter chk s' ms)" for m
      using accepted_fresh [OF rep that] by simp
    then have "key x \<notin> key ` set (run_filter chk s' ms)" by (metis imageE)
    then show ?thesis using Cons.IH [OF rep] chk True by simp
  next
    case False
    then obtain H' where H': "rep s' H'" using reject_keeps [OF Cons.prems, of x s'] chk by auto
    then show ?thesis using Cons.IH [OF H'] chk False by simp
  qed
qed simp

end

interpretation window_filter: replay_filter check_and_mark "\<lambda>n. n" represents
proof
  fix w H n w' assume rep: "represents w H"
  show "n \<notin> H \<and> represents w' (insert n H)" if "check_and_mark w n = (True, w')"
    using that check_and_mark_never_twice [OF rep, of n] check_and_mark_represents [OF rep, of n] by simp
  show "\<exists>H'. H \<subseteq> H' \<and> represents w' H'" if "check_and_mark w n = (False, w')"
    using that check_and_mark_represents [OF rep, of n] by auto
qed

definition session_step :: "aead_impl \<Rightarrow> SecureSession \<Rightarrow> u64 \<times> byte list \<Rightarrow> bool \<times> SecureSession" where
  "session_step ae s m = (case decrypt ae s (fst m) (snd m) of (r, s') \<Rightarrow> (\<not> isl r, s'))"

lemma decrypt_window: "replay_window (snd (decrypt ae s n ct)) = snd (check_and_mark (replay_window s) n)"
  by (simp add: decrypt_def Let_def split: prod.splits option.splits)

lemma decrypt_Inr_iff:
  "fst (decrypt ae s n ct) = Inr p \<longleftrightarrow>
     fst (check_and_mark (replay_window s) n) \<and>
     aead_decrypt ae (recv_cipher s) (build_nonce n) [] ct = Some p"
  by (auto simp: decrypt_def Let_def split: prod.splits option.splits if_splits)

lemma decrypt_recv_cipher [simp]: "recv_cipher (snd (decrypt ae s n ct)) = recv_cipher s"
  by (simp add: decrypt_def Let_def split: prod.splits option.splits)

lemma session_step_iff:
  "session_step ae s m = (True, s') \<longleftrightarrow> (\<exists>p. decrypt ae s (fst m) (snd m) = (Inr p, s'))"
  "session_step ae s m = (False, s') \<longleftrightarrow> (\<exists>e. decrypt ae s (fst m) (snd m) = (Inl e, s'))"
  by (cases "decrypt ae s (fst m) (snd m)"; cases "fst (decrypt ae s (fst m) (snd m))";
      simp add: session_step_def)+

interpretation session_filter:
  replay_filter "session_step ae" fst "\<lambda>s :: SecureSession. represents (replay_window s)" for ae
proof
  fix s s' :: SecureSession and H and m :: "u64 \<times> byte list" assume rep: "represents (replay_window s) H"
  note w = decrypt_window [of ae s "fst m" "snd m"]
    and step = check_and_mark_represents [OF rep, of "fst m"]
  show "fst m \<notin> H \<and> represents (replay_window s') (insert (fst m) H)" if st: "session_step ae s m = (True, s')"
  proof -
    obtain p where "decrypt ae s (fst m) (snd m) = (Inr p, s')" using st by (auto simp: session_step_iff)
    then have "fst (check_and_mark (replay_window s) (fst m))"
      using decrypt_Inr_iff [of ae s "fst m" "snd m" p] by simp
    with step w check_and_mark_never_twice [OF rep] \<open>decrypt ae s (fst m) (snd m) = (Inr p, s')\<close>
    show ?thesis by simp
  qed
  show "\<exists>H'. H \<subseteq> H' \<and> represents (replay_window s') H'" if "session_step ae s m = (False, s')"
    using that w step by (auto simp: session_step_iff split: if_splits)
qed

subsection \<open>What the window specifies\<close>

text \<open>The specification: the highest accepted nonce and the set of all accepted ones; a nonce is
  accepted if it is higher than all before, or at most 255 below the highest and not accepted yet.\<close>

definition spec_check :: "u64 \<times> u64 set \<Rightarrow> u64 \<Rightarrow> bool \<times> (u64 \<times> u64 set)" where
  "spec_check st n = (case st of (m, H) \<Rightarrow>
     if n > m \<or> (unat (m - n) < 256 \<and> n \<notin> H) then (True, (max m n, insert n H)) else (False, (m, H)))"

lemma run_filter_spec:
  "represents w H \<Longrightarrow> run_filter check_and_mark w ns = run_filter spec_check (max_nonce w, H) ns"
proof (induction ns arbitrary: w H)
  case (Cons n ns)
  obtain ok w' where cm: "check_and_mark w n = (ok, w')" by (cases "check_and_mark w n")
  have "ok \<longleftrightarrow> n > max_nonce w \<or> (unat (max_nonce w - n) < 256 \<and> n \<notin> H)"
    "max_nonce w' = max (max_nonce w) n" "represents w' (if ok then insert n H else H)"
    using check_and_mark_accepts [OF Cons.prems, of n] check_and_mark_max [OF Cons.prems, of n]
      check_and_mark_represents [OF Cons.prems, of n] cm by simp_all
  moreover from this have "\<not> ok \<Longrightarrow> max_nonce w' = max_nonce w" by (auto simp: max_def not_less)
  ultimately show ?case
    using Cons.IH [of w' "if ok then insert n H else H"] cm by (auto simp: spec_check_def)
qed simp

lemma from_keys_Inr:
  "from_keys ae keys = Inr s \<Longrightarrow>
   send_cipher s = send_key keys \<and> recv_cipher s = recv_key keys \<and> send_nonce s = 0 \<and>
   replay_window s = ReplayWindow_new"
  by (auto simp: from_keys_def split: option.splits)

subsection \<open>Sequences of messages\<close>

fun encrypt_all :: "aead_impl \<Rightarrow> SecureSession \<Rightarrow> byte list list \<Rightarrow> (CryptoError, u64 \<times> byte list) res list" where
  "encrypt_all ae s [] = []"
| "encrypt_all ae s (p # ps) = (case encrypt ae s p of (r, s') \<Rightarrow> r # encrypt_all ae s' ps)"

fun decrypt_all :: "aead_impl \<Rightarrow> SecureSession \<Rightarrow> (u64 \<times> byte list) list \<Rightarrow> (CryptoError, byte list) res list" where
  "decrypt_all ae s [] = []"
| "decrypt_all ae s (m # ms) = (case decrypt ae s (fst m) (snd m) of (r, s') \<Rightarrow> r # decrypt_all ae s' ms)"

text \<open>A delivery order in which no message is 256 or more behind one delivered before it.\<close>

fun in_window :: "nat \<Rightarrow> nat list \<Rightarrow> bool" where
  "in_window m [] = True"
| "in_window m (i # is) \<longleftrightarrow> m < i + 256 \<and> in_window (max m i) is"

lemma snd_encrypt: "snd (encrypt ae s p) = s\<lparr>send_nonce := send_nonce s + 1\<rparr>"
  by (simp add: encrypt_def Let_def split: option.splits)

lemma length_encrypt_all [simp]: "length (encrypt_all ae s ps) = length ps"
  by (induction ps arbitrary: s) (auto split: prod.splits)

lemma encrypt_all_nth:
  "i < length ps \<Longrightarrow>
   encrypt_all ae s ps ! i = fst (encrypt ae (s\<lparr>send_nonce := send_nonce s + of_nat i\<rparr>) (ps ! i))"
proof (induction ps arbitrary: s i)
  case (Cons p ps)
  obtain r s' where e: "encrypt ae s p = (r, s')" by (cases "encrypt ae s p")
  then have s': "s' = s\<lparr>send_nonce := send_nonce s + 1\<rparr>" using snd_encrypt [of ae s p] by simp
  show ?case using Cons e s' by (cases i) (simp_all add: ac_simps)
qed simp

lemma unat_MAX_NONCE: "unat MAX_NONCE = 2 ^ 48 - 1"
  by (simp add: MAX_NONCE_def)

lemma encrypt_nth_fresh:
  assumes "send_nonce s = 0" "i < length ps" "length ps \<le> 2 ^ 64"
  shows "encrypt_all ae s ps ! i =
     (if i \<ge> 2 ^ 48 then Inl (Err NonceOverflow)
      else case aead_encrypt ae (send_cipher s) (build_nonce (of_nat i)) [] (ps ! i) of
        None \<Rightarrow> Inl (Err (HandshakeFailed ''AEAD encrypt failed''))
      | Some ct \<Rightarrow> Inr (of_nat i, ct))"
proof -
  have "unat (of_nat i :: u64) = i" using assms(2,3) by (simp add: unat_of_nat)
  then have "(of_nat i :: u64) > MAX_NONCE \<longleftrightarrow> i \<ge> 2 ^ 48"
    unfolding word_less_nat_alt unat_MAX_NONCE by auto
  then show ?thesis
    using assms by (simp add: encrypt_all_nth encrypt_def Let_def split: option.splits)
qed

lemma unat_minus1_u64: "unat (- 1 :: u64) = 2 ^ 64 - 1"
  by (simp add: unsigned_minus_1_eq_mask mask_eq_exp_minus_1)

lemma build_nonce_inj: "build_nonce a = build_nonce b \<longleftrightarrow> a = b"
  by (simp add: build_nonce_def le_bytes_def)

lemma decrypt_all_in_window:
  assumes "represents (replay_window r) H" "recv_cipher r = k" "unat (max_nonce (replay_window r)) = m"
    and "in_window m is" "distinct is" "\<forall>i \<in> set is. of_nat i \<notin> H" "\<forall>i \<in> set is. i < 2 ^ 48"
    and "\<forall>i \<in> set is. aead_decrypt ae k (build_nonce (of_nat i)) [] (ct i) = Some (pt i)"
  shows "decrypt_all ae r (map (\<lambda>i. (of_nat i, ct i)) is) = map (\<lambda>i. Inr (pt i)) is"
  using assms
proof (induction "is" arbitrary: r H m)
  case (Cons i "is")
  let ?n = "of_nat i :: u64" and ?w = "replay_window r"
  have i: "unat ?n = i" using Cons.prems(7) by (simp add: unat_of_nat)
  have acc: "fst (check_and_mark ?w ?n)"
    using check_and_mark_accepts [OF Cons.prems(1), of ?n] Cons.prems(3,4,6) i
    by (auto simp: word_less_nat_alt unat_sub word_le_nat_alt not_less)
  let ?r = "snd (decrypt ae r ?n (ct i))"
  have "fst (decrypt ae r ?n (ct i)) = Inr (pt i)"
    using acc Cons.prems(2,8) by (simp add: decrypt_Inr_iff)
  moreover have "decrypt_all ae ?r (map (\<lambda>i. (of_nat i, ct i)) is) = map (\<lambda>i. Inr (pt i)) is"
  proof (rule Cons.IH)
    show "represents (replay_window ?r) (insert ?n H)"
      using check_and_mark_represents [OF Cons.prems(1), of ?n] acc by (simp add: decrypt_window)
    show "unat (max_nonce (replay_window ?r)) = max m i"
      using check_and_mark_max [OF Cons.prems(1), of ?n] Cons.prems(3) i
      by (auto simp: decrypt_window max_def word_le_nat_alt)
    show "\<forall>j \<in> set is. of_nat j \<notin> insert ?n H"
    proof
      fix j assume j: "j \<in> set is"
      then have "j < 2 ^ 48" using Cons.prems(7) by simp
      then have "unat (of_nat j :: u64) = j" by (simp add: unat_of_nat)
      moreover have "j \<noteq> i" using j Cons.prems(5) by auto
      ultimately show "(of_nat j :: u64) \<notin> insert ?n H" using i j Cons.prems(6) by auto
    qed
  qed (use Cons.prems in auto)
  ultimately show ?case by (cases "decrypt ae r ?n (ct i)") simp
qed simp

subsection \<open>Correctness of the session\<close>

text \<open>An AEAD to run sessions with: the message followed by a 16 byte checksum tag.\<close>

definition toy_tag :: "byte list \<Rightarrow> byte list \<Rightarrow> byte list \<Rightarrow> byte list \<Rightarrow> byte list" where
  "toy_tag k n ad p = replicate 16 (sum_list (k @ n @ ad @ p))"

definition toy_aead :: aead_impl where
  "toy_aead = \<lparr>aead_new = (\<lambda>k. None), aead_encrypt = (\<lambda>k n ad p. Some (p @ toy_tag k n ad p)),
     aead_decrypt = (\<lambda>k n ad c. let p = take (length c - 16) c in
       if 16 \<le> length c \<and> drop (length c - 16) c = toy_tag k n ad p then Some p else None)\<rparr>"

lemma toy_aead_simps [simp]:
  "aead_new toy_aead k = None"
  "aead_encrypt toy_aead k n ad p = Some (p @ toy_tag k n ad p)"
  "aead_decrypt toy_aead k n ad (p @ toy_tag k n ad p) = Some p"
  "aead_decrypt toy_aead k n ad [] = None"
  "length (toy_tag k n ad p) = 16"
  by (simp_all add: toy_aead_def toy_tag_def)

text \<open>C11. The 256 bit sliding window, shifted word by word, accepts exactly the nonces the set
  specification accepts, on every sequence of nonces.\<close>

theorem replay_window_refines_spec:
  "run_filter check_and_mark ReplayWindow_new ns = run_filter spec_check (0, {}) ns"
  using run_filter_spec [OF represents_new, of ns] by (simp add: ReplayWindow_new_def)

text \<open>Whatever messages an attacker delivers to a session, in whatever order, no two messages that
  decrypt successfully carry the same nonce: no ciphertext is accepted twice.\<close>

lemma session_rejects_replays:
  assumes "from_keys ae keys = Inr s"
  shows "distinct (map fst (run_filter (session_step ae) s msgs))"
  using session_filter.accepted_distinct [of s "{}"] from_keys_Inr [OF assms] represents_new by simp

text \<open>The \<open>i\<close>-th message a fresh session encrypts uses the nonce \<open>i\<close>, so no nonce is used twice under
  a key; from message \<open>2 ^ 48\<close> on encryption fails with \<open>NonceOverflow\<close> (as long as fewer than \<open>2 ^ 64\<close>
  calls are made, after which the counter would wrap).\<close>

lemma encrypt_nonce_sequence:
  assumes "from_keys ae keys = Inr s" and "i < length ps" and "length ps \<le> 2 ^ 64"
  shows "encrypt_all ae s ps ! i =
     (if i \<ge> 2 ^ 48 then Inl (Err NonceOverflow)
      else case aead_encrypt ae (send_key keys) (build_nonce (of_nat i)) [] (ps ! i) of
        None \<Rightarrow> Inl (Err (HandshakeFailed ''AEAD encrypt failed''))
      | Some ct \<Rightarrow> Inr (of_nat i, ct)) \<and>
     (\<forall>a b. build_nonce a = build_nonce b \<longleftrightarrow> a = b)"
  using encrypt_nth_fresh [OF _ assms(2,3), of s ae] from_keys_Inr [OF assms(1)]
  by (simp add: build_nonce_inj)

text \<open>C17. End to end over an unreliable channel: messages encrypted by one side and delivered to the
  other in any order, with any of them lost, each at most once and none more than 255 behind the
  highest delivered, all decrypt to what was sent.\<close>

theorem session_delivers:
  assumes "from_keys ae ka = Inr s" and "from_keys ae kb = Inr r" and "send_key ka = recv_key kb"
    and aead: "\<And>p n. p \<in> set ps \<Longrightarrow>
      \<exists>c. aead_encrypt ae (send_key ka) n [] p = Some c \<and> aead_decrypt ae (send_key ka) n [] c = Some p"
    and "length ps \<le> 2 ^ 48" and "distinct is" and "\<forall>i \<in> set is. i < length ps" and "in_window 0 is"
  shows "decrypt_all ae r (map (\<lambda>i. projr (encrypt_all ae s ps ! i)) is) = map (\<lambda>i. Inr (ps ! i)) is"
proof -
  let ?k = "send_key ka"
  define ct where "ct i = the (aead_encrypt ae ?k (build_nonce (of_nat i)) [] (ps ! i))" for i
  have sent: "encrypt_all ae s ps ! i = Inr (of_nat i, ct i)"
    "aead_decrypt ae ?k (build_nonce (of_nat i)) [] (ct i) = Some (ps ! i)" if i: "i < length ps" for i
  proof -
    obtain c where c: "aead_encrypt ae ?k (build_nonce (of_nat i)) [] (ps ! i) = Some c"
      "aead_decrypt ae ?k (build_nonce (of_nat i)) [] c = Some (ps ! i)"
      using aead [of "ps ! i" "build_nonce (of_nat i)"] i by auto
    then have "ct i = c" by (simp add: ct_def)
    moreover have "\<not> i \<ge> 2 ^ 48" using i assms(5) by simp
    ultimately show "encrypt_all ae s ps ! i = Inr (of_nat i, ct i)"
      "aead_decrypt ae ?k (build_nonce (of_nat i)) [] (ct i) = Some (ps ! i)"
      using encrypt_nth_fresh [of s i ps ae] from_keys_Inr [OF assms(1)] i assms(5) c by simp_all
  qed
  have "map (\<lambda>i. projr (encrypt_all ae s ps ! i)) is = map (\<lambda>i. (of_nat i, ct i)) is"
    using assms(7) sent(1) by simp
  moreover have "decrypt_all ae r (map (\<lambda>i. (of_nat i, ct i)) is) = map (\<lambda>i. Inr (ps ! i)) is"
    using assms(3,5-8) sent(2) from_keys_Inr [OF assms(2)] represents_new
    by (intro decrypt_all_in_window [of r "{}" ?k 0]) (auto simp: ReplayWindow_new_def)
  ultimately show ?thesis by (simp only:)
qed

theorem session_delivers_witness:
  "\<exists>s r. from_keys toy_aead \<lparr>send_key = [1], recv_key = [2], remote_static = []\<rparr> = Inr s \<and>
     from_keys toy_aead \<lparr>send_key = [2], recv_key = [1], remote_static = []\<rparr> = Inr r \<and>
     decrypt_all toy_aead r (map (\<lambda>i. projr (encrypt_all toy_aead s [[7], [8], [9]] ! i)) [2, 0]) =
       [Inr [9], Inr [7]]"
proof -
  let ?ka = "\<lparr>send_key = [1], recv_key = [2], remote_static = []\<rparr>"
    and ?kb = "\<lparr>send_key = [2], recv_key = [1], remote_static = []\<rparr>"
  obtain s where s: "from_keys toy_aead ?ka = Inr s" by (simp add: from_keys_def)
  obtain r where r: "from_keys toy_aead ?kb = Inr r" by (simp add: from_keys_def)
  have "decrypt_all toy_aead r (map (\<lambda>i. projr (encrypt_all toy_aead s [[7], [8], [9]] ! i)) [2, 0]) =
      map (\<lambda>i. Inr ([[7], [8], [9]] ! i)) [2, 0]"
    by (rule session_delivers [OF s r]) auto
  with s r show ?thesis by auto
qed

text \<open>C37. The window is marked before the ciphertext is authenticated: one forged message with the
  highest nonce, which fails to decrypt, makes the session reject as a replay every later message
  with a nonce below \<open>2 ^ 64 - 256\<close>, genuine or not.\<close>

theorem forged_nonce_blocks_session:
  assumes "from_keys ae keys = Inr s"
    and "aead_decrypt ae (recv_key keys) (build_nonce (- 1)) [] junk = None"
  shows "fst (decrypt ae s (- 1) junk) = Inl (Err DecryptionFailed) \<and>
     (\<forall>n ct. unat n < 2 ^ 64 - 256 \<longrightarrow>
        fst (decrypt ae (snd (decrypt ae s (- 1) junk)) n ct) = Inl (Err (ReplayDetected n)))"
proof (intro conjI allI impI)
  have rep: "represents (replay_window s) {}" and mx: "max_nonce (replay_window s) < - 1"
    using from_keys_Inr [OF assms(1)] represents_new
    by (simp_all add: ReplayWindow_new_def word_less_nat_alt unat_minus1_u64)
  note new = check_and_mark_new [OF rep mx]
  show "fst (decrypt ae s (- 1) junk) = Inl (Err DecryptionFailed)"
    using new(1) assms(2) from_keys_Inr [OF assms(1)]
    by (cases "check_and_mark (replay_window s) (- 1)") (simp add: decrypt_def)
  fix n :: u64 and ct assume n: "unat n < 2 ^ 64 - 256"
  let ?w = "replay_window (snd (decrypt ae s (- 1) junk))"
  have w: "represents ?w {- 1}" "max_nonce ?w = - 1"
    using new by (simp_all add: decrypt_window)
  have "unat (- 1 - n) = 2 ^ 64 - 1 - unat n" by (simp add: unat_sub unat_minus1_u64)
  then have "\<not> fst (check_and_mark ?w n)"
    using check_and_mark_accepts [OF w(1), of n] w(2) n by (auto simp: word_less_nat_alt unat_minus1_u64)
  then show "fst (decrypt ae (snd (decrypt ae s (- 1) junk)) n ct) = Inl (Err (ReplayDetected n))"
    by (cases "check_and_mark ?w n") (simp add: decrypt_def [of ae "snd (decrypt ae s (- 1) junk)"])
qed

theorem forged_nonce_blocks_session_witness:
  "\<exists>s. from_keys toy_aead \<lparr>send_key = [1], recv_key = [2], remote_static = []\<rparr> = Inr s \<and>
     fst (decrypt toy_aead (snd (decrypt toy_aead s (- 1) [])) 0 ([7] @ toy_tag [2] (build_nonce 0) [] [7])) =
       Inl (Err (ReplayDetected 0))"
proof -
  let ?k = "\<lparr>send_key = [1], recv_key = [2], remote_static = []\<rparr>"
  obtain s where s: "from_keys toy_aead ?k = Inr s" by (simp add: from_keys_def)
  from forged_nonce_blocks_session [OF s, of "[]"]
  have "fst (decrypt toy_aead (snd (decrypt toy_aead s (- 1) [])) 0 ([7] @ toy_tag [2] (build_nonce 0) [] [7])) =
      Inl (Err (ReplayDetected 0))" by simp
  with s show ?thesis by blast
qed

end
