(* ===== verification/Noise.thy ===== *)
theory Noise
  imports Session
begin

text \<open>
  \<open>ceky-crypto/src/noise.rs\<close>: the three message handshake.  A step returns its result and the
  handshake object as the method leaves it, partial updates before an error included.  Random
  ephemeral secrets are arguments.  Diffie-Hellman, SHA-256 and the AEAD are parameters; what the
  handshake relies on is \<open>noise_laws\<close>.  HMAC and HKDF are the code's own and are modelled.
\<close>

subsection \<open>Key derivation\<close>

definition PROTOCOL_NAME :: "byte list" where
  "PROTOCOL_NAME = map (\<lambda>c. of_nat (of_char c)) ''Noise_XX_25519_ChaChaPoly_SHA256''"

definition hmac_sha256 :: "crypto_impl \<Rightarrow> byte list \<Rightarrow> byte list \<Rightarrow> byte list" where
  "hmac_sha256 cr key dat =
     (let k_prime = (if length key \<le> 64 then key @ replicate (64 - length key) 0
                     else sha256 cr key @ replicate (64 - length (sha256 cr key)) 0);
          ipad = map (\<lambda>b. 0x36 XOR b) k_prime;
          opad = map (\<lambda>b. 0x5c XOR b) k_prime;
          inner_hash = sha256 cr (ipad @ dat)
      in sha256 cr (opad @ inner_hash))"

definition hkdf :: "crypto_impl \<Rightarrow> byte list \<Rightarrow> byte list \<Rightarrow> byte list \<times> byte list" where
  "hkdf cr chaining_key ikm =
     (let prk = hmac_sha256 cr chaining_key ikm;
          t1 = hmac_sha256 cr prk [0x01];
          t2 = hmac_sha256 cr prk (t1 @ [0x02])
      in (t1, t2))"

definition noise_encrypt_with_ad ::
    "aead_impl \<Rightarrow> byte list \<Rightarrow> u64 \<Rightarrow> byte list \<Rightarrow> byte list \<Rightarrow> (CryptoError, byte list) res" where
  "noise_encrypt_with_ad ae key nonce_counter ad plaintext =
     (case aead_new ae key of
        Some e \<Rightarrow> Inl (Err (HandshakeFailed (''cipher init: '' @ e)))
      | None \<Rightarrow>
     (case aead_encrypt ae key (replicate 4 0 @ le_bytes 8 nonce_counter) ad plaintext of
        None \<Rightarrow> Inl (Err (HandshakeFailed ''AEAD encryption failed''))
      | Some c \<Rightarrow> Inr c))"

definition noise_decrypt_with_ad ::
    "aead_impl \<Rightarrow> byte list \<Rightarrow> u64 \<Rightarrow> byte list \<Rightarrow> byte list \<Rightarrow> (CryptoError, byte list) res" where
  "noise_decrypt_with_ad ae key nonce_counter ad ciphertext =
     (case aead_new ae key of
        Some e \<Rightarrow> Inl (Err (HandshakeFailed (''cipher init: '' @ e)))
      | None \<Rightarrow>
     (case aead_decrypt ae key (replicate 4 0 @ le_bytes 8 nonce_counter) ad ciphertext of
        None \<Rightarrow> Inl (Err DecryptionFailed)
      | Some p \<Rightarrow> Inr p))"

subsection \<open>The handshake object\<close>

datatype InternalState =
    New
  | InitSentMsg1 "byte list" "byte list"
  | RespSentMsg2 "byte list" "byte list"
  | Complete "byte list" "byte list" "byte list"

record NoiseHandshake =
  identity :: Identity
  is_initiator :: bool
  hs_h :: "byte list"
  hs_ck :: "byte list"
  hs_state :: InternalState

definition initialize_symmetric_state :: "crypto_impl \<Rightarrow> byte list \<times> byte list" where
  "initialize_symmetric_state cr = (let h = sha256 cr PROTOCOL_NAME in (h, h))"

definition new_initiator :: "crypto_impl \<Rightarrow> Identity \<Rightarrow> NoiseHandshake" where
  "new_initiator cr me =
     (let (h, ck) = initialize_symmetric_state cr in
      \<lparr>identity = me, is_initiator = True, hs_h = h, hs_ck = ck, hs_state = New\<rparr>)"

definition new_responder :: "crypto_impl \<Rightarrow> Identity \<Rightarrow> NoiseHandshake" where
  "new_responder cr me =
     (let (h, ck) = initialize_symmetric_state cr in
      \<lparr>identity = me, is_initiator = False, hs_h = h, hs_ck = ck, hs_state = New\<rparr>)"

definition mix_hash :: "crypto_impl \<Rightarrow> byte list \<Rightarrow> NoiseHandshake \<Rightarrow> NoiseHandshake" where
  "mix_hash cr dat hs = hs\<lparr>hs_h := sha256 cr (hs_h hs @ dat)\<rparr>"

definition mix_key :: "crypto_impl \<Rightarrow> byte list \<Rightarrow> NoiseHandshake \<Rightarrow> NoiseHandshake" where
  "mix_key cr dh_output hs = (let (new_ck, new_k) = hkdf cr (hs_ck hs) dh_output in hs\<lparr>hs_ck := new_ck\<rparr>)"

text \<open>The lines \<open>let (new_ck, k) = Self::hkdf(&self.ck, ...); self.ck = new_ck\<close> of every message.\<close>

definition hkdf_step :: "crypto_impl \<Rightarrow> byte list \<Rightarrow> NoiseHandshake \<Rightarrow> byte list \<times> NoiseHandshake" where
  "hkdf_step cr ikm hs = (let (new_ck, k) = hkdf cr (hs_ck hs) ikm in (k, hs\<lparr>hs_ck := new_ck\<rparr>))"

text \<open>What the unused \<open>mix_key\<close> does to the chaining key is what the messages do in line.\<close>

lemma mix_key_step: "mix_key cr ikm hs = snd (hkdf_step cr ikm hs)"
  by (simp add: mix_key_def hkdf_step_def split: prod.splits)

subsection \<open>The messages\<close>

definition create_message1 :: "crypto_impl \<Rightarrow> byte list \<Rightarrow> NoiseHandshake \<Rightarrow>
    (CryptoError, byte list) res \<times> NoiseHandshake" where
  "create_message1 cr rnd hs =
     (if is_initiator hs \<and> hs_state hs \<noteq> New
      then (Inl (Err (InvalidHandshakeState ''New'' ([CHR 0x22] @ ''not New'' @ [CHR 0x22]))), hs)
      else let epub = x_public cr rnd; hs = mix_hash cr epub hs in
        (Inr epub, hs\<lparr>hs_state := InitSentMsg1 rnd epub\<rparr>))"

definition process_message1_create_message2 :: "crypto_impl \<Rightarrow> aead_impl \<Rightarrow> byte list \<Rightarrow> byte list \<Rightarrow>
    NoiseHandshake \<Rightarrow> (CryptoError, byte list) res \<times> NoiseHandshake" where
  "process_message1_create_message2 cr ae rnd msg1 hs =
     (if length msg1 \<noteq> 32
      then (Inl (Err (HandshakeFailed (''msg1 should be 32 bytes, got '' @ show_nat (length msg1)))), hs)
      else
        let remote_ephemeral = msg1;
            hs = mix_hash cr remote_ephemeral hs;
            epub = x_public cr rnd;
            hs = mix_hash cr epub hs;
            (k1, hs) = hkdf_step cr (x_dh cr rnd remote_ephemeral) hs;
            our_static = x25519_public_key (identity hs)
        in case noise_encrypt_with_ad ae k1 0 (hs_h hs) our_static of
          Inl e \<Rightarrow> (Inl e, hs)
        | Inr encrypted_static \<Rightarrow>
            let hs = mix_hash cr encrypted_static hs;
                (k2, hs) = hkdf_step cr (x_dh cr (x25519_static_secret (identity hs)) remote_ephemeral) hs
            in case noise_encrypt_with_ad ae k2 0 (hs_h hs) [] of
              Inl e \<Rightarrow> (Inl e, hs)
            | Inr encrypted_payload \<Rightarrow>
                let hs = mix_hash cr encrypted_payload hs in
                (Inr (epub @ encrypted_static @ encrypted_payload),
                 hs\<lparr>hs_state := RespSentMsg2 remote_ephemeral rnd\<rparr>))"

definition process_message2_create_message3 :: "crypto_impl \<Rightarrow> aead_impl \<Rightarrow> byte list \<Rightarrow>
    NoiseHandshake \<Rightarrow> (CryptoError, byte list) res \<times> NoiseHandshake" where
  "process_message2_create_message3 cr ae msg2 hs =
     (case hs_state hs of
        InitSentMsg1 esec _ \<Rightarrow>
        if length msg2 < 32 + 48 + 16
        then (Inl (Err (HandshakeFailed (''msg2 too short: '' @ show_nat (length msg2) @ '' bytes''))), hs)
        else
        let remote_ephemeral = take 32 msg2;
            hs = mix_hash cr remote_ephemeral hs;
            (k1, hs) = hkdf_step cr (x_dh cr esec remote_ephemeral) hs;
            encrypted_static = take 48 (drop 32 msg2)
        in (case noise_decrypt_with_ad ae k1 0 (hs_h hs) encrypted_static of
          Inl e \<Rightarrow> (Inl e, hs)
        | Inr rstatic \<Rightarrow>
        let hs = mix_hash cr encrypted_static hs in
        if length rstatic \<noteq> 32 then (Inl Panic, hs) else
        let (k2, hs) = hkdf_step cr (x_dh cr esec rstatic) hs;
            encrypted_payload = drop (32 + 48) msg2
        in (case noise_decrypt_with_ad ae k2 0 (hs_h hs) encrypted_payload of
          Inl e \<Rightarrow> (Inl e, hs)
        | Inr _ \<Rightarrow>
        let hs = mix_hash cr encrypted_payload hs;
            our_static = x25519_public_key (identity hs);
            (k3, hs) = hkdf_step cr [] hs
        in (case noise_encrypt_with_ad ae k3 0 (hs_h hs) our_static of
          Inl e \<Rightarrow> (Inl e, hs)
        | Inr encrypted_our_static \<Rightarrow>
        let hs = mix_hash cr encrypted_our_static hs;
            (_, hs) = hkdf_step cr (x_dh cr (x25519_static_secret (identity hs)) remote_ephemeral) hs;
            (send, recv) = hkdf cr (hs_ck hs) []
        in (Inr encrypted_our_static, hs\<lparr>hs_state := Complete send recv rstatic\<rparr>))))
      | _ \<Rightarrow> (Inl (Err (InvalidHandshakeState ''InitSentMsg1'' ''other'')), hs))"

definition process_message3 :: "crypto_impl \<Rightarrow> aead_impl \<Rightarrow> byte list \<Rightarrow> NoiseHandshake \<Rightarrow>
    (CryptoError, unit) res \<times> NoiseHandshake" where
  "process_message3 cr ae msg3 hs =
     (case hs_state hs of
        RespSentMsg2 _ esec \<Rightarrow>
        let (k3, hs) = hkdf_step cr [] hs in
        (case noise_decrypt_with_ad ae k3 0 (hs_h hs) msg3 of
          Inl e \<Rightarrow> (Inl e, hs)
        | Inr rstatic \<Rightarrow>
        let hs = mix_hash cr msg3 hs in
        if length rstatic \<noteq> 32 then (Inl Panic, hs) else
        let (_, hs) = hkdf_step cr (x_dh cr esec rstatic) hs;
            (recv, send) = hkdf cr (hs_ck hs) []
        in (Inr (), hs\<lparr>hs_state := Complete send recv rstatic\<rparr>))
      | _ \<Rightarrow> (Inl (Err (InvalidHandshakeState ''RespSentMsg2'' ''other'')), hs))"

definition into_session_keys :: "NoiseHandshake \<Rightarrow> (CryptoError, SessionKeys) res" where
  "into_session_keys hs =
     (case hs_state hs of
        Complete send recv remote \<Rightarrow>
          Inr \<lparr>send_key = send, recv_key = recv, remote_static = remote\<rparr>
      | _ \<Rightarrow> Inl (Err (InvalidHandshakeState ''Complete'' ''not complete'')))"

definition is_complete :: "NoiseHandshake \<Rightarrow> bool" where
  "is_complete hs = (case hs_state hs of Complete _ _ _ \<Rightarrow> True | _ \<Rightarrow> False)"

subsection \<open>What the handshake relies on\<close>

text \<open>Diffie-Hellman commutes, keys and digests have 32 bytes, and the AEAD takes 32 byte keys, adds a
  16 byte tag and decrypts what it encrypted.\<close>

definition noise_laws :: "crypto_impl \<Rightarrow> aead_impl \<Rightarrow> bool" where
  "noise_laws cr ae \<longleftrightarrow>
     (\<forall>a b. x_dh cr a (x_public cr b) = x_dh cr b (x_public cr a)) \<and>
     (\<forall>a. length (x_public cr a) = 32) \<and> (\<forall>m. length (sha256 cr m) = 32) \<and>
     (\<forall>k. length k = 32 \<longrightarrow> aead_new ae k = None \<and>
        (\<forall>n ad p. length p \<le> 32 \<longrightarrow> (\<exists>c. aead_encrypt ae k n ad p = Some c \<and>
           length c = length p + 16 \<and> aead_decrypt ae k n ad c = Some p)))"

lemma noise_laws_toy: "noise_laws toy_crypto toy_aead"
  by (auto simp: noise_laws_def toy_crypto_def ac_simps)

lemma hkdf_length:
  "noise_laws cr ae \<Longrightarrow> length (fst (hkdf cr ck ikm)) = 32 \<and> length (snd (hkdf cr ck ikm)) = 32"
  by (simp add: hkdf_def hmac_sha256_def Let_def noise_laws_def)

definition sealed :: "aead_impl \<Rightarrow> byte list \<Rightarrow> byte list \<Rightarrow> byte list \<Rightarrow> byte list" where
  "sealed ae k ad p = projr (noise_encrypt_with_ad ae k 0 ad p)"

lemma noise_seal:
  assumes "noise_laws cr ae" "length k = 32" "length p \<le> 32"
  shows "noise_encrypt_with_ad ae k 0 ad p = Inr (sealed ae k ad p)"
    "length (sealed ae k ad p) = length p + 16"
    "noise_decrypt_with_ad ae k 0 ad (sealed ae k ad p) = Inr p"
proof -
  let ?n = "replicate 4 0 @ le_bytes 8 (0 :: u64)"
  obtain c where "aead_new ae k = None" "aead_encrypt ae k ?n ad p = Some c" "length c = length p + 16"
    "aead_decrypt ae k ?n ad c = Some p"
    using assms unfolding noise_laws_def by blast
  then show "noise_encrypt_with_ad ae k 0 ad p = Inr (sealed ae k ad p)"
    "length (sealed ae k ad p) = length p + 16"
    "noise_decrypt_with_ad ae k 0 ad (sealed ae k ad p) = Inr p"
    by (simp_all add: sealed_def noise_encrypt_with_ad_def noise_decrypt_with_ad_def)
qed

subsection \<open>Running the handshake\<close>

text \<open>The two parties, each with its ephemeral secret, exchange the three messages.\<close>

definition run_handshake :: "crypto_impl \<Rightarrow> aead_impl \<Rightarrow> Identity \<Rightarrow> Identity \<Rightarrow> byte list \<Rightarrow> byte list \<Rightarrow>
    (CryptoError, NoiseHandshake \<times> NoiseHandshake) res" where
  "run_handshake cr ae a b ea eb =
     (case create_message1 cr ea (new_initiator cr a) of (r1, i1) \<Rightarrow> bindR r1 (\<lambda>m1.
      case process_message1_create_message2 cr ae eb m1 (new_responder cr b) of (r2, p1) \<Rightarrow> bindR r2 (\<lambda>m2.
      case process_message2_create_message3 cr ae m2 i1 of (r3, i2) \<Rightarrow> bindR r3 (\<lambda>m3.
      case process_message3 cr ae m3 p1 of (r4, p2) \<Rightarrow> bindR r4 (\<lambda>_. Inr (i2, p2))))))"

lemma hkdf_step_simp: "hkdf_step cr ikm hs = (snd (hkdf cr (hs_ck hs) ikm), hs\<lparr>hs_ck := fst (hkdf cr (hs_ck hs) ikm)\<rparr>)"
  by (simp add: hkdf_step_def split: prod.splits)

lemmas noise_step_defs = create_message1_def process_message1_create_message2_def
  process_message2_create_message3_def process_message3_def mix_hash_def hkdf_step_simp
  new_initiator_def new_responder_def initialize_symmetric_state_def

lemma run_handshake_ok:
  assumes laws: "noise_laws cr ae"
    and a: "a = Identity_generate cr ed_a x_a" and b: "b = Identity_generate cr ed_b x_b"
  shows "\<exists>i p k k'. run_handshake cr ae a b ea eb = Inr (i, p) \<and>
     hs_state i = Complete k k' (x25519_public_key b) \<and>
     hs_state p = Complete k' k (x25519_public_key a) \<and> length k = 32 \<and> length k' = 32"
proof -
  have dh: "x_dh cr s (x_public cr t) = x_dh cr t (x_public cr s)" for s t
    using laws by (simp add: noise_laws_def)
  have len: "length (x_public cr s) = 32" for s using laws by (simp add: noise_laws_def)
  note seal = noise_seal [OF laws] and kl = hkdf_length [OF laws]
  show ?thesis
    by (simp add: run_handshake_def noise_step_defs Let_def len seal kl a b Identity_generate_def
        dh [of eb ea] dh [of x_b ea] dh [of x_a eb] case_prod_beta)
qed

subsection \<open>Correctness of the handshake\<close>

text \<open>C16. Two nodes that exchange the three messages both complete, end with mirrored session keys (what
  one sends with is what the other receives with), each holding the static key of the other, and both
  can open a session.\<close>

theorem noise_handshake_agrees:
  assumes "noise_laws cr ae"
    and "a = Identity_generate cr ed_a x_a" and "b = Identity_generate cr ed_b x_b"
  shows "\<exists>i p ka kb sa sb. run_handshake cr ae a b ea eb = Inr (i, p) \<and> is_complete i \<and> is_complete p \<and>
     into_session_keys i = Inr ka \<and> into_session_keys p = Inr kb \<and>
     send_key ka = recv_key kb \<and> recv_key ka = send_key kb \<and>
     remote_static ka = x25519_public_key b \<and> remote_static kb = x25519_public_key a \<and>
     from_keys ae ka = Inr sa \<and> from_keys ae kb = Inr sb"
proof -
  obtain i p k k' where run: "run_handshake cr ae a b ea eb = Inr (i, p)"
    "hs_state i = Complete k k' (x25519_public_key b)" "hs_state p = Complete k' k (x25519_public_key a)"
    "length k = 32" "length k' = 32"
    using run_handshake_ok [OF assms] by blast
  then have "aead_new ae k = None" "aead_new ae k' = None" using assms(1) by (simp_all add: noise_laws_def)
  then show ?thesis using run by (simp add: is_complete_def into_session_keys_def from_keys_def)
qed

theorem noise_handshake_agrees_witness:
  "\<exists>i p ka kb. run_handshake toy_crypto toy_aead (Identity_generate toy_crypto [1] [2])
       (Identity_generate toy_crypto [3] [4]) [5] [6] = Inr (i, p) \<and>
     into_session_keys i = Inr ka \<and> into_session_keys p = Inr kb \<and> send_key ka = recv_key kb"
  using noise_handshake_agrees [OF noise_laws_toy refl refl] by blast



end
