(* ===== verification/Peer_Info.thy ===== *)
theory Peer_Info
  imports Complex_Main Identity
begin

text \<open>
  \<open>ceky-dht/src/peer_info.rs\<close> and the errors of \<open>ceky-dht/src/lib.rs\<close>: what a node knows about a peer
  and the score it gives it.  Instants and durations are nanoseconds (\<open>nat\<close>), the current instant is
  the argument \<open>now\<close>, and \<open>elapsed\<close> saturates at zero.  \<open>f64\<close> values are reals: rounding is not
  modelled.
\<close>

type_synonym time = nat

definition NANOS :: nat where "NANOS = 1000000000"

text \<open>\<open>DhtError\<close> of the DHT crate.\<close>

datatype DhtFault =
    BucketFull nat
  | PeerNotFound string
  | LookupFailed string
  | StoreFailed string
  | InvalidKey string

datatype PeerState = Discovered | Active | Suspect | Dead

record PeerScore =
  avg_latency_ms :: real
  successes :: u64
  failures :: u64
  bytes_relayed :: u64
  uptime :: time
  first_seen :: time
  latency_sum_ms :: real

definition PeerScore_new :: "time \<Rightarrow> PeerScore" where
  "PeerScore_new now = \<lparr>avg_latency_ms = 0, successes = 0, failures = 0, bytes_relayed = 0,
     uptime = 0, first_seen = now, latency_sum_ms = 0\<rparr>"

definition record_success :: "time \<Rightarrow> time \<Rightarrow> PeerScore \<Rightarrow> PeerScore" where
  "record_success now latency s =
     (let s = s\<lparr>successes := successes s + 1\<rparr>;
          latency_ms = real latency / real NANOS * 1000;
          s = s\<lparr>latency_sum_ms := latency_sum_ms s + latency_ms\<rparr>;
          s = s\<lparr>avg_latency_ms := latency_sum_ms s / real (unat (successes s))\<rparr>
      in s\<lparr>uptime := now - first_seen s\<rparr>)"

definition record_failure :: "time \<Rightarrow> PeerScore \<Rightarrow> PeerScore" where
  "record_failure now s = s\<lparr>failures := failures s + 1, uptime := now - first_seen s\<rparr>"

definition record_relay :: "u64 \<Rightarrow> PeerScore \<Rightarrow> PeerScore" where
  "record_relay bytes s = s\<lparr>bytes_relayed := bytes_relayed s + bytes\<rparr>"

text \<open>\<open>(0 as f64).log2()\<close> is negative infinity, which \<open>max(0.0)\<close> turns into zero.\<close>

definition composite_score :: "PeerScore \<Rightarrow> real" where
  "composite_score s =
     (let reliability = (real (unat (successes s)) * 10) / (real (unat (failures s)) + 1);
          latency_penalty = avg_latency_ms s / 100;
          uptime_bonus = min (real (uptime s div NANOS)) 3600 / 360;
          relay_bonus = (if bytes_relayed s = 0 then 0
                         else max (log 2 (real (unat (bytes_relayed s)))) 0) / 10
      in reliability - latency_penalty + uptime_bonus + relay_bonus)"

definition success_rate :: "PeerScore \<Rightarrow> real" where
  "success_rate s =
     (let total = successes s + failures s in
      if total = 0 then 0 else (real (unat (successes s)) / real (unat total)) * 100)"

record PeerInfo =
  pi_peer_id :: PeerId
  pi_addr :: SocketAddr
  pi_state :: PeerState
  pi_score :: PeerScore
  last_seen :: time
  added_at :: time

definition PeerInfo_new :: "time \<Rightarrow> PeerId \<Rightarrow> SocketAddr \<Rightarrow> PeerInfo" where
  "PeerInfo_new now pid addr = \<lparr>pi_peer_id = pid, pi_addr = addr, pi_state = Discovered,
     pi_score = PeerScore_new now, last_seen = now, added_at = now\<rparr>"

definition PeerInfo_mark_active :: "time \<Rightarrow> time \<Rightarrow> PeerInfo \<Rightarrow> PeerInfo" where
  "PeerInfo_mark_active now latency p =
     p\<lparr>pi_state := Active, last_seen := now, pi_score := record_success now latency (pi_score p)\<rparr>"

definition PeerInfo_mark_suspect :: "time \<Rightarrow> PeerInfo \<Rightarrow> PeerInfo" where
  "PeerInfo_mark_suspect now p = p\<lparr>pi_state := Suspect, pi_score := record_failure now (pi_score p)\<rparr>"

definition PeerInfo_mark_dead :: "PeerInfo \<Rightarrow> PeerInfo" where
  "PeerInfo_mark_dead p = p\<lparr>pi_state := Dead\<rparr>"

definition touch :: "time \<Rightarrow> PeerInfo \<Rightarrow> PeerInfo" where
  "touch now p = p\<lparr>last_seen := now\<rparr>"

definition idle_time :: "time \<Rightarrow> PeerInfo \<Rightarrow> time" where
  "idle_time now p = now - last_seen p"

definition is_usable :: "PeerInfo \<Rightarrow> bool" where
  "is_usable p \<longleftrightarrow> pi_state p = Discovered \<or> pi_state p = Active"

subsection \<open>The score\<close>

lemma unsigned_real_nonneg [simp]: "(0 :: real) \<le> unsigned (w :: 'a::len word)"
  by (metis of_nat_0_le_iff of_nat_unat)

lemma PeerInfo_ids [simp]:
  "pi_peer_id (PeerInfo_new now pid addr) = pid"
  "pi_addr (PeerInfo_new now pid addr) = addr"
  "pi_peer_id (PeerInfo_mark_active now l p) = pi_peer_id p"
  "pi_peer_id (PeerInfo_mark_suspect now p) = pi_peer_id p"
  "pi_peer_id (touch now p) = pi_peer_id p"
  "pi_addr (PeerInfo_mark_active now l p) = pi_addr p"
  "pi_addr (PeerInfo_mark_suspect now p) = pi_addr p"
  "pi_addr (touch now p) = pi_addr p"
  by (simp_all add: PeerInfo_new_def PeerInfo_mark_active_def PeerInfo_mark_suspect_def touch_def)

text \<open>Any number of successes recorded one after the other.\<close>

fun record_latencies :: "time \<Rightarrow> time list \<Rightarrow> PeerScore \<Rightarrow> PeerScore" where
  "record_latencies now [] s = s"
| "record_latencies now (l # ls) s = record_latencies now ls (record_success now l s)"

lemma record_success_simps [simp]:
  "latency_sum_ms (record_success now l s) = latency_sum_ms s + real l / 1000000"
  "successes (record_success now l s) = successes s + 1"
  "failures (record_success now l s) = failures s"
  "avg_latency_ms (record_success now l s) =
     (latency_sum_ms s + real l / 1000000) / real (unat (successes s + 1))"
  by (simp_all add: record_success_def Let_def NANOS_def)

lemma record_latencies_sum:
  "latency_sum_ms (record_latencies now ls s) = latency_sum_ms s + sum_list (map real ls) / 1000000"
  by (induction ls arbitrary: s) (simp_all add: add_divide_distrib)

lemma record_latencies_successes:
  "successes (record_latencies now ls s) = successes s + of_nat (length ls)"
  by (induction ls arbitrary: s) simp_all

lemma record_latencies_snoc:
  "record_latencies now (ls @ [l]) s = record_success now l (record_latencies now ls s)"
  by (induction ls arbitrary: s) simp_all

lemma record_latencies_avg:
  assumes "ls \<noteq> []"
  shows "avg_latency_ms (record_latencies now ls s) =
     latency_sum_ms (record_latencies now ls s) / real (unat (successes (record_latencies now ls s)))"
  using assms by (cases ls rule: rev_cases) (simp_all add: record_latencies_snoc)

lemma failure_lowers_score:
  assumes "uptime s = now - first_seen s" "unat (failures s) < 2 ^ 64 - 1"
  shows "composite_score (record_failure now s) \<le> composite_score s"
proof -
  have "unat (failures s + 1) = unat (failures s) + 1" using assms(2) by (simp add: unat_word_ariths)
  moreover have "real m * 10 / (real (n + 1) + 1) \<le> real m * 10 / (real n + 1)" for m n :: nat
    by (intro divide_left_mono) auto
  from this [of "unat (successes s)" "unat (failures s)"]
  have "real (unat (successes s)) * 10 / (real (unat (failures s) + 1) + 1) \<le>
      real (unat (successes s)) * 10 / (real (unat (failures s)) + 1)" .
  ultimately show ?thesis
    using assms(1) unfolding composite_score_def record_failure_def Let_def by simp
qed

end
