(* ===== verification/Routing.thy ===== *)
theory Routing
  imports Peer_Info
begin

text \<open>
  \<open>ceky-dht/src/routing.rs\<close>: k-buckets and the Kademlia routing table.  Methods that change the table
  return it; \<open>get_mut\<close> followed by an update is an update of one peer.  The locale \<open>peer_table\<close> is what
  the rest of the node relies on: which peers a sequence of insertions and removals leaves in a table.
\<close>

subsection \<open>Buckets\<close>

definition K :: nat where "K = 20"

definition NUM_BUCKETS :: nat where "NUM_BUCKETS = 256"

definition ALPHA :: nat where "ALPHA = 3"

text \<open>\<open>f64::MAX\<close>.\<close>

definition F64_MAX :: real where "F64_MAX = (2 - 1 / 2 ^ 52) * 2 ^ 1023"

datatype InsertOutcome = NewPeer | Updated | Evicted

record KBucket =
  peers :: "PeerInfo list"
  last_refresh :: time

definition KBucket_new :: "time \<Rightarrow> KBucket" where
  "KBucket_new now = \<lparr>peers = [], last_refresh = now\<rparr>"

definition is_full :: "KBucket \<Rightarrow> bool" where
  "is_full b \<longleftrightarrow> length (peers b) \<ge> K"

definition KBucket_is_empty :: "KBucket \<Rightarrow> bool" where
  "KBucket_is_empty b \<longleftrightarrow> peers b = []"

fun position :: "('a \<Rightarrow> bool) \<Rightarrow> 'a list \<Rightarrow> nat option" where
  "position P [] = None"
| "position P (x # xs) = (if P x then Some 0 else map_option Suc (position P xs))"

definition KBucket_find :: "KBucket \<Rightarrow> PeerId \<Rightarrow> nat option" where
  "KBucket_find b pid = position (\<lambda>p. pi_peer_id p = pid) (peers b)"

definition KBucket_get :: "KBucket \<Rightarrow> PeerId \<Rightarrow> PeerInfo option" where
  "KBucket_get b pid = find (\<lambda>p. pi_peer_id p = pid) (peers b)"

text \<open>Applying an update through \<open>get_mut\<close>, which finds the first peer with the id.\<close>

fun update_first :: "('a \<Rightarrow> bool) \<Rightarrow> ('a \<Rightarrow> 'a) \<Rightarrow> 'a list \<Rightarrow> 'a list" where
  "update_first P f [] = []"
| "update_first P f (x # xs) = (if P x then f x # xs else x # update_first P f xs)"

definition KBucket_get_mut :: "PeerId \<Rightarrow> (PeerInfo \<Rightarrow> PeerInfo) \<Rightarrow> KBucket \<Rightarrow> KBucket" where
  "KBucket_get_mut pid f b = b\<lparr>peers := update_first (\<lambda>p. pi_peer_id p = pid) f (peers b)\<rparr>"

definition remove_at :: "nat \<Rightarrow> 'a list \<Rightarrow> 'a list" where
  "remove_at i xs = take i xs @ drop (Suc i) xs"

fun eviction_scan :: "nat \<Rightarrow> nat option \<Rightarrow> real \<Rightarrow> PeerInfo list \<Rightarrow> nat option" where
  "eviction_scan i best_idx best_score [] = best_idx"
| "eviction_scan i best_idx best_score (p # ps) =
     (if pi_state p = Dead \<or> pi_state p = Suspect then
        let score = composite_score (pi_score p) in
        if score < best_score then eviction_scan (i + 1) (Some i) score ps
        else eviction_scan (i + 1) best_idx best_score ps
      else eviction_scan (i + 1) best_idx best_score ps)"

definition find_eviction_candidate :: "KBucket \<Rightarrow> nat option" where
  "find_eviction_candidate b = eviction_scan 0 None F64_MAX (peers b)"

definition insert_or_update :: "time \<Rightarrow> PeerInfo \<Rightarrow> KBucket \<Rightarrow> InsertOutcome option \<times> KBucket" where
  "insert_or_update now peer b =
     (case KBucket_find b (pi_peer_id peer) of
        Some idx \<Rightarrow>
          let ps = (peers b)[idx := (peers b ! idx)\<lparr>pi_addr := pi_addr peer\<rparr>];
              ps = ps[idx := touch now (ps ! idx)];
              p = ps ! idx
          in (Some Updated, b\<lparr>peers := remove_at idx ps @ [p]\<rparr>)
      | None \<Rightarrow>
          if \<not> is_full b then (Some NewPeer, b\<lparr>peers := peers b @ [peer]\<rparr>)
          else case find_eviction_candidate b of
            Some evict_idx \<Rightarrow> (Some Evicted, b\<lparr>peers := remove_at evict_idx (peers b) @ [peer]\<rparr>)
          | None \<Rightarrow> (None, b))"

definition KBucket_remove :: "PeerId \<Rightarrow> KBucket \<Rightarrow> PeerInfo option \<times> KBucket" where
  "KBucket_remove pid b =
     (case KBucket_find b pid of
        Some idx \<Rightarrow> (Some (peers b ! idx), b\<lparr>peers := remove_at idx (peers b)\<rparr>)
      | None \<Rightarrow> (None, b))"

definition closest_peers :: "KBucket \<Rightarrow> PeerInfo list" where
  "closest_peers b = sort_key (\<lambda>p. - composite_score (pi_score p)) (filter is_usable (peers b))"

definition mark_refreshed :: "time \<Rightarrow> KBucket \<Rightarrow> KBucket" where
  "mark_refreshed now b = b\<lparr>last_refresh := now\<rparr>"

definition time_since_refresh :: "time \<Rightarrow> KBucket \<Rightarrow> time" where
  "time_since_refresh now b = now - last_refresh b"

subsection \<open>The table\<close>

record RoutingTable =
  local_id :: PeerId
  buckets :: "KBucket list"
  total_peers :: nat

definition RoutingTable_new :: "time \<Rightarrow> PeerId \<Rightarrow> RoutingTable" where
  "RoutingTable_new now lid =
     \<lparr>local_id = lid, buckets = replicate NUM_BUCKETS (KBucket_new now), total_peers = 0\<rparr>"

definition RoutingTable_bucket_index :: "RoutingTable \<Rightarrow> PeerId \<Rightarrow> nat option" where
  "RoutingTable_bucket_index t pid = bucket_index (local_id t) pid"

definition insert_peer :: "time \<Rightarrow> PeerId \<Rightarrow> SocketAddr \<Rightarrow> RoutingTable \<Rightarrow>
    (DhtFault, bool) res \<times> RoutingTable" where
  "insert_peer now pid addr t =
     (if pid = local_id t then (Inr False, t) else
      case RoutingTable_bucket_index t pid of
        None \<Rightarrow> (Inl (Err (InvalidKey ''same as local ID'')), t)
      | Some i \<Rightarrow>
          if i \<ge> length (buckets t) then (Inl Panic, t) else
          case insert_or_update now (PeerInfo_new now pid addr) (buckets t ! i) of
            (Some NewPeer, b) \<Rightarrow>
              (Inr True, t\<lparr>buckets := (buckets t)[i := b], total_peers := total_peers t + 1\<rparr>)
          | (Some Evicted, b) \<Rightarrow> (Inr True, t\<lparr>buckets := (buckets t)[i := b]\<rparr>)
          | (Some Updated, b) \<Rightarrow> (Inr False, t\<lparr>buckets := (buckets t)[i := b]\<rparr>)
          | (None, b) \<Rightarrow> (Inl (Err (BucketFull i)), t\<lparr>buckets := (buckets t)[i := b]\<rparr>))"

definition remove_peer :: "PeerId \<Rightarrow> RoutingTable \<Rightarrow> PeerInfo option \<times> RoutingTable" where
  "remove_peer pid t =
     (case RoutingTable_bucket_index t pid of
        Some i \<Rightarrow>
          (case KBucket_remove pid (buckets t ! i) of
             (Some p, b) \<Rightarrow> (Some p, t\<lparr>buckets := (buckets t)[i := b], total_peers := total_peers t - 1\<rparr>)
           | (None, b) \<Rightarrow> (None, t\<lparr>buckets := (buckets t)[i := b]\<rparr>))
      | None \<Rightarrow> (None, t))"

definition get_peer :: "PeerId \<Rightarrow> RoutingTable \<Rightarrow> PeerInfo option" where
  "get_peer pid t =
     (case RoutingTable_bucket_index t pid of
        Some i \<Rightarrow> KBucket_get (buckets t ! i) pid
      | None \<Rightarrow> None)"

definition update_peer :: "PeerId \<Rightarrow> (PeerInfo \<Rightarrow> PeerInfo) \<Rightarrow> RoutingTable \<Rightarrow> RoutingTable" where
  "update_peer pid f t =
     (case RoutingTable_bucket_index t pid of
        Some i \<Rightarrow> t\<lparr>buckets := (buckets t)[i := KBucket_get_mut pid f (buckets t ! i)]\<rparr>
      | None \<Rightarrow> t)"

definition find_closest :: "PeerId \<Rightarrow> nat \<Rightarrow> RoutingTable \<Rightarrow> PeerInfo list" where
  "find_closest tgt count t =
     (let all = concat (map (\<lambda>b. map (\<lambda>p. (p, xor_distance (pi_peer_id p) tgt))
                  (filter is_usable (peers b))) (buckets t))
      in map fst (take count (sort_key snd all)))"

definition all_peers :: "RoutingTable \<Rightarrow> PeerInfo list" where
  "all_peers t = concat (map peers (buckets t))"

definition active_peers :: "RoutingTable \<Rightarrow> PeerInfo list" where
  "active_peers t = filter is_usable (concat (map peers (buckets t)))"

definition stale_buckets :: "time \<Rightarrow> time \<Rightarrow> RoutingTable \<Rightarrow> nat list" where
  "stale_buckets now max_age t =
     map fst (filter (\<lambda>(i, b). \<not> KBucket_is_empty b \<and> time_since_refresh now b > max_age)
       (enumerate 0 (buckets t)))"

definition mark_active :: "time \<Rightarrow> PeerId \<Rightarrow> time \<Rightarrow> RoutingTable \<Rightarrow> RoutingTable" where
  "mark_active now pid latency t = update_peer pid (PeerInfo_mark_active now latency) t"

definition mark_suspect :: "time \<Rightarrow> PeerId \<Rightarrow> RoutingTable \<Rightarrow> RoutingTable" where
  "mark_suspect now pid t = update_peer pid (PeerInfo_mark_suspect now) t"

fun evict_loop :: "KBucket list \<Rightarrow> nat \<Rightarrow> nat \<Rightarrow> KBucket list \<times> nat \<times> nat" where
  "evict_loop [] evicted tot = ([], evicted, tot)"
| "evict_loop (b # bs) evicted tot =
     (let before = length (peers b);
          b = b\<lparr>peers := filter (\<lambda>p. pi_state p \<noteq> Dead) (peers b)\<rparr>;
          removed = before - length (peers b)
      in case evict_loop bs (evicted + removed) (tot - removed) of
        (bs', evicted', tot') \<Rightarrow> (b # bs', evicted', tot'))"

definition evict_dead :: "RoutingTable \<Rightarrow> nat \<times> RoutingTable" where
  "evict_dead t =
     (case evict_loop (buckets t) 0 (total_peers t) of
        (bs, evicted, tot) \<Rightarrow> (evicted, t\<lparr>buckets := bs, total_peers := tot\<rparr>))"

record RoutingStats =
  st_total_peers :: nat
  non_empty_buckets :: nat
  st_active :: nat
  st_suspect :: nat
  st_discovered :: nat

definition stats :: "RoutingTable \<Rightarrow> RoutingStats" where
  "stats t =
     \<lparr>st_total_peers = total_peers t,
      non_empty_buckets = length (filter (\<lambda>b. \<not> KBucket_is_empty b) (buckets t)),
      st_active = sum_list (map (\<lambda>b. length (filter (\<lambda>p. pi_state p = Active) (peers b))) (buckets t)),
      st_suspect = sum_list (map (\<lambda>b. length (filter (\<lambda>p. pi_state p = Suspect) (peers b))) (buckets t)),
      st_discovered =
        sum_list (map (\<lambda>b. length (filter (\<lambda>p. pi_state p = Discovered) (peers b))) (buckets t))\<rparr>"

definition RoutingStats_fmt :: "RoutingStats \<Rightarrow> string" where
  "RoutingStats_fmt s = ''RT['' @ show_nat (st_total_peers s) @ '' peers in '' @ show_nat (non_empty_buckets s) @ '' buckets: '' @
     show_nat (st_active s) @ '' active, '' @ show_nat (st_suspect s) @ '' suspect, '' @ show_nat (st_discovered s) @ '' discovered]''"

subsection \<open>Lists\<close>

lemma position_Some: "position P xs = Some i \<Longrightarrow> i < length xs \<and> P (xs ! i)"
  by (induction xs arbitrary: i) (auto split: if_splits)

lemma position_None: "position P xs = None \<longleftrightarrow> (\<forall>x \<in> set xs. \<not> P x)"
  by (induction xs) auto

lemma remove_at_split:
  assumes "i < length xs"
  obtains ys zs where "xs = ys @ xs ! i # zs" "remove_at i xs = ys @ zs" "length ys = i"
  using assms id_take_nth_drop [OF assms] that [of "take i xs" "drop (Suc i) xs"]
  by (simp add: remove_at_def)

lemma map_remove_at: "map f (remove_at i xs) = remove_at i (map f xs)"
  by (simp add: remove_at_def take_map drop_map)

lemma set_remove_at: "set (remove_at i xs) \<subseteq> set xs"
  by (auto simp: remove_at_def dest: in_set_takeD in_set_dropD)

lemma length_remove_at: "i < length xs \<Longrightarrow> length (remove_at i xs) = length xs - 1"
  by (simp add: remove_at_def)

lemma distinct_remove_at:
  assumes "i < length xs" "distinct xs"
  shows "distinct (remove_at i xs)" "set (remove_at i xs) = set xs - {xs ! i}"
proof -
  obtain ys zs where s: "xs = ys @ xs ! i # zs" "remove_at i xs = ys @ zs"
    using remove_at_split [OF assms(1)] by metis
  have "distinct (ys @ xs ! i # zs)" using assms(2) s(1) by simp
  then show "distinct (remove_at i xs)" using s(2) by simp
  have "set xs = set (ys @ xs ! i # zs)" using s(1) by simp
  then show "set (remove_at i xs) = set xs - {xs ! i}"
    using s(2) \<open>distinct (ys @ xs ! i # zs)\<close> by auto
qed

lemma length_update_first [simp]: "length (update_first P f xs) = length xs"
  by (induction xs) auto

lemma map_update_first: "(\<And>x. g (f x) = g x) \<Longrightarrow> map g (update_first P f xs) = map g xs"
  by (induction xs) auto

lemma set_update_first: "y \<in> set (update_first P f xs) \<Longrightarrow> y \<in> set xs \<or> (\<exists>x \<in> set xs. P x \<and> y = f x)"
  by (induction xs) (auto split: if_splits)

lemma find_update_first:
  "(\<And>x. P x \<Longrightarrow> P (f x)) \<Longrightarrow> find P (update_first P f xs) = map_option f (find P xs)"
  by (induction xs) auto

lemma find_update_first_other:
  "(\<And>x. P x \<Longrightarrow> \<not> Q x \<and> \<not> Q (f x)) \<Longrightarrow> find Q (update_first P f xs) = find Q xs"
  by (induction xs) auto

lemma find_key_Some:
  "distinct (map g xs) \<Longrightarrow> find (\<lambda>x. g x = k) xs = Some y \<longleftrightarrow> y \<in> set xs \<and> g y = k"
  by (induction xs) force+

lemma find_key_None: "find (\<lambda>x. g x = k) xs = None \<longleftrightarrow> k \<notin> g ` set xs"
  by (induction xs) auto

lemma distinct_key_eq: "distinct (map g xs) \<Longrightarrow> x \<in> set xs \<Longrightarrow> y \<in> set xs \<Longrightarrow> g x = g y \<Longrightarrow> x = y"
  by (auto simp: distinct_map dest: inj_onD)

subsection \<open>Eviction\<close>

definition bad_peer :: "PeerInfo \<Rightarrow> bool" where
  "bad_peer p \<longleftrightarrow> pi_state p = Dead \<or> pi_state p = Suspect"

abbreviation (input) peer_score :: "PeerInfo \<Rightarrow> real" where
  "peer_score p \<equiv> composite_score (pi_score p)"

lemma eviction_scan_spec:
  "(\<exists>j < length ps. eviction_scan i bi bs ps = Some (i + j) \<and> bad_peer (ps ! j) \<and> peer_score (ps ! j) < bs \<and>
      (\<forall>q \<in> set ps. bad_peer q \<longrightarrow> peer_score (ps ! j) \<le> peer_score q)) \<or>
   (eviction_scan i bi bs ps = bi \<and> (\<forall>q \<in> set ps. bad_peer q \<longrightarrow> bs \<le> peer_score q))"
proof (induction ps arbitrary: i bi bs)
  case (Cons p ps)
  show ?case
  proof (cases "bad_peer p \<and> peer_score p < bs")
    case True
    then have eq: "eviction_scan i bi bs (p # ps) = eviction_scan (i + 1) (Some i) (peer_score p) ps"
      by (auto simp: bad_peer_def)
    from Cons.IH [of "i + 1" "Some i" "peer_score p"] show ?thesis
    proof
      assume "\<exists>j < length ps. eviction_scan (i + 1) (Some i) (peer_score p) ps = Some (i + 1 + j) \<and>
        bad_peer (ps ! j) \<and> peer_score (ps ! j) < peer_score p \<and>
        (\<forall>q \<in> set ps. bad_peer q \<longrightarrow> peer_score (ps ! j) \<le> peer_score q)"
      then obtain j where "j < length ps" "eviction_scan (i + 1) (Some i) (peer_score p) ps = Some (i + 1 + j)"
        "bad_peer (ps ! j)" "peer_score (ps ! j) < peer_score p"
        "\<forall>q \<in> set ps. bad_peer q \<longrightarrow> peer_score (ps ! j) \<le> peer_score q" by blast
      then show ?thesis using True unfolding eq by (intro disjI1 exI [of _ "Suc j"]) auto
    next
      assume "eviction_scan (i + 1) (Some i) (peer_score p) ps = Some i \<and>
        (\<forall>q \<in> set ps. bad_peer q \<longrightarrow> peer_score p \<le> peer_score q)"
      then show ?thesis using True unfolding eq by (intro disjI1 exI [of _ 0]) auto
    qed
  next
    case False
    then have eq: "eviction_scan i bi bs (p # ps) = eviction_scan (i + 1) bi bs ps"
      by (auto simp: bad_peer_def Let_def)
    from Cons.IH [of "i + 1" bi bs] show ?thesis
    proof
      assume "\<exists>j < length ps. eviction_scan (i + 1) bi bs ps = Some (i + 1 + j) \<and> bad_peer (ps ! j) \<and>
        peer_score (ps ! j) < bs \<and> (\<forall>q \<in> set ps. bad_peer q \<longrightarrow> peer_score (ps ! j) \<le> peer_score q)"
      then obtain j where "j < length ps" "eviction_scan (i + 1) bi bs ps = Some (i + 1 + j)"
        "bad_peer (ps ! j)" "peer_score (ps ! j) < bs"
        "\<forall>q \<in> set ps. bad_peer q \<longrightarrow> peer_score (ps ! j) \<le> peer_score q" by blast
      then show ?thesis using False unfolding eq by (intro disjI1 exI [of _ "Suc j"]) force
    next
      assume "eviction_scan (i + 1) bi bs ps = bi \<and> (\<forall>q \<in> set ps. bad_peer q \<longrightarrow> bs \<le> peer_score q)"
      then show ?thesis using False unfolding eq by force
    qed
  qed
qed simp

text \<open>Scores never reach \<open>f64::MAX\<close>, so a bad peer is always a candidate.\<close>

definition score_nonneg :: "PeerScore \<Rightarrow> bool" where
  "score_nonneg s \<longleftrightarrow> 0 \<le> latency_sum_ms s \<and> 0 \<le> avg_latency_ms s"

lemma composite_score_bound:
  assumes "score_nonneg s"
  shows "composite_score s < F64_MAX"
proof -
  have u: "real (unat w) \<le> 2 ^ 64" for w :: u64
  proof -
    have "unat w \<le> 2 ^ 64" using unsigned_less [of w, where 'a = nat] by simp
    then have "real (unat w) \<le> real (2 ^ 64)" by (rule of_nat_mono)
    then show ?thesis by (simp only: of_nat_power of_nat_numeral)
  qed
  have "real m * 10 / (real n + 1) \<le> real m * 10 / 1" for m n :: nat
    by (rule divide_left_mono) auto
  from this [of "unat (successes s)" "unat (failures s)"] have r: "real (unat (successes s)) * 10 / (real (unat (failures s)) + 1) \<le> 2 ^ 64 * 10"
    using u [of "successes s"] by linarith
  have "log 2 (real (unat (bytes_relayed s))) \<le> log 2 (2 ^ 64)" if "bytes_relayed s \<noteq> 0"
  proof -
    have "0 < unat (bytes_relayed s)" using that by (simp add: unat_gt_0)
    then have "0 < real (unat (bytes_relayed s))" by (simp only: of_nat_0_less_iff)
    then show ?thesis using u [of "bytes_relayed s"] by (intro log_mono) simp_all
  qed
  moreover have "log 2 (2 ^ 64) = 64" by (subst log_nat_power) simp_all
  ultimately have l: "(if bytes_relayed s = 0 then 0 else max (log 2 (real (unat (bytes_relayed s)))) 0) \<le> 64"
    by (auto simp only: if_True if_False max.bounded_iff split: if_split)
  have "composite_score s \<le> 2 ^ 64 * 10 + 10 + 64 / 10"
    using r l assms unfolding composite_score_def Let_def score_nonneg_def by linarith
  also have "\<dots> < (2 :: real) ^ 68" by simp
  also have "\<dots> \<le> 1 * 2 ^ 1023" unfolding mult_1 by (rule power_increasing) simp_all
  also have "\<dots> \<le> F64_MAX" unfolding F64_MAX_def by (rule mult_right_mono) (simp_all only: zero_le_power zero_le_numeral, simp)
  finally show ?thesis .
qed

subsection \<open>The invariant of buckets\<close>

definition peer_in_bucket :: "PeerId \<Rightarrow> nat \<Rightarrow> PeerInfo \<Rightarrow> bool" where
  "peer_in_bucket lid i p \<longleftrightarrow> pid_ok (pi_peer_id p) \<and> bucket_index lid (pi_peer_id p) = Some i \<and>
     score_nonneg (pi_score p)"

definition bucket_ok :: "PeerId \<Rightarrow> nat \<Rightarrow> KBucket \<Rightarrow> bool" where
  "bucket_ok lid i b \<longleftrightarrow> length (peers b) \<le> K \<and> distinct (map pi_peer_id (peers b)) \<and>
     (\<forall>p \<in> set (peers b). peer_in_bucket lid i p)"

lemma score_nonneg_intros [simp, intro]:
  "score_nonneg (PeerScore_new now)"
  "score_nonneg s \<Longrightarrow> score_nonneg (record_failure now s)"
  "score_nonneg s \<Longrightarrow> score_nonneg (record_success now l s)"
  by (simp_all add: score_nonneg_def PeerScore_new_def record_failure_def)

lemma peer_in_bucket_intros:
  "pid_ok pid \<Longrightarrow> bucket_index lid pid = Some i \<Longrightarrow> peer_in_bucket lid i (PeerInfo_new now pid addr)"
  "peer_in_bucket lid i p \<Longrightarrow> peer_in_bucket lid i (PeerInfo_mark_active now l p)"
  "peer_in_bucket lid i p \<Longrightarrow> peer_in_bucket lid i (PeerInfo_mark_suspect now p)"
  "peer_in_bucket lid i p \<Longrightarrow> peer_in_bucket lid i (touch now (p\<lparr>pi_addr := a\<rparr>))"
  by (auto simp: peer_in_bucket_def PeerInfo_new_def PeerInfo_mark_active_def PeerInfo_mark_suspect_def
      touch_def)

lemma insert_update_case:
  assumes "KBucket_find b pid = Some idx" and "pi_peer_id peer = pid"
  shows "insert_or_update now peer b = (Some Updated, b\<lparr>peers := remove_at idx (peers b) @
       [touch now ((peers b ! idx)\<lparr>pi_addr := pi_addr peer\<rparr>)]\<rparr>)"
    and "idx < length (peers b)" and "pi_peer_id (peers b ! idx) = pid"
proof -
  show idx: "idx < length (peers b)" "pi_peer_id (peers b ! idx) = pid"
    using position_Some assms(1) unfolding KBucket_find_def by blast+
  then show "insert_or_update now peer b = (Some Updated, b\<lparr>peers := remove_at idx (peers b) @
       [touch now ((peers b ! idx)\<lparr>pi_addr := pi_addr peer\<rparr>)]\<rparr>)"
    using assms by (simp add: insert_or_update_def Let_def remove_at_def)
qed

lemma find_eviction_candidate_Some:
  assumes "find_eviction_candidate b = Some j"
  shows "j < length (peers b) \<and> bad_peer (peers b ! j) \<and>
     (\<forall>q \<in> set (peers b). bad_peer q \<longrightarrow> peer_score (peers b ! j) \<le> peer_score q)"
  using assms eviction_scan_spec [of "peers b" 0 None F64_MAX] unfolding find_eviction_candidate_def by auto

lemma find_eviction_candidate_None:
  assumes "find_eviction_candidate b = None" "bucket_ok lid i b"
  shows "\<forall>q \<in> set (peers b). \<not> bad_peer q"
  using assms eviction_scan_spec [of "peers b" 0 None F64_MAX] composite_score_bound
  unfolding find_eviction_candidate_def bucket_ok_def peer_in_bucket_def by force

lemma insert_or_update_ok:
  assumes ok: "bucket_ok lid i b" and peer: "peer_in_bucket lid i peer"
    and res: "insert_or_update now peer b = (r, b')"
  shows "bucket_ok lid i b'"
    "length (peers b') = length (peers b) + (if r = Some NewPeer then 1 else 0)"
proof -
  have "bucket_ok lid i b' \<and> length (peers b') = length (peers b) + (if r = Some NewPeer then 1 else 0)"
  proof (cases "KBucket_find b (pi_peer_id peer)")
    case (Some idx)
    note upd = insert_update_case(1) [OF Some refl, of now] insert_update_case(2,3) [OF Some refl]
    let ?q = "touch now ((peers b ! idx)\<lparr>pi_addr := pi_addr peer\<rparr>)"
    have "distinct (remove_at idx (map pi_peer_id (peers b)))"
      "pi_peer_id ?q \<notin> set (remove_at idx (map pi_peer_id (peers b)))"
      using ok upd(2) distinct_remove_at [of idx "map pi_peer_id (peers b)"] by (auto simp: bucket_ok_def touch_def)
    moreover have "peer_in_bucket lid i ?q" "length (remove_at idx (peers b)) = length (peers b) - 1"
      using ok upd(2) by (auto simp: bucket_ok_def length_remove_at intro!: peer_in_bucket_intros)
    ultimately show ?thesis
      using ok res upd set_remove_at [of idx "peers b"]
      by (auto simp: bucket_ok_def map_remove_at simp flip: set_map)
  next
    case None
    then have new: "pi_peer_id peer \<notin> set (map pi_peer_id (peers b))"
      by (auto simp: KBucket_find_def position_None)
    show ?thesis
    proof (cases "find_eviction_candidate b")
      case (Some j)
      note j = find_eviction_candidate_Some [OF Some]
      have "distinct (remove_at j (map pi_peer_id (peers b)))"
        "pi_peer_id peer \<notin> set (remove_at j (map pi_peer_id (peers b)))"
        using ok j new distinct_remove_at [of j "map pi_peer_id (peers b)"] by (auto simp: bucket_ok_def)
      then show ?thesis
        using ok res peer None Some j new set_remove_at [of j "peers b"]
        by (auto simp: insert_or_update_def bucket_ok_def is_full_def map_remove_at length_remove_at K_def
            simp flip: set_map split: if_splits)
    next
      case none: None
      then show ?thesis
        using ok res peer None new by (auto simp: insert_or_update_def bucket_ok_def is_full_def split: if_splits)
    qed
  qed
  then show "bucket_ok lid i b'"
    "length (peers b') = length (peers b) + (if r = Some NewPeer then 1 else 0)" by blast+
qed

lemma insert_or_update_full:
  assumes "bucket_ok lid i b" and "insert_or_update now peer b = (None, b')"
  shows "b' = b \<and> length (peers b) = K \<and> (\<forall>q \<in> set (peers b). is_usable q) \<and>
     pi_peer_id peer \<notin> pi_peer_id ` set (peers b)"
proof -
  from assms(2) have n: "KBucket_find b (pi_peer_id peer) = None" "is_full b"
    "find_eviction_candidate b = None" "b' = b"
    by (auto simp: insert_or_update_def Let_def split: option.splits if_splits)
  then have "\<forall>q \<in> set (peers b). is_usable q"
    using find_eviction_candidate_None [OF n(3) assms(1)]
    by (auto simp: bad_peer_def is_usable_def intro: PeerState.exhaust)
  then show ?thesis
    using n assms(1) by (auto simp: is_full_def bucket_ok_def KBucket_find_def position_None)
qed

subsection \<open>The invariant of the table\<close>

definition rt_inv :: "RoutingTable \<Rightarrow> bool" where
  "rt_inv t \<longleftrightarrow> pid_ok (local_id t) \<and> length (buckets t) = NUM_BUCKETS \<and>
     (\<forall>i < NUM_BUCKETS. bucket_ok (local_id t) i (buckets t ! i)) \<and>
     total_peers t = sum_list (map (\<lambda>b. length (peers b)) (buckets t))"

lemma rt_index:
  assumes "rt_inv t" "RoutingTable_bucket_index t pid = Some i"
  shows "i < NUM_BUCKETS" "i < length (buckets t)" "bucket_ok (local_id t) i (buckets t ! i)"
  using assms bucket_index_less [of "local_id t" pid i]
  by (auto simp: rt_inv_def RoutingTable_bucket_index_def NUM_BUCKETS_def)

lemma rt_inv_update_bucket:
  assumes inv: "rt_inv t" and i: "i < NUM_BUCKETS" and b: "bucket_ok (local_id t) i b"
    and tot: "n + length (peers (buckets t ! i)) = total_peers t + length (peers b)"
  shows "rt_inv (t\<lparr>buckets := (buckets t)[i := b], total_peers := n\<rparr>)"
proof -
  let ?ls = "map (\<lambda>b. length (peers b)) (buckets t)"
  have len: "i < length ?ls" using inv i by (simp add: rt_inv_def)
  have "sum_list (?ls[i := length (peers b)]) = sum_list ?ls + length (peers b) - ?ls ! i"
    using len by (rule sum_list_update)
  moreover have "?ls ! i \<le> sum_list ?ls" using len by (rule elem_le_sum_list)
  ultimately have "sum_list (?ls[i := length (peers b)]) = n"
    using inv tot len by (simp add: rt_inv_def)
  then show ?thesis
    using inv i b by (auto simp: rt_inv_def map_update nth_list_update)
qed

lemma rt_inv_new: "pid_ok lid \<Longrightarrow> rt_inv (RoutingTable_new now lid)"
  by (simp add: rt_inv_def RoutingTable_new_def KBucket_new_def bucket_ok_def sum_list_replicate)

lemma insert_peer_cases:
  assumes inv: "rt_inv t" and pid: "pid_ok pid"
  obtains (self) "pid = local_id t" "insert_peer now pid addr t = (Inr False, t)"
  | (full) i where "RoutingTable_bucket_index t pid = Some i"
      "insert_peer now pid addr t = (Inl (Err (BucketFull i)), t)"
      "insert_or_update now (PeerInfo_new now pid addr) (buckets t ! i) = (None, buckets t ! i)"
  | (stored) i r b n where "RoutingTable_bucket_index t pid = Some i"
      "insert_or_update now (PeerInfo_new now pid addr) (buckets t ! i) = (Some r, b)"
      "insert_peer now pid addr t =
         (Inr (r \<noteq> Updated), t\<lparr>buckets := (buckets t)[i := b], total_peers := n\<rparr>)"
      "n = total_peers t + (if r = NewPeer then 1 else 0)"
proof (cases "pid = local_id t")
  case True
  then show ?thesis by (intro self) (simp_all add: insert_peer_def)
next
  case False
  then obtain i where i: "RoutingTable_bucket_index t pid = Some i"
    using inv pid bucket_index_None_iff [of "local_id t" pid]
    by (auto simp: rt_inv_def RoutingTable_bucket_index_def)
  obtain r b where r: "insert_or_update now (PeerInfo_new now pid addr) (buckets t ! i) = (r, b)"
    by (cases "insert_or_update now (PeerInfo_new now pid addr) (buckets t ! i)")
  show ?thesis
  proof (cases r)
    case None
    then have "b = buckets t ! i" using insert_or_update_full rt_index(3) [OF inv i] r by blast
    with None i r False rt_index [OF inv i] show ?thesis by (intro full) (simp_all add: insert_peer_def)
  next
    case (Some x)
    with i r False rt_index [OF inv i] show ?thesis
      by (intro stored) (auto simp: insert_peer_def split: InsertOutcome.splits)
  qed
qed

lemma rt_inv_insert: "rt_inv t \<Longrightarrow> pid_ok pid \<Longrightarrow> rt_inv (snd (insert_peer now pid addr t))"
proof -
  assume inv: "rt_inv t" and pid: "pid_ok pid"
  from inv pid show ?thesis
  proof (cases rule: insert_peer_cases [where now = now and addr = addr])
    case (stored i r b n)
    have p: "peer_in_bucket (local_id t) i (PeerInfo_new now pid addr)"
      using stored(1) pid by (intro peer_in_bucket_intros) (simp_all add: RoutingTable_bucket_index_def)
    have "rt_inv (t\<lparr>buckets := (buckets t)[i := b], total_peers := n\<rparr>)"
      using insert_or_update_ok [OF rt_index(3) [OF inv stored(1)] p stored(2)] stored(4)
      by (intro rt_inv_update_bucket [OF inv rt_index(1) [OF inv stored(1)]]) simp_all
    then show ?thesis using stored(3) by simp
  qed (simp_all add: inv)
qed

lemma KBucket_remove_ok:
  assumes ok: "bucket_ok lid i b" and r: "KBucket_remove pid b = (r, b')"
  shows "bucket_ok lid i b'" "length (peers b) = length (peers b') + (if r = None then 0 else 1)"
    "set (peers b') = {p \<in> set (peers b). pi_peer_id p \<noteq> pid}"
proof -
  have "bucket_ok lid i b' \<and> length (peers b) = length (peers b') + (if r = None then 0 else 1) \<and>
    set (peers b') = {p \<in> set (peers b). pi_peer_id p \<noteq> pid}"
  proof (cases "KBucket_find b pid")
    case (Some idx)
    then have idx: "idx < length (peers b)" "pi_peer_id (peers b ! idx) = pid"
      using position_Some unfolding KBucket_find_def by blast+
    have d: "distinct (peers b)" "distinct (map pi_peer_id (peers b))"
      using ok by (auto simp: bucket_ok_def distinct_map)
    have "set (remove_at idx (peers b)) = {p \<in> set (peers b). pi_peer_id p \<noteq> pid}"
      using distinct_remove_at(2) [OF idx(1) d(1)] idx(2)
        distinct_key_eq [OF d(2) _ nth_mem [OF idx(1)]] by auto
    moreover have "distinct (remove_at idx (map pi_peer_id (peers b)))"
      using d(2) idx by (intro distinct_remove_at) simp_all
    ultimately show ?thesis
      using ok r Some idx(1) by (auto simp: KBucket_remove_def bucket_ok_def map_remove_at length_remove_at)
  next
    case None
    then have "\<forall>p \<in> set (peers b). pi_peer_id p \<noteq> pid" by (simp add: KBucket_find_def position_None)
    then show ?thesis using ok r None by (auto simp: KBucket_remove_def)
  qed
  then show "bucket_ok lid i b'" "length (peers b) = length (peers b') + (if r = None then 0 else 1)"
    "set (peers b') = {p \<in> set (peers b). pi_peer_id p \<noteq> pid}" by blast+
qed

lemma rt_inv_remove:
  assumes inv: "rt_inv t"
  shows "rt_inv (snd (remove_peer pid t))"
proof (cases "RoutingTable_bucket_index t pid")
  case (Some i)
  obtain r b where r: "KBucket_remove pid (buckets t ! i) = (r, b)"
    by (cases "KBucket_remove pid (buckets t ! i)")
  note ok = KBucket_remove_ok(1,2) [OF rt_index(3) [OF inv Some] r] and i = rt_index(1) [OF inv Some]
  have "?thesis" if "r = None"
  proof -
    have "rt_inv (t\<lparr>buckets := (buckets t)[i := b], total_peers := total_peers t\<rparr>)"
      using ok that by (intro rt_inv_update_bucket [OF inv i]) simp_all
    then show ?thesis using Some r that by (simp add: remove_peer_def)
  qed
  moreover have "?thesis" if "r = Some p" for p
  proof -
    have "length (peers (buckets t ! i)) \<le> total_peers t"
      using inv i elem_le_sum_list [of i "map (\<lambda>b. length (peers b)) (buckets t)"]
      by (simp add: rt_inv_def)
    then have "rt_inv (t\<lparr>buckets := (buckets t)[i := b], total_peers := total_peers t - 1\<rparr>)"
      using ok that by (intro rt_inv_update_bucket [OF inv i]) simp_all
    then show ?thesis using Some r that by (simp add: remove_peer_def)
  qed
  ultimately show ?thesis by (cases r) blast+
qed (simp add: remove_peer_def inv)

lemma rt_inv_update_peer:
  assumes inv: "rt_inv t" and ids: "\<And>p. pi_peer_id (f p) = pi_peer_id p"
    and "\<And>lid i p. peer_in_bucket lid i p \<Longrightarrow> peer_in_bucket lid i (f p)"
  shows "rt_inv (update_peer pid f t)"
proof (cases "RoutingTable_bucket_index t pid")
  case (Some i)
  let ?b = "KBucket_get_mut pid f (buckets t ! i)"
  have "bucket_ok (local_id t) i ?b"
    using rt_index(3) [OF inv Some] assms(2,3)
    by (auto simp: bucket_ok_def KBucket_get_mut_def map_update_first dest!: set_update_first)
  then have "rt_inv (t\<lparr>buckets := (buckets t)[i := ?b], total_peers := total_peers t\<rparr>)"
    by (intro rt_inv_update_bucket [OF inv rt_index(1) [OF inv Some]]) (simp_all add: KBucket_get_mut_def)
  then show ?thesis using Some by (simp add: update_peer_def)
qed (simp add: update_peer_def inv)

lemmas rt_inv_marks = rt_inv_update_peer [OF _ PeerInfo_ids(3) peer_in_bucket_intros(2)]
  rt_inv_update_peer [OF _ PeerInfo_ids(4) peer_in_bucket_intros(3)]

definition live :: "KBucket \<Rightarrow> KBucket" where
  "live b = b\<lparr>peers := filter (\<lambda>p. pi_state p \<noteq> Dead) (peers b)\<rparr>"

definition dead_count :: "KBucket \<Rightarrow> nat" where
  "dead_count b = length (filter (\<lambda>p. pi_state p = Dead) (peers b))"

lemma length_live: "length (peers b) = length (peers (live b)) + dead_count b"
  using sum_length_filter_compl [of "\<lambda>p. pi_state p \<noteq> Dead" "peers b"]
  by (simp add: live_def dead_count_def)

lemma evict_loop_eq:
  "evict_loop bs ev (r + sum_list (map (\<lambda>b. length (peers b)) bs)) =
     (map live bs, ev + sum_list (map dead_count bs), r + sum_list (map (\<lambda>b. length (peers (live b))) bs))"
proof (induction bs arbitrary: ev r)
  case (Cons b bs)
  have "length (peers b) - length (peers (live b)) = dead_count b"
    "r + sum_list (map (\<lambda>b. length (peers b)) (b # bs)) - dead_count b =
       (r + length (peers (live b))) + sum_list (map (\<lambda>b. length (peers b)) bs)"
    using length_live [of b] by simp_all
  with Cons.IH [of "ev + dead_count b" "r + length (peers (live b))"] show ?case
    by (simp only: evict_loop.simps Let_def live_def [symmetric] case_prod_conv) simp
qed simp

lemma evict_dead_eq:
  assumes "rt_inv t"
  shows "evict_dead t = (sum_list (map dead_count (buckets t)),
     t\<lparr>buckets := map live (buckets t),
       total_peers := sum_list (map (\<lambda>b. length (peers (live b))) (buckets t))\<rparr>)"
  using assms evict_loop_eq [of "buckets t" 0 0] by (simp add: evict_dead_def rt_inv_def)

lemma bucket_ok_live: "bucket_ok lid i b \<Longrightarrow> bucket_ok lid i (live b)"
  by (auto simp: bucket_ok_def live_def distinct_map_filter intro: le_trans [OF length_filter_le])

lemma rt_inv_evict: "rt_inv t \<Longrightarrow> rt_inv (snd (evict_dead t))"
  by (simp add: evict_dead_eq rt_inv_def comp_def bucket_ok_live)

subsection \<open>Lookups\<close>

lemma set_all_peers:
  "rt_inv t \<Longrightarrow> p \<in> set (all_peers t) \<longleftrightarrow> (\<exists>i < NUM_BUCKETS. p \<in> set (peers (buckets t ! i)))"
  by (auto simp: all_peers_def rt_inv_def) (metis in_set_conv_nth)

lemma all_peers_bucket:
  assumes "rt_inv t" "p \<in> set (all_peers t)"
  shows "\<exists>i. RoutingTable_bucket_index t (pi_peer_id p) = Some i \<and> i < NUM_BUCKETS \<and> p \<in> set (peers (buckets t ! i))"
proof -
  obtain i where i: "i < NUM_BUCKETS" "p \<in> set (peers (buckets t ! i))"
    using assms by (auto simp: set_all_peers)
  then have "peer_in_bucket (local_id t) i p" using assms(1) by (auto simp: rt_inv_def bucket_ok_def)
  then show ?thesis using i by (auto simp: peer_in_bucket_def RoutingTable_bucket_index_def)
qed

lemma get_peer_iff:
  assumes "rt_inv t"
  shows "get_peer pid t = Some p \<longleftrightarrow> p \<in> set (all_peers t) \<and> pi_peer_id p = pid"
proof (cases "RoutingTable_bucket_index t pid")
  case (Some i)
  have "p \<in> set (all_peers t) \<and> pi_peer_id p = pid \<longleftrightarrow> p \<in> set (peers (buckets t ! i)) \<and> pi_peer_id p = pid"
    using Some rt_index(1) [OF assms Some] all_peers_bucket [OF assms, of p] set_all_peers [OF assms, of p]
    by (metis option.inject)
  then show ?thesis
    using Some rt_index(3) [OF assms Some] find_key_Some [of pi_peer_id "peers (buckets t ! i)" pid p]
    by (simp add: get_peer_def KBucket_get_def bucket_ok_def)
next
  case None
  then show ?thesis using all_peers_bucket [OF assms, of p] by (auto simp: get_peer_def)
qed

lemma distinct_all_peers:
  assumes "rt_inv t"
  shows "distinct (map pi_peer_id (all_peers t))"
proof -
  have "distinct (map pi_peer_id (concat (map peers bs)))"
    if "\<forall>j < length bs. distinct (map pi_peer_id (peers (bs ! j))) \<and>
          (\<forall>p \<in> set (peers (bs ! j)). bucket_index lid (pi_peer_id p) = Some (n + j))" for bs n lid
    using that
  proof (induction bs arbitrary: n)
    case (Cons b bs)
    have b: "distinct (map pi_peer_id (peers b))" "\<forall>p \<in> set (peers b). bucket_index lid (pi_peer_id p) = Some n"
      using Cons.prems by (auto dest!: spec [of _ 0])
    have bs: "\<forall>j < length bs. distinct (map pi_peer_id (peers (bs ! j))) \<and>
          (\<forall>p \<in> set (peers (bs ! j)). bucket_index lid (pi_peer_id p) = Some (Suc n + j))"
    proof (intro allI impI)
      fix j assume "j < length bs"
      with Cons.prems [rule_format, of "Suc j"]
      show "distinct (map pi_peer_id (peers (bs ! j))) \<and>
          (\<forall>p \<in> set (peers (bs ! j)). bucket_index lid (pi_peer_id p) = Some (Suc n + j))" by simp
    qed
    have "bucket_index lid (pi_peer_id q) \<noteq> Some n" if mem: "b' \<in> set bs" "q \<in> set (peers b')" for b' q
    proof -
      obtain j where "j < length bs" "b' = bs ! j" using mem(1) by (metis in_set_conv_nth)
      then have "bucket_index lid (pi_peer_id q) = Some (Suc n + j)" using bs mem(2) by blast
      then show ?thesis by simp
    qed
    then have "pi_peer_id p \<noteq> pi_peer_id q" if "p \<in> set (peers b)" "b' \<in> set bs" "q \<in> set (peers b')" for p b' q
      using b(2) that by metis
    then show ?case using b(1) Cons.IH [OF bs] by force
  qed simp
  from this [of "buckets t" "local_id t" 0] show ?thesis
    using assms by (auto simp: all_peers_def rt_inv_def bucket_ok_def peer_in_bucket_def)
qed

subsection \<open>Effect of the operations on lookups\<close>

lemma KBucket_get_iff:
  "bucket_ok lid i b \<Longrightarrow> KBucket_get b q = Some p \<longleftrightarrow> p \<in> set (peers b) \<and> pi_peer_id p = q"
  by (simp add: KBucket_get_def bucket_ok_def find_key_Some)

lemma option_eqI: "(\<And>x. a = Some x \<longleftrightarrow> b = Some x) \<Longrightarrow> a = b"
  by (metis not_None_eq)

lemma set_remove_at_key:
  assumes "distinct (map g xs)" "i < length xs"
  shows "x \<in> set (remove_at i xs) \<longleftrightarrow> x \<in> set xs \<and> g x \<noteq> g (xs ! i)"
  using distinct_remove_at(2) [of i xs] assms distinct_key_eq [OF assms(1) _ nth_mem [OF assms(2)], of x]
  by (auto simp: distinct_map)

lemma insert_or_update_get:
  assumes ok: "bucket_ok lid i b" and peer: "peer_in_bucket lid i peer"
    and res: "insert_or_update now peer b = (Some r, b')"
  shows "\<exists>p. KBucket_get b' (pi_peer_id peer) = Some p \<and> pi_addr p = pi_addr peer"
    and "q \<noteq> pi_peer_id peer \<Longrightarrow> KBucket_get b' q = KBucket_get b q \<or>
       (KBucket_get b' q = None \<and> (\<exists>p. KBucket_get b q = Some p \<and> bad_peer p))"
proof -
  note ok' = insert_or_update_ok(1) [OF ok peer res]
  note get = KBucket_get_iff [OF ok] KBucket_get_iff [OF ok']
  have d: "distinct (map pi_peer_id (peers b))" using ok by (simp add: bucket_ok_def)
  have "(\<exists>p. KBucket_get b' (pi_peer_id peer) = Some p \<and> pi_addr p = pi_addr peer) \<and>
    (q \<noteq> pi_peer_id peer \<longrightarrow> KBucket_get b' q = KBucket_get b q \<or>
       (KBucket_get b' q = None \<and> (\<exists>p. KBucket_get b q = Some p \<and> bad_peer p)))"
  proof (cases "KBucket_find b (pi_peer_id peer)")
    case (Some idx)
    let ?p = "touch now ((peers b ! idx)\<lparr>pi_addr := pi_addr peer\<rparr>)"
    note upd = insert_update_case(1) [OF Some refl, of now] insert_update_case(2,3) [OF Some refl]
    have id: "pi_peer_id ?p = pi_peer_id peer" "pi_addr ?p = pi_addr peer"
      using upd(3) by (simp_all add: touch_def)
    have "peers b' = remove_at idx (peers b) @ [?p]" using upd(1) res by auto
    then have mem: "x \<in> set (peers b') \<longleftrightarrow> (x \<in> set (peers b) \<and> pi_peer_id x \<noteq> pi_peer_id peer) \<or> x = ?p" for x
      using set_remove_at_key [OF d upd(2), of x] upd(3) by auto
    have "KBucket_get b' (pi_peer_id peer) = Some ?p" using id by (simp add: get mem)
    moreover have "KBucket_get b' q = KBucket_get b q" if "q \<noteq> pi_peer_id peer"
      using that id(1) by (intro option_eqI) (auto simp: get mem)
    ultimately show ?thesis using id(2) by auto
  next
    case None
    show ?thesis
    proof (cases "is_full b")
      case False
      then have b': "peers b' = peers b @ [peer]" using res None by (auto simp: insert_or_update_def)
      have "KBucket_get b' q = KBucket_get b q" if "q \<noteq> pi_peer_id peer"
        using that by (intro option_eqI) (auto simp: get b')
      moreover have "KBucket_get b' (pi_peer_id peer) = Some peer" by (simp add: get b')
      ultimately show ?thesis by auto
    next
      case True
      then obtain j where j: "find_eviction_candidate b = Some j"
        and "peers b' = remove_at j (peers b) @ [peer]"
        using res None by (auto simp: insert_or_update_def split: option.splits)
      note ev = find_eviction_candidate_Some [OF j]
      let ?e = "peers b ! j"
      have mem: "x \<in> set (peers b') \<longleftrightarrow> (x \<in> set (peers b) \<and> pi_peer_id x \<noteq> pi_peer_id ?e) \<or> x = peer" for x
        using set_remove_at_key [OF d, of j x] ev \<open>peers b' = remove_at j (peers b) @ [peer]\<close> by auto
      have "KBucket_get b' (pi_peer_id peer) = Some peer" by (simp add: get mem)
      moreover have "KBucket_get b' q = KBucket_get b q" if "q \<noteq> pi_peer_id peer" "q \<noteq> pi_peer_id ?e"
        using that by (intro option_eqI) (auto simp: get mem)
      moreover have "KBucket_get b (pi_peer_id ?e) = Some ?e" using ev by (simp add: get)
      moreover have "KBucket_get b' (pi_peer_id ?e) = None" if "pi_peer_id ?e \<noteq> pi_peer_id peer"
        using that by (cases "KBucket_get b' (pi_peer_id ?e)") (auto simp: get mem)
      ultimately show ?thesis using ev by metis
    qed
  qed
  then show "\<exists>p. KBucket_get b' (pi_peer_id peer) = Some p \<and> pi_addr p = pi_addr peer"
    "q \<noteq> pi_peer_id peer \<Longrightarrow> KBucket_get b' q = KBucket_get b q \<or>
       (KBucket_get b' q = None \<and> (\<exists>p. KBucket_get b q = Some p \<and> bad_peer p))" by blast+
qed

lemma get_peer_set_bucket:
  assumes "i < length (buckets t)"
  shows "get_peer q (t\<lparr>buckets := (buckets t)[i := b], total_peers := n\<rparr>) =
     (if RoutingTable_bucket_index t q = Some i then KBucket_get b q else get_peer q t)"
  using assms by (auto simp: get_peer_def RoutingTable_bucket_index_def split: option.splits)

lemma insert_peer_get:
  assumes inv: "rt_inv t" and pid: "pid_ok pid" and res: "insert_peer now pid addr t = (r, t')"
  shows "r = Inr c \<Longrightarrow> pid \<noteq> local_id t \<Longrightarrow> \<exists>p. get_peer pid t' = Some p \<and> pi_addr p = addr"
    and "q \<noteq> pid \<Longrightarrow> get_peer q t' = get_peer q t \<or>
       (get_peer q t' = None \<and> (\<exists>p. get_peer q t = Some p \<and> bad_peer p))"
    and "r = Inl e \<Longrightarrow> t' = t"
    and "pid = local_id t \<Longrightarrow> t' = t"
proof -
  have "(r = Inr c \<longrightarrow> pid \<noteq> local_id t \<longrightarrow> (\<exists>p. get_peer pid t' = Some p \<and> pi_addr p = addr)) \<and>
    (q \<noteq> pid \<longrightarrow> get_peer q t' = get_peer q t \<or>
       (get_peer q t' = None \<and> (\<exists>p. get_peer q t = Some p \<and> bad_peer p))) \<and> (r = Inl e \<longrightarrow> t' = t) \<and>
    (pid = local_id t \<longrightarrow> t' = t)"
    using inv pid
  proof (cases rule: insert_peer_cases [where now = now and addr = addr])
    case (stored i x b n)
    have p: "peer_in_bucket (local_id t) i (PeerInfo_new now pid addr)"
      using stored(1) pid by (intro peer_in_bucket_intros) (simp_all add: RoutingTable_bucket_index_def)
    note get = insert_or_update_get [OF rt_index(3) [OF inv stored(1)] p stored(2)]
    have t': "t' = t\<lparr>buckets := (buckets t)[i := b], total_peers := n\<rparr>" "r = Inr (x \<noteq> Updated)"
      using stored(3) res by simp_all
    have "get_peer q t = KBucket_get (buckets t ! i) q" if "RoutingTable_bucket_index t q = Some i"
      using that by (simp add: get_peer_def)
    moreover have "pid \<noteq> local_id t"
      using stored(1) bucket_index_None_iff [OF pid pid] by (auto simp: RoutingTable_bucket_index_def)
    ultimately show ?thesis
      using get(1) get(2) [of q] stored(1) get_peer_set_bucket [OF rt_index(2) [OF inv stored(1)], where b = b and n = n]
      unfolding t' by auto
  qed (use res in auto)
  then show "r = Inr c \<Longrightarrow> pid \<noteq> local_id t \<Longrightarrow> \<exists>p. get_peer pid t' = Some p \<and> pi_addr p = addr"
    "q \<noteq> pid \<Longrightarrow> get_peer q t' = get_peer q t \<or>
       (get_peer q t' = None \<and> (\<exists>p. get_peer q t = Some p \<and> bad_peer p))"
    "r = Inl e \<Longrightarrow> t' = t" "pid = local_id t \<Longrightarrow> t' = t" by blast+
qed

lemma KBucket_remove_fst:
  assumes ok: "bucket_ok lid i b" and r: "KBucket_remove pid b = (r, b')"
  shows "r = KBucket_get b pid"
proof (cases "KBucket_find b pid")
  case (Some idx)
  then have "idx < length (peers b) \<and> pi_peer_id (peers b ! idx) = pid"
    unfolding KBucket_find_def by (rule position_Some)
  then have "KBucket_get b pid = Some (peers b ! idx)" by (simp add: KBucket_get_iff [OF ok])
  then show ?thesis using r Some by (simp add: KBucket_remove_def)
next
  case None
  then have "KBucket_get b pid = None"
    by (auto simp: KBucket_find_def KBucket_get_def position_None find_None_iff)
  then show ?thesis using r None by (simp add: KBucket_remove_def)
qed

lemma KBucket_remove_get:
  assumes ok: "bucket_ok lid i b" and r: "KBucket_remove pid b = (r, b')"
  shows "KBucket_get b' q = (if q = pid then None else KBucket_get b q)"
proof (rule option_eqI)
  fix p
  have "p \<in> set (peers b') \<longleftrightarrow> p \<in> set (peers b) \<and> pi_peer_id p \<noteq> pid"
    using KBucket_remove_ok(3) [OF ok r] by simp
  then show "KBucket_get b' q = Some p \<longleftrightarrow> (if q = pid then None else KBucket_get b q) = Some p"
    using KBucket_get_iff [OF ok, of q p] KBucket_get_iff [OF KBucket_remove_ok(1) [OF ok r], of q p]
    by (cases "q = pid") auto
qed

lemma remove_peer_get:
  assumes inv: "rt_inv t"
  shows "fst (remove_peer pid t) = get_peer pid t \<and>
     get_peer q (snd (remove_peer pid t)) = (if q = pid then None else get_peer q t)"
proof (cases "RoutingTable_bucket_index t pid")
  case None
  then show ?thesis by (auto simp: remove_peer_def get_peer_def)
next
  case (Some i)
  obtain r b where r: "KBucket_remove pid (buckets t ! i) = (r, b)"
    by (cases "KBucket_remove pid (buckets t ! i)")
  note ok = rt_index(3) [OF inv Some]
  have eq: "remove_peer pid t = (r, t\<lparr>buckets := (buckets t)[i := b],
      total_peers := if r = None then total_peers t else total_peers t - 1\<rparr>)"
    using Some r by (cases r) (simp_all add: remove_peer_def)
  have "get_peer pid t = KBucket_get (buckets t ! i) pid"
    "RoutingTable_bucket_index t q = Some i \<Longrightarrow> get_peer q t = KBucket_get (buckets t ! i) q"
    using Some by (simp_all add: get_peer_def)
  then show ?thesis
    using KBucket_remove_fst [OF ok r] KBucket_remove_get [OF ok r, of q] Some
    unfolding eq fst_conv snd_conv get_peer_set_bucket [OF rt_index(2) [OF inv Some]] by auto
qed

lemma update_peer_get:
  assumes inv: "rt_inv t" and ids: "\<And>p. pi_peer_id (f p) = pi_peer_id p"
  shows "get_peer q (update_peer pid f t) =
     (if q = pid then map_option f (get_peer pid t) else get_peer q t)"
proof (cases "RoutingTable_bucket_index t pid")
  case None
  then show ?thesis by (auto simp: update_peer_def get_peer_def)
next
  case (Some i)
  let ?b = "KBucket_get_mut pid f (buckets t ! i)"
  have eq: "update_peer pid f t = t\<lparr>buckets := (buckets t)[i := ?b], total_peers := total_peers t\<rparr>"
    using Some by (simp add: update_peer_def)
  have "KBucket_get ?b q = (if q = pid then map_option f (KBucket_get (buckets t ! i) pid)
      else KBucket_get (buckets t ! i) q)"
    using ids by (auto simp: KBucket_get_def KBucket_get_mut_def find_update_first
        intro!: find_update_first_other)
  then show ?thesis
    using Some unfolding eq get_peer_set_bucket [OF rt_index(2) [OF inv Some]] by (auto simp: get_peer_def)
qed

lemma evict_dead_get:
  assumes inv: "rt_inv t"
  shows "get_peer q (snd (evict_dead t)) =
     (case get_peer q t of Some p \<Rightarrow> if pi_state p = Dead then None else Some p | None \<Rightarrow> None)"
proof -
  have "p \<in> set (all_peers (snd (evict_dead t))) \<longleftrightarrow> p \<in> set (all_peers t) \<and> pi_state p \<noteq> Dead" for p
    by (auto simp: evict_dead_eq [OF inv] all_peers_def live_def)
  then have get: "get_peer q (snd (evict_dead t)) = Some p \<longleftrightarrow> get_peer q t = Some p \<and> pi_state p \<noteq> Dead" for p
    using get_peer_iff [OF rt_inv_evict [OF inv], of q p] get_peer_iff [OF inv, of q p] by auto
  show ?thesis by (rule option_eqI) (auto simp: get split: option.splits)
qed

subsection \<open>The table as an address book\<close>

text \<open>Operations on a table of addresses, with the time they happen at.\<close>

datatype ('n, 'k, 'a, 'u) table_op = OpInsert 'n 'k 'a | OpRemove 'k | OpUpdate 'u

fun run_table :: "('n \<Rightarrow> 'k \<Rightarrow> 'a \<Rightarrow> 't \<Rightarrow> 't) \<Rightarrow> ('k \<Rightarrow> 't \<Rightarrow> 't) \<Rightarrow> ('u \<Rightarrow> 't \<Rightarrow> 't) \<Rightarrow>
    ('n, 'k, 'a, 'u) table_op list \<Rightarrow> 't \<Rightarrow> 't" where
  "run_table ins del upd [] t = t"
| "run_table ins del upd (OpInsert n k a # ops) t = run_table ins del upd ops (ins n k a t)"
| "run_table ins del upd (OpRemove k # ops) t = run_table ins del upd ops (del k t)"
| "run_table ins del upd (OpUpdate u # ops) t = run_table ins del upd ops (upd u t)"

fun op_key_ok :: "('k \<Rightarrow> bool) \<Rightarrow> ('n, 'k, 'a, 'u) table_op \<Rightarrow> bool" where
  "op_key_ok P (OpInsert n k a) = P k"
| "op_key_ok P _ = True"

locale peer_table =
  fixes inv :: "'t \<Rightarrow> bool"
    and key_ok :: "'k \<Rightarrow> bool"
    and addr_of :: "'t \<Rightarrow> 'k \<Rightarrow> 'a option"
    and ins :: "'n \<Rightarrow> 'k \<Rightarrow> 'a \<Rightarrow> 't \<Rightarrow> 't"
    and del :: "'k \<Rightarrow> 't \<Rightarrow> 't"
    and upd :: "'u \<Rightarrow> 't \<Rightarrow> 't"
  assumes inv_ins: "inv t \<Longrightarrow> key_ok k \<Longrightarrow> inv (ins n k a t)"
    and inv_del: "inv t \<Longrightarrow> inv (del k t)"
    and inv_upd: "inv t \<Longrightarrow> inv (upd u t)"
    and ins_addr: "inv t \<Longrightarrow> key_ok k \<Longrightarrow> addr_of (ins n k a t) q = Some b \<Longrightarrow>
      (q = k \<and> b = a) \<or> addr_of t q = Some b"
    and del_addr: "inv t \<Longrightarrow> addr_of (del k t) q = (if q = k then None else addr_of t q)"
    and upd_addr: "inv t \<Longrightarrow> addr_of (upd u t) q = Some b \<Longrightarrow> addr_of t q = Some b"
begin

lemma run_inv: "inv t \<Longrightarrow> list_all (op_key_ok key_ok) ops \<Longrightarrow> inv (run_table ins del upd ops t)"
proof (induction ops arbitrary: t)
  case (Cons op ops)
  then show ?case by (cases op) (auto intro: inv_ins inv_del inv_upd)
qed simp

lemma run_append:
  "run_table ins del upd (xs @ ys) t = run_table ins del upd ys (run_table ins del upd xs t)"
proof (induction xs arbitrary: t)
  case (Cons op xs)
  then show ?case by (cases op) auto
qed simp

lemma provenance:
  "inv t \<Longrightarrow> list_all (op_key_ok key_ok) ops \<Longrightarrow> addr_of (run_table ins del upd ops t) q = Some b \<Longrightarrow>
   addr_of t q = Some b \<or> (\<exists>n. OpInsert n q b \<in> set ops)"
proof (induction ops arbitrary: t)
  case (Cons op ops)
  show ?case
  proof (cases op)
    case (OpInsert n k a)
    with Cons inv_ins [of t k n a] ins_addr [of t k n a q b] show ?thesis by auto
  next
    case (OpRemove k)
    with Cons inv_del [of t k] del_addr [of t k q] show ?thesis by (auto split: if_splits)
  next
    case (OpUpdate u)
    with Cons inv_upd [of t u] upd_addr [of t u q b] show ?thesis by auto
  qed
qed simp

lemma removed_stays_out:
  assumes "inv t" "list_all (op_key_ok key_ok) (xs @ OpRemove q # ys)"
    and "addr_of (run_table ins del upd (xs @ OpRemove q # ys) t) q = Some b"
  shows "\<exists>n. OpInsert n q b \<in> set ys"
proof -
  let ?t = "run_table ins del upd xs t"
  have inv: "inv ?t" using assms(1,2) by (intro run_inv) auto
  have "addr_of (run_table ins del upd ys (del q ?t)) q = Some b" using assms(3) by (simp add: run_append)
  then have "addr_of (del q ?t) q = Some b \<or> (\<exists>n. OpInsert n q b \<in> set ys)"
    using provenance [OF inv_del [OF inv]] assms(2) by simp
  then show ?thesis using del_addr [OF inv, of q q] by simp
qed

end

definition addr_of :: "RoutingTable \<Rightarrow> PeerId \<Rightarrow> SocketAddr option" where
  "addr_of t pid = map_option pi_addr (get_peer pid t)"

datatype rt_update = MarkActive time PeerId time | MarkSuspect time PeerId | EvictDead

primrec rt_apply :: "rt_update \<Rightarrow> RoutingTable \<Rightarrow> RoutingTable" where
  "rt_apply (MarkActive now pid latency) t = mark_active now pid latency t"
| "rt_apply (MarkSuspect now pid) t = mark_suspect now pid t"
| "rt_apply EvictDead t = snd (evict_dead t)"

definition rt_insert :: "time \<Rightarrow> PeerId \<Rightarrow> SocketAddr \<Rightarrow> RoutingTable \<Rightarrow> RoutingTable" where
  "rt_insert now pid addr t = snd (insert_peer now pid addr t)"

definition rt_remove :: "PeerId \<Rightarrow> RoutingTable \<Rightarrow> RoutingTable" where
  "rt_remove pid t = snd (remove_peer pid t)"

interpretation routing_table: peer_table rt_inv pid_ok addr_of rt_insert rt_remove rt_apply
proof
  fix t :: RoutingTable and k q :: PeerId and n :: time and a b :: SocketAddr and u :: rt_update
  assume inv: "rt_inv t"
  show "rt_inv (rt_remove k t)" unfolding rt_remove_def by (rule rt_inv_remove [OF inv])
  show "rt_inv (rt_apply u t)"
    using inv by (cases u) (simp_all add: mark_active_def mark_suspect_def rt_inv_marks rt_inv_evict)
  show "addr_of (rt_remove k t) q = (if q = k then None else addr_of t q)"
    using remove_peer_get [OF inv, of k q] by (simp add: addr_of_def rt_remove_def)
  show "addr_of t q = Some b" if "addr_of (rt_apply u t) q = Some b"
    using that
    by (cases u) (auto simp: addr_of_def mark_active_def mark_suspect_def update_peer_get [OF inv]
        evict_dead_get [OF inv] split: if_splits option.splits)
  assume k: "pid_ok k"
  show "rt_inv (rt_insert n k a t)" unfolding rt_insert_def by (rule rt_inv_insert [OF inv k])
  show "(q = k \<and> b = a) \<or> addr_of t q = Some b" if q: "addr_of (rt_insert n k a t) q = Some b"
  proof -
    obtain r t' where r: "insert_peer n k a t = (r, t')" by (cases "insert_peer n k a t")
    note get = insert_peer_get [OF inv k r]
    show ?thesis
    proof (cases "q = k")
      case True
      with q r get(1) get(3) get(4) show ?thesis
        by (cases r; cases "k = local_id t") (auto simp: addr_of_def rt_insert_def)
    next
      case False
      with q r get(2) [OF False] show ?thesis by (auto simp: addr_of_def rt_insert_def)
    qed
  qed
qed

subsection \<open>Closest peers\<close>

lemma insort_key_map: "insort_key f (g x) (map g xs) = map g (insort_key (\<lambda>x. f (g x)) x xs)"
  by (induction xs) simp_all

lemma sort_key_map: "sort_key f (map g xs) = map g (sort_key (\<lambda>x. f (g x)) xs)"
  by (induction xs) (simp_all add: insort_key_map)

abbreviation (input) dist_to :: "PeerId \<Rightarrow> PeerInfo \<Rightarrow> byte list" where
  "dist_to tgt p \<equiv> xor_distance (pi_peer_id p) tgt"

lemma find_closest_eq: "find_closest tgt n t = take n (sort_key (dist_to tgt) (active_peers t))"
proof -
  have "concat (map (\<lambda>b. map (\<lambda>p. (p, dist_to tgt p)) (filter is_usable (peers b))) bs) =
      map (\<lambda>p. (p, dist_to tgt p)) (filter is_usable (concat (map peers bs)))" for bs :: "KBucket list"
    by (induction bs) simp_all
  then have "find_closest tgt n t =
      map fst (take n (sort_key snd (map (\<lambda>p. (p, dist_to tgt p)) (active_peers t))))"
    by (simp only: find_closest_def active_peers_def Let_def)
  then show ?thesis by (simp add: sort_key_map take_map comp_def)
qed

lemma sort_key_take_closest:
  fixes f :: "'a \<Rightarrow> 'b::linorder"
  assumes "x \<in> set xs" "x \<notin> set (take n (sort_key f xs))" "y \<in> set (take n (sort_key f xs))"
  shows "f y \<le> f x"
proof -
  let ?s = "sort_key f xs"
  have "x \<in> set (take n ?s @ drop n ?s)" using assms(1) by simp
  then have "x \<in> set (drop n ?s)" using assms(2) by (simp only: set_append) auto
  moreover have "sorted (map f (take n ?s) @ map f (drop n ?s))"
    by (metis append_take_drop_id map_append sorted_sort_key)
  ultimately show ?thesis using assms(3) by (auto simp: sorted_append)
qed

lemma distinct_sort_key: "distinct (map g (sort_key f xs)) \<longleftrightarrow> distinct (map g xs)"
  by (metis distinct_map distinct_sort set_sort)

subsection \<open>Correctness of the routing table\<close>

text \<open>C15. The table keeps its invariant under every operation, in any order: 256 buckets of at most 20
  peers, no peer twice, each in the bucket its distance to the local id says, never the local id
  itself, and \<open>total_peers\<close> counting them.\<close>

theorem routing_table_invariant:
  assumes "pid_ok lid" and "list_all (op_key_ok pid_ok) ops"
  shows "rt_inv (run_table rt_insert rt_remove rt_apply ops (RoutingTable_new now lid))"
  by (rule routing_table.run_inv [OF rt_inv_new [OF assms(1)] assms(2)])

theorem routing_table_invariant_witness:
  "rt_inv (run_table rt_insert rt_remove rt_apply
     [OpInsert 1 (PeerId (replicate 32 7)) (SockV4 [1, 2, 3, 4] 80), OpUpdate EvictDead,
      OpRemove (PeerId (replicate 32 7))] (RoutingTable_new 0 (PeerId (replicate 32 0))))"
  by (rule routing_table_invariant) (simp_all add: pid_ok_def)

text \<open>The table invents nothing: an address it holds for a peer is one that was inserted for that
  peer, after the last time the peer was removed.\<close>

lemma routing_table_provenance:
  assumes "pid_ok lid" and "list_all (op_key_ok pid_ok) ops"
    and "addr_of (run_table rt_insert rt_remove rt_apply ops (RoutingTable_new now lid)) q = Some a"
  shows "(\<exists>n. OpInsert n q a \<in> set ops) \<and>
     (\<forall>xs ys. ops = xs @ OpRemove q # ys \<longrightarrow> (\<exists>n. OpInsert n q a \<in> set ys))"
proof
  have none: "addr_of (RoutingTable_new now lid) q = None"
    using get_peer_iff [OF rt_inv_new [OF assms(1)], of q now]
    by (cases "get_peer q (RoutingTable_new now lid)")
      (auto simp: addr_of_def all_peers_def RoutingTable_new_def KBucket_new_def)
  show "\<exists>n. OpInsert n q a \<in> set ops"
    using routing_table.provenance [OF rt_inv_new [OF assms(1)] assms(2,3)] none by simp
  show "\<forall>xs ys. ops = xs @ OpRemove q # ys \<longrightarrow> (\<exists>n. OpInsert n q a \<in> set ys)"
  proof (intro allI impI)
    fix xs ys assume ops: "ops = xs @ OpRemove q # ys"
    show "\<exists>n. OpInsert n q a \<in> set ys"
      using assms(2,3) unfolding ops by (rule routing_table.removed_stays_out [OF rt_inv_new [OF assms(1)]])
  qed
qed



text \<open>C12. \<open>find_closest\<close> returns the \<open>n\<close> usable peers of the table closest to the target (all of them if
  there are fewer), sorted by distance and each once: no usable peer left out is closer than one
  returned.\<close>

theorem find_closest_spec:
  assumes "rt_inv t"
  shows "let r = find_closest tgt n t; usable = {p \<in> set (all_peers t). is_usable p} in
     set r \<subseteq> usable \<and> length r = min n (card usable) \<and> distinct (map pi_peer_id r) \<and>
     sorted (map (\<lambda>p. xor_distance (pi_peer_id p) tgt) r) \<and>
     (\<forall>p \<in> usable - set r. \<forall>q \<in> set r.
        xor_distance (pi_peer_id q) tgt \<le> xor_distance (pi_peer_id p) tgt)"
proof -
  let ?u = "active_peers t" and ?s = "sort_key (dist_to tgt) (active_peers t)"
  have d: "distinct (map pi_peer_id ?u)"
    using distinct_all_peers [OF assms] by (simp add: active_peers_def all_peers_def distinct_map_filter)
  have set: "set ?u = {p \<in> set (all_peers t). is_usable p}" by (auto simp: active_peers_def all_peers_def)
  have "card (set ?u) = length ?u" using d by (intro distinct_card) (simp add: distinct_map)
  moreover have "distinct (map pi_peer_id (take n ?s))"
    using d distinct_sort_key [of pi_peer_id "dist_to tgt" ?u] by (simp add: distinct_take flip: take_map)
  moreover have "sorted (map (dist_to tgt) (take n ?s))" by (simp add: sorted_wrt_take flip: take_map)
  moreover have "set (take n ?s) \<subseteq> set ?u" by (auto dest: in_set_takeD)
  ultimately show ?thesis
    unfolding Let_def find_closest_eq set [symmetric] by (auto intro: sort_key_take_closest)
qed

theorem find_closest_spec_witness:
  "sorted (map (\<lambda>p. xor_distance (pi_peer_id p) (PeerId (replicate 32 9)))
     (find_closest (PeerId (replicate 32 9)) 5 (RoutingTable_new 0 (PeerId (replicate 32 0)))))"
proof -
  have "rt_inv (RoutingTable_new 0 (PeerId (replicate 32 0)))" by (simp add: rt_inv_new pid_ok_def)
  from find_closest_spec [OF this] show ?thesis unfolding Let_def by blast
qed

text \<open>Marking and evicting: a peer marked suspect stays in the table but is no longer returned by
  \<open>find_closest\<close>; \<open>evict_dead\<close> removes exactly the dead peers and reports their number.\<close>

lemma suspect_and_evict:
  assumes "rt_inv t"
  shows "(\<forall>p. get_peer pid t = Some p \<longrightarrow>
       (\<exists>p'. get_peer pid (mark_suspect now pid t) = Some p' \<and> pi_state p' = Suspect) \<and>
       pid \<notin> pi_peer_id ` set (find_closest tgt n (mark_suspect now pid t))) \<and>
     get_peer q (snd (evict_dead t)) =
       (case get_peer q t of Some p \<Rightarrow> if pi_state p = Dead then None else Some p | None \<Rightarrow> None) \<and>
     total_peers (snd (evict_dead t)) + fst (evict_dead t) = total_peers t"
proof (intro conjI allI impI)
  let ?t = "mark_suspect now pid t"
  fix p assume p: "get_peer pid t = Some p"
  then have get: "get_peer pid ?t = Some (PeerInfo_mark_suspect now p)"
    by (simp add: mark_suspect_def update_peer_get [OF assms])
  then show "\<exists>p'. get_peer pid ?t = Some p' \<and> pi_state p' = Suspect"
    by (simp add: PeerInfo_mark_suspect_def)
  have inv: "rt_inv ?t" using assms by (simp add: mark_suspect_def rt_inv_marks)
  show "pid \<notin> pi_peer_id ` set (find_closest tgt n ?t)"
  proof
    assume "pid \<in> pi_peer_id ` set (find_closest tgt n ?t)"
    then obtain q where q: "q \<in> set (active_peers ?t)" "pid = pi_peer_id q"
      by (auto simp: find_closest_eq dest: in_set_takeD)
    then have g: "get_peer pid ?t = Some q" and u: "is_usable q"
      using get_peer_iff [OF inv, of pid q] by (simp_all add: active_peers_def all_peers_def)
    have "q = PeerInfo_mark_suspect now p" using g unfolding get by simp
    then have "pi_state q = Suspect" by (simp add: PeerInfo_mark_suspect_def)
    then show False using u by (simp add: is_usable_def)
  qed
next
  show "get_peer q (snd (evict_dead t)) =
       (case get_peer q t of Some p \<Rightarrow> if pi_state p = Dead then None else Some p | None \<Rightarrow> None)"
    by (rule evict_dead_get [OF assms])
  have "sum_list (map (\<lambda>b. length (peers (live b))) bs) + sum_list (map dead_count bs) =
      sum_list (map (\<lambda>b. length (peers b)) bs)" for bs
  proof (induction bs)
    case (Cons b bs)
    then show ?case using length_live [of b] by simp
  qed simp
  then show "total_peers (snd (evict_dead t)) + fst (evict_dead t) = total_peers t"
    using assms by (simp add: evict_dead_eq rt_inv_def)
qed

end
