(* ===== verification/Wire_Types.thy ===== *)
theory Wire_Types
  imports Prelude
begin

text \<open>
  \<open>ceky-protocol/src/lib.rs\<close>, \<open>types.rs\<close> and \<open>error.rs\<close>: the protocol constants, message types
  and their wire codes, the flags bitfield, frame headers and frames, protocol errors.  The locale
  \<open>byte_code\<close> is the contract of an enumeration with a one byte wire code; every such
  enumeration of the protocol crate interprets it.
\<close>

subsection \<open>Constants and errors\<close>

definition MAGIC :: u16 where "MAGIC = 0xCE4B"

definition VERSION :: byte where "VERSION = 1"

definition HEADER_SIZE :: nat where "HEADER_SIZE = 21"

definition MAX_PAYLOAD_SIZE :: u32 where "MAX_PAYLOAD_SIZE = 16 * 1024 * 1024"

datatype ProtocolError =
    InvalidMagic u16
  | UnsupportedVersion byte
  | UnknownMessageType byte
  | PayloadTooLarge u32
  | ChecksumMismatch u32 u32
  | Incomplete nat
  | Io string

definition hex_upper :: "nat \<Rightarrow> nat \<Rightarrow> string" where
  "hex_upper w n = map (\<lambda>i. ''0123456789ABCDEF'' ! (n div 16 ^ i mod 16)) (rev [0 ..< w])"

primrec ProtocolError_fmt :: "ProtocolError \<Rightarrow> string" where
  "ProtocolError_fmt (InvalidMagic got) =
     ''invalid magic bytes: expected 0x'' @ hex_upper 4 (unat MAGIC) @ '', got 0x'' @ hex_upper 4 (unat got)"
| "ProtocolError_fmt (UnsupportedVersion v) = ''unsupported protocol version: '' @ show_nat (unat v)"
| "ProtocolError_fmt (UnknownMessageType code) = ''unknown message type: 0x'' @ hex_upper 2 (unat code)"
| "ProtocolError_fmt (PayloadTooLarge sz) =
     ''payload too large: '' @ show_nat (unat sz) @ '' bytes (max '' @ show_nat (unat MAX_PAYLOAD_SIZE) @ '')''"
| "ProtocolError_fmt (ChecksumMismatch expected got) =
     ''checksum mismatch: expected 0x'' @ hex_upper 8 (unat expected) @ '', got 0x'' @ hex_upper 8 (unat got)"
| "ProtocolError_fmt (Incomplete needed) = ''incomplete frame: need '' @ show_nat needed @ '' more bytes''"
| "ProtocolError_fmt (Io e) = ''I/O error: '' @ e"

subsection \<open>Enumerations with a byte code\<close>

locale byte_code =
  fixes as_byte :: "'a \<Rightarrow> byte"
    and from_byte :: "byte \<Rightarrow> 'a option"
  assumes from_as: "from_byte (as_byte t) = Some t"
    and as_from: "from_byte b = Some t \<Longrightarrow> as_byte t = b"
begin

lemma as_byte_eq_iff: "as_byte s = as_byte t \<longleftrightarrow> s = t"
  by (metis from_as option.inject)

lemma from_byte_Some_iff: "from_byte b = Some t \<longleftrightarrow> as_byte t = b"
  by (metis from_as as_from)

lemma from_byte_None_iff: "from_byte b = None \<longleftrightarrow> b \<notin> range as_byte"
  by (metis from_byte_Some_iff not_None_eq rangeE rangeI)

lemma from_byte_inj: "from_byte b = Some t \<Longrightarrow> from_byte c = Some t \<Longrightarrow> b = c"
  by (metis as_from)

end

subsection \<open>Message types\<close>

datatype MessageType =
    Handshake | Ping | Pong | Disconnect
  | FindNode | FindNodeResp | Store | StoreResp | FindValue | FindValueResp
  | Data | DataAck | CreditUpdate | FileOffer | FileAccept | FileReject
  | FileChunk | FileChunkAck | FileComplete | FileCancel
  | NatProbe | NatProbeResp | HolePunch | HolePunchResp | RelayRequest | RelayData

definition MessageType_from_byte :: "byte \<Rightarrow> MessageType option" where
  "MessageType_from_byte b =
     (if b = 0x01 then Some Handshake
      else if b = 0x02 then Some Ping
      else if b = 0x03 then Some Pong
      else if b = 0x04 then Some Disconnect
      else if b = 0x10 then Some FindNode
      else if b = 0x11 then Some FindNodeResp
      else if b = 0x12 then Some Store
      else if b = 0x13 then Some StoreResp
      else if b = 0x14 then Some FindValue
      else if b = 0x15 then Some FindValueResp
      else if b = 0x20 then Some Data
      else if b = 0x21 then Some DataAck
      else if b = 0x22 then Some CreditUpdate
      else if b = 0x23 then Some FileOffer
      else if b = 0x24 then Some FileAccept
      else if b = 0x25 then Some FileReject
      else if b = 0x26 then Some FileChunk
      else if b = 0x27 then Some FileChunkAck
      else if b = 0x28 then Some FileComplete
      else if b = 0x29 then Some FileCancel
      else if b = 0x30 then Some NatProbe
      else if b = 0x31 then Some NatProbeResp
      else if b = 0x32 then Some HolePunch
      else if b = 0x33 then Some HolePunchResp
      else if b = 0x34 then Some RelayRequest
      else if b = 0x35 then Some RelayData
      else None)"

primrec MessageType_as_byte :: "MessageType \<Rightarrow> byte" where
  "MessageType_as_byte Handshake = 0x01"
| "MessageType_as_byte Ping = 0x02"
| "MessageType_as_byte Pong = 0x03"
| "MessageType_as_byte Disconnect = 0x04"
| "MessageType_as_byte FindNode = 0x10"
| "MessageType_as_byte FindNodeResp = 0x11"
| "MessageType_as_byte Store = 0x12"
| "MessageType_as_byte StoreResp = 0x13"
| "MessageType_as_byte FindValue = 0x14"
| "MessageType_as_byte FindValueResp = 0x15"
| "MessageType_as_byte Data = 0x20"
| "MessageType_as_byte DataAck = 0x21"
| "MessageType_as_byte CreditUpdate = 0x22"
| "MessageType_as_byte FileOffer = 0x23"
| "MessageType_as_byte FileAccept = 0x24"
| "MessageType_as_byte FileReject = 0x25"
| "MessageType_as_byte FileChunk = 0x26"
| "MessageType_as_byte FileChunkAck = 0x27"
| "MessageType_as_byte FileComplete = 0x28"
| "MessageType_as_byte FileCancel = 0x29"
| "MessageType_as_byte NatProbe = 0x30"
| "MessageType_as_byte NatProbeResp = 0x31"
| "MessageType_as_byte HolePunch = 0x32"
| "MessageType_as_byte HolePunchResp = 0x33"
| "MessageType_as_byte RelayRequest = 0x34"
| "MessageType_as_byte RelayData = 0x35"

primrec MessageType_fmt :: "MessageType \<Rightarrow> string" where
  "MessageType_fmt Handshake = ''HANDSHAKE''"
| "MessageType_fmt Ping = ''PING''"
| "MessageType_fmt Pong = ''PONG''"
| "MessageType_fmt Disconnect = ''DISCONNECT''"
| "MessageType_fmt FindNode = ''FIND_NODE''"
| "MessageType_fmt FindNodeResp = ''FIND_NODE_RESP''"
| "MessageType_fmt Store = ''STORE''"
| "MessageType_fmt StoreResp = ''STORE_RESP''"
| "MessageType_fmt FindValue = ''FIND_VALUE''"
| "MessageType_fmt FindValueResp = ''FIND_VALUE_RESP''"
| "MessageType_fmt Data = ''DATA''"
| "MessageType_fmt DataAck = ''DATA_ACK''"
| "MessageType_fmt CreditUpdate = ''CREDIT_UPDATE''"
| "MessageType_fmt FileOffer = ''FILE_OFFER''"
| "MessageType_fmt FileAccept = ''FILE_ACCEPT''"
| "MessageType_fmt FileReject = ''FILE_REJECT''"
| "MessageType_fmt FileChunk = ''FILE_CHUNK''"
| "MessageType_fmt FileChunkAck = ''FILE_CHUNK_ACK''"
| "MessageType_fmt FileComplete = ''FILE_COMPLETE''"
| "MessageType_fmt FileCancel = ''FILE_CANCEL''"
| "MessageType_fmt NatProbe = ''NAT_PROBE''"
| "MessageType_fmt NatProbeResp = ''NAT_PROBE_RESP''"
| "MessageType_fmt HolePunch = ''HOLE_PUNCH''"
| "MessageType_fmt HolePunchResp = ''HOLE_PUNCH_RESP''"
| "MessageType_fmt RelayRequest = ''RELAY_REQUEST''"
| "MessageType_fmt RelayData = ''RELAY_DATA''"

lemma MessageType_from_as: "MessageType_from_byte (MessageType_as_byte t) = Some t"
  by (cases t) (simp_all add: MessageType_from_byte_def)

lemma MessageType_as_from: "MessageType_from_byte b = Some t \<Longrightarrow> MessageType_as_byte t = b"
  by (auto simp: MessageType_from_byte_def split: if_splits)

interpretation msg_code: byte_code MessageType_as_byte MessageType_from_byte
  by unfold_locales (fact MessageType_from_as, fact MessageType_as_from)

subsection \<open>Flags\<close>

datatype Flags = Flags (Flags_bits: byte)

definition FLAG_ENCRYPTED :: byte where "FLAG_ENCRYPTED = 0b00000001"
definition FLAG_COMPRESSED :: byte where "FLAG_COMPRESSED = 0b00000010"
definition FLAG_FRAGMENTED :: byte where "FLAG_FRAGMENTED = 0b00000100"
definition FLAG_PRIORITY :: byte where "FLAG_PRIORITY = 0b00001000"

lemmas flag_masks = FLAG_ENCRYPTED_def FLAG_COMPRESSED_def FLAG_FRAGMENTED_def FLAG_PRIORITY_def

definition Flags_empty :: Flags where "Flags_empty = Flags 0"

definition is_encrypted :: "Flags \<Rightarrow> bool" where
  "is_encrypted f \<longleftrightarrow> Flags_bits f AND FLAG_ENCRYPTED \<noteq> 0"

definition is_compressed :: "Flags \<Rightarrow> bool" where
  "is_compressed f \<longleftrightarrow> Flags_bits f AND FLAG_COMPRESSED \<noteq> 0"

definition is_fragmented :: "Flags \<Rightarrow> bool" where
  "is_fragmented f \<longleftrightarrow> Flags_bits f AND FLAG_FRAGMENTED \<noteq> 0"

definition is_priority :: "Flags \<Rightarrow> bool" where
  "is_priority f \<longleftrightarrow> Flags_bits f AND FLAG_PRIORITY \<noteq> 0"

definition with_encrypted :: "Flags \<Rightarrow> Flags" where
  "with_encrypted f = Flags (Flags_bits f OR FLAG_ENCRYPTED)"

definition with_compressed :: "Flags \<Rightarrow> Flags" where
  "with_compressed f = Flags (Flags_bits f OR FLAG_COMPRESSED)"

definition with_fragmented :: "Flags \<Rightarrow> Flags" where
  "with_fragmented f = Flags (Flags_bits f OR FLAG_FRAGMENTED)"

definition with_priority :: "Flags \<Rightarrow> Flags" where
  "with_priority f = Flags (Flags_bits f OR FLAG_PRIORITY)"

lemmas flag_defs = is_encrypted_def is_compressed_def is_fragmented_def is_priority_def
  with_encrypted_def with_compressed_def with_fragmented_def with_priority_def Flags_empty_def

fun join :: "string \<Rightarrow> string list \<Rightarrow> string" where
  "join sep [] = []"
| "join sep [x] = x"
| "join sep (x # y # ys) = x @ sep @ join sep (y # ys)"

definition Flags_fmt :: "Flags \<Rightarrow> string" where
  "Flags_fmt f =
     (let parts = (if is_encrypted f then [''ENC''] else []) @
                  (if is_compressed f then [''CMP''] else []) @
                  (if is_fragmented f then [''FRG''] else []) @
                  (if is_priority f then [''PRI''] else [])
      in if parts = [] then ''NONE'' else join ''|'' parts)"

lemma flag_masks_bits:
  "FLAG_ENCRYPTED = push_bit 0 1" "FLAG_COMPRESSED = push_bit 1 1"
  "FLAG_FRAGMENTED = push_bit 2 1" "FLAG_PRIORITY = push_bit 3 1"
  by (simp_all add: flag_masks)

lemma is_flag_bits:
  "is_encrypted f \<longleftrightarrow> bit (Flags_bits f) 0" "is_compressed f \<longleftrightarrow> bit (Flags_bits f) 1"
  "is_fragmented f \<longleftrightarrow> bit (Flags_bits f) 2" "is_priority f \<longleftrightarrow> bit (Flags_bits f) 3"
  unfolding flag_defs flag_masks_bits and_mask_iff by simp_all

lemma with_flag_bits:
  "bit (Flags_bits (with_encrypted f)) n \<longleftrightarrow> bit (Flags_bits f) n \<or> n = 0"
  "bit (Flags_bits (with_compressed f)) n \<longleftrightarrow> bit (Flags_bits f) n \<or> n = 1"
  "bit (Flags_bits (with_fragmented f)) n \<longleftrightarrow> bit (Flags_bits f) n \<or> n = 2"
  "bit (Flags_bits (with_priority f)) n \<longleftrightarrow> bit (Flags_bits f) n \<or> n = 3"
  unfolding flag_defs flag_masks_bits Flags.sel bit_or_mask by auto

subsection \<open>Headers and frames\<close>

record FrameHeader =
  magic :: u16
  version :: byte
  msg_type :: MessageType
  flags :: Flags
  payload_len :: u32
  request_id :: u64
  checksum :: u32

record Frame =
  header :: FrameHeader
  payload :: "byte list"

definition Frame_new :: "MessageType \<Rightarrow> Flags \<Rightarrow> u64 \<Rightarrow> byte list \<Rightarrow> Frame" where
  "Frame_new mt fl rid pl =
     \<lparr>header = \<lparr>magic = MAGIC, version = VERSION, msg_type = mt, flags = fl,
                payload_len = of_nat (length pl), request_id = rid, checksum = 0\<rparr>,
      payload = pl\<rparr>"

definition Frame_simple :: "MessageType \<Rightarrow> u64 \<Rightarrow> Frame" where
  "Frame_simple mt rid = Frame_new mt Flags_empty rid []"

text \<open>A number in hexadecimal, as \<open>{:#x}\<close> prints it.\<close>

fun show_hex :: "nat \<Rightarrow> string" where
  "show_hex n = (if n < 16 then [] else show_hex (n div 16)) @ [''0123456789abcdef'' ! (n mod 16)]"

declare show_hex.simps [simp del]

definition Frame_fmt :: "Frame \<Rightarrow> string" where
  "Frame_fmt f = ''Frame['' @ MessageType_fmt (msg_type (header f)) @ '' flags='' @ Flags_fmt (flags (header f)) @
     '' req=0x'' @ show_hex (unat (request_id (header f))) @ '' payload='' @ show_nat (length (payload f)) @ ''B]''"

definition wire_size :: "Frame \<Rightarrow> nat" where
  "wire_size f = HEADER_SIZE + length (payload f)"

end
