(* ===== verification/Codec.thy ===== *)
theory Codec
  imports Wire_Types
begin

text \<open>
  \<open>ceky-protocol/src/codec.rs\<close>: the streaming frame codec.  The decoder keeps its state between
  calls, so a frame may arrive in any number of pieces; \<open>drain\<close> and \<open>feed\<close> below drive it the way a
  framed reader does, calling \<open>decode\<close> until it asks for more bytes.  The checksum functions of the
  \<open>crc32c\<close> crate are the parameter \<open>crc\<close>; nothing is assumed of them.
\<close>

record crc_impl =
  crc32c :: "byte list \<Rightarrow> u32"
  crc32c_append :: "u32 \<Rightarrow> byte list \<Rightarrow> u32"

datatype DecodeState = DHeader | DPayload FrameHeader

record FrameCodec =
  dstate :: DecodeState

definition FrameCodec_new :: FrameCodec where
  "FrameCodec_new = \<lparr>dstate = DHeader\<rparr>"

definition compute_checksum :: "crc_impl \<Rightarrow> FrameHeader \<Rightarrow> byte list \<Rightarrow> u32" where
  "compute_checksum crc h pl =
     (let buf = be_bytes 2 (magic h) @ [version h] @ [MessageType_as_byte (msg_type h)]
                @ [Flags_bits (flags h)] @ be_bytes 4 (payload_len h) @ be_bytes 8 (request_id h);
          header_crc = crc32c crc buf
      in crc32c_append crc header_crc pl)"

definition decode_header :: "byte list \<Rightarrow> (ProtocolError, FrameHeader) res" where
  "decode_header src =
     bindR (ixs src [0, 1]) (\<lambda>mgb. let mg = of_be mgb in
     if mg \<noteq> MAGIC then Inl (Err (InvalidMagic mg)) else
     bindR (ix src 2) (\<lambda>ver.
     if ver \<noteq> VERSION then Inl (Err (UnsupportedVersion ver)) else
     bindR (ix src 3) (\<lambda>code.
     case MessageType_from_byte code of
       None \<Rightarrow> Inl (Err (UnknownMessageType code))
     | Some mt \<Rightarrow>
         bindR (ix src 4) (\<lambda>fl.
         bindR (ixs src [5, 6, 7, 8]) (\<lambda>lenb. let len = of_be lenb in
         if len > MAX_PAYLOAD_SIZE then Inl (Err (PayloadTooLarge len)) else
         bindR (ixs src [9, 10, 11, 12, 13, 14, 15, 16]) (\<lambda>ridb.
         bindR (ixs src [17, 18, 19, 20]) (\<lambda>csb.
         Inr \<lparr>magic = mg, version = ver, msg_type = mt, flags = Flags fl,
              payload_len = len, request_id = of_be ridb, checksum = of_be csb\<rparr>)))))))"

function decode :: "crc_impl \<Rightarrow> FrameCodec \<Rightarrow> byte list \<Rightarrow>
    (ProtocolError, Frame option) res \<times> FrameCodec \<times> byte list" where
  "decode crc c src =
     (case dstate c of
        DHeader \<Rightarrow>
          if length src < HEADER_SIZE then (Inr None, c, src) else
          (case decode_header (take HEADER_SIZE src) of
             Inl e \<Rightarrow> (Inl e, c, src)
           | Inr h \<Rightarrow>
               if payload_len h = 0 then
                 (let computed = compute_checksum crc h [] in
                  if computed \<noteq> checksum h
                  then (Inl (Err (ChecksumMismatch (checksum h) computed)), c, src)
                  else (Inr (Some \<lparr>header = h, payload = []\<rparr>), c, drop HEADER_SIZE src))
               else decode crc (c\<lparr>dstate := DPayload h\<rparr>) src)
      | DPayload h \<Rightarrow>
          let total = HEADER_SIZE + unat (payload_len h) in
          if length src < total then (Inr None, c, src) else
          let pl = take (unat (payload_len h)) (drop HEADER_SIZE src);
              computed = compute_checksum crc h pl in
          if computed \<noteq> checksum h
          then (Inl (Err (ChecksumMismatch (checksum h) computed)), c, src)
          else (Inr (Some \<lparr>header = h, payload = pl\<rparr>), c\<lparr>dstate := DHeader\<rparr>, drop total src))"
  by pat_completeness auto
termination
  by (relation "measure (\<lambda>(crc, c, src). case dstate c of DHeader \<Rightarrow> 1 | DPayload h \<Rightarrow> 0)") auto

definition encode :: "crc_impl \<Rightarrow> Frame \<Rightarrow> byte list \<Rightarrow> (ProtocolError, byte list) res" where
  "encode crc f dst =
     (let len = of_nat (length (payload f)) :: u32 in
      if len > MAX_PAYLOAD_SIZE then Inl (Err (PayloadTooLarge len)) else
      let header_for_crc = (header f)\<lparr>checksum := 0\<rparr>;
          cs = compute_checksum crc header_for_crc (payload f) in
      Inr (dst @ be_bytes 2 MAGIC @ [VERSION] @ [MessageType_as_byte (msg_type (header f))]
           @ [Flags_bits (flags (header f))] @ be_bytes 4 len @ be_bytes 8 (request_id (header f))
           @ be_bytes 4 cs @ payload f))"

subsection \<open>Frames and their bytes\<close>

text \<open>\<open>frame_ok\<close> is what \<open>Frame::new\<close> makes of a payload within the size limit; \<open>header_wire\<close> and
  \<open>wire\<close> are the bytes of a header and of a frame, and \<open>seal\<close> the frame with its checksum filled in.\<close>

definition frame_ok :: "Frame \<Rightarrow> bool" where
  "frame_ok f \<longleftrightarrow> magic (header f) = MAGIC \<and> version (header f) = VERSION \<and>
     payload_len (header f) = of_nat (length (payload f)) \<and>
     length (payload f) \<le> unat MAX_PAYLOAD_SIZE"

definition seal :: "crc_impl \<Rightarrow> Frame \<Rightarrow> Frame" where
  "seal crc f = f\<lparr>header := (header f)\<lparr>checksum := compute_checksum crc (header f) (payload f)\<rparr>\<rparr>"

definition header_wire :: "FrameHeader \<Rightarrow> byte list" where
  "header_wire h = be_bytes 2 (magic h) @ [version h, MessageType_as_byte (msg_type h),
     Flags_bits (flags h)] @ be_bytes 4 (payload_len h) @ be_bytes 8 (request_id h)
     @ be_bytes 4 (checksum h)"

definition wire :: "crc_impl \<Rightarrow> Frame \<Rightarrow> byte list" where
  "wire crc f = header_wire (header (seal crc f)) @ payload f"

lemma length_header_wire [simp]: "length (header_wire h) = HEADER_SIZE"
  by (simp add: header_wire_def HEADER_SIZE_def)

lemma compute_checksum_update [simp]:
  "compute_checksum crc (h\<lparr>checksum := x\<rparr>) pl = compute_checksum crc h pl"
  by (simp add: compute_checksum_def)

lemma seal_simps [simp]:
  "payload (seal crc f) = payload f"
  "payload_len (header (seal crc f)) = payload_len (header f)"
  "checksum (header (seal crc f)) = compute_checksum crc (header f) (payload f)"
  "compute_checksum crc (header (seal crc f)) pl = compute_checksum crc (header f) pl"
  by (simp_all add: seal_def)

lemma seal_eta [simp]: "\<lparr>header = header (seal crc f), payload = payload f\<rparr> = seal crc f"
  by (simp add: seal_def)

lemma frame_ok_new: "length pl \<le> unat MAX_PAYLOAD_SIZE \<Longrightarrow> frame_ok (Frame_new mt fl rid pl)"
  by (simp add: frame_ok_def Frame_new_def)

lemma unat_MAX_PAYLOAD_SIZE: "unat MAX_PAYLOAD_SIZE = 16777216"
  by (simp add: MAX_PAYLOAD_SIZE_def)

lemma unat_payload_len:
  "frame_ok f \<Longrightarrow> unat (payload_len (header f)) = length (payload f)"
  by (simp add: frame_ok_def unat_MAX_PAYLOAD_SIZE unat_of_nat)

lemma payload_len_le: "frame_ok f \<Longrightarrow> payload_len (header f) \<le> MAX_PAYLOAD_SIZE"
  using unat_payload_len by (simp add: word_le_nat_alt frame_ok_def)

lemma encode_ok: "frame_ok f \<Longrightarrow> encode crc f dst = Inr (dst @ wire crc f)"
  using payload_len_le [of f]
  by (simp add: encode_def frame_ok_def wire_def header_wire_def seal_def Let_def not_less)

subsection \<open>Header round trip\<close>

lemma be_bytes_expand:
  "be_bytes 2 (x :: 'a::len word) = [ucast (drop_bit 8 x), ucast x]"
  "be_bytes 4 (x :: 'a word) =
     [ucast (drop_bit 24 x), ucast (drop_bit 16 x), ucast (drop_bit 8 x), ucast x]"
  "be_bytes 8 (x :: 'a word) =
     [ucast (drop_bit 56 x), ucast (drop_bit 48 x), ucast (drop_bit 40 x), ucast (drop_bit 32 x),
      ucast (drop_bit 24 x), ucast (drop_bit 16 x), ucast (drop_bit 8 x), ucast x]"
  by (simp_all add: be_bytes_def upt_rec)

lemmas of_be_expanded = of_be_be_bytes_widths [unfolded be_bytes_expand]

lemma decode_header_wire:
  assumes "magic h = MAGIC" "version h = VERSION" "payload_len h \<le> MAX_PAYLOAD_SIZE"
  shows "decode_header (header_wire h) = Inr h"
  using assms
  by (simp add: decode_header_def header_wire_def be_bytes_expand of_be_expanded HEADER_SIZE_def
      MessageType_from_as Let_def not_less)

lemma decode_header_Inr:
  assumes "decode_header src = Inr h" and "length src = HEADER_SIZE"
  shows "header_wire h = src" "magic h = MAGIC" "version h = VERSION"
    "payload_len h \<le> MAX_PAYLOAD_SIZE"
proof -
  have len: "length src = 21" using assms(2) by (simp add: HEADER_SIZE_def)
  have h: "of_be [src ! 0, src ! 1] = MAGIC" "src ! 2 = VERSION"
    "h = \<lparr>magic = of_be [src ! 0, src ! 1], version = src ! 2, msg_type = msg_type h,
       flags = Flags (src ! 4), payload_len = of_be [src ! 5, src ! 6, src ! 7, src ! 8],
       request_id = of_be [src ! 9, src ! 10, src ! 11, src ! 12,
                           src ! 13, src ! 14, src ! 15, src ! 16],
       checksum = of_be [src ! 17, src ! 18, src ! 19, src ! 20]\<rparr>"
    "MessageType_as_byte (msg_type h) = src ! 3" "payload_len h \<le> MAX_PAYLOAD_SIZE"
    using assms(1) len
    by (auto simp: decode_header_def Let_def not_less MessageType_as_from
        split: if_splits option.splits)
  show "payload_len h \<le> MAX_PAYLOAD_SIZE" by (fact h(5))
  show "magic h = MAGIC" "version h = VERSION" using h(1-3) by (metis FrameHeader.select_convs)+
  have "header_wire h =
     [src ! 0, src ! 1, src ! 2, src ! 3, src ! 4, src ! 5, src ! 6, src ! 7, src ! 8, src ! 9,
      src ! 10, src ! 11, src ! 12, src ! 13, src ! 14, src ! 15, src ! 16, src ! 17, src ! 18,
      src ! 19, src ! 20]"
    by (subst h(3)) (simp add: header_wire_def h(4))
  also have "\<dots> = map (\<lambda>i. src ! i) [0..<21]"
    by (simp add: upt_rec eval_nat_numeral)
  finally show "header_wire h = src" using len by (metis map_nth)
qed

subsection \<open>One call of the decoder\<close>

declare decode.simps [simp del]

lemma decode_DHeader:
  "decode crc \<lparr>dstate = DHeader\<rparr> src =
     (if length src < HEADER_SIZE then (Inr None, \<lparr>dstate = DHeader\<rparr>, src) else
      (case decode_header (take HEADER_SIZE src) of
         Inl e \<Rightarrow> (Inl e, \<lparr>dstate = DHeader\<rparr>, src)
       | Inr h \<Rightarrow> if payload_len h = 0 then
               (if compute_checksum crc h [] \<noteq> checksum h
                then (Inl (Err (ChecksumMismatch (checksum h) (compute_checksum crc h []))),
                      \<lparr>dstate = DHeader\<rparr>, src)
                else (Inr (Some \<lparr>header = h, payload = []\<rparr>), \<lparr>dstate = DHeader\<rparr>,
                      drop HEADER_SIZE src))
             else decode crc \<lparr>dstate = DPayload h\<rparr> src))"
  by (subst decode.simps) (simp add: Let_def split: sum.splits)

lemma decode_DPayload:
  "decode crc \<lparr>dstate = DPayload h\<rparr> src =
     (if length src < HEADER_SIZE + unat (payload_len h)
      then (Inr None, \<lparr>dstate = DPayload h\<rparr>, src) else
      let pl = take (unat (payload_len h)) (drop HEADER_SIZE src) in
      if compute_checksum crc h pl \<noteq> checksum h
      then (Inl (Err (ChecksumMismatch (checksum h) (compute_checksum crc h pl))),
            \<lparr>dstate = DPayload h\<rparr>, src)
      else (Inr (Some \<lparr>header = h, payload = pl\<rparr>), \<lparr>dstate = DHeader\<rparr>,
            drop (HEADER_SIZE + unat (payload_len h)) src))"
  by (subst decode.simps) (simp add: Let_def)

lemmas decode_arms = decode_DHeader decode_DPayload

text \<open>More bytes at the end of the buffer change nothing once a call has an answer; a call that has
  none leaves the buffer alone and resumes where it stopped.\<close>

lemma decode_Some_append:
  assumes "decode crc c src = (Inr (Some f), c', src')"
  shows "decode crc c (src @ t) = (Inr (Some f), c', src' @ t)"
proof -
  obtain d where c: "c = \<lparr>dstate = d\<rparr>" by (cases c)
  show ?thesis
    using assms unfolding c
    by (cases d) (auto simp: decode_arms Let_def split: if_splits sum.splits)
qed

lemma decode_Inl_append:
  assumes "decode crc c src = (Inl e, c', src')"
  shows "decode crc c (src @ t) = (Inl e, c', src' @ t)"
proof -
  obtain d where c: "c = \<lparr>dstate = d\<rparr>" by (cases c)
  show ?thesis
    using assms unfolding c
    by (cases d) (auto simp: decode_arms Let_def split: if_splits sum.splits)
qed

lemma decode_None_resume:
  assumes "decode crc c src = (Inr None, c', src')"
  shows "src' = src \<and> decode crc c' (src @ t) = decode crc c (src @ t)"
proof -
  obtain d where c: "c = \<lparr>dstate = d\<rparr>" by (cases c)
  show ?thesis
    using assms unfolding c
    by (cases d) (auto simp: decode_arms Let_def split: if_splits sum.splits)
qed

lemma decode_Inl_keeps:
  assumes "decode crc c src = (Inl e, c', src')"
  shows "src' = src \<and> decode crc c' src = (Inl e, c', src)"
proof -
  obtain d where c: "c = \<lparr>dstate = d\<rparr>" by (cases c)
  show ?thesis
    using assms unfolding c
    by (cases d) (auto simp: decode_arms Let_def split: if_splits sum.splits)
qed

lemma decode_Some_shorter:
  assumes "decode crc c src = (Inr (Some f), c', src')"
  shows "c' = FrameCodec_new \<and> length src = wire_size f + length src'"
proof -
  obtain d where c: "c = \<lparr>dstate = d\<rparr>" by (cases c)
  show ?thesis
    using assms unfolding c
    by (cases d)
      (auto simp: decode_arms Let_def wire_size_def FrameCodec_new_def split: if_splits sum.splits)
qed

text \<open>What a call accepts is exactly the bytes of a well formed frame with the right checksum.\<close>

lemma decode_wire:
  assumes "frame_ok f"
  shows "decode crc FrameCodec_new (wire crc f @ t) = (Inr (Some (seal crc f)), FrameCodec_new, t)"
proof -
  have hdr: "decode_header (header_wire (header (seal crc f))) = Inr (header (seal crc f))"
    using assms payload_len_le [OF assms]
    by (intro decode_header_wire) (simp_all add: seal_def frame_ok_def)
  have len: "unat (payload_len (header f)) = length (payload f)"
    by (rule unat_payload_len [OF assms])
  then have zero: "payload_len (header f) = 0 \<longleftrightarrow> payload f = []"
    by (metis length_0_conv unat_eq_zero)
  show ?thesis
    using hdr len zero unfolding FrameCodec_new_def
    by (simp add: decode_arms wire_def Let_def)
qed

lemma decode_header_take:
  assumes "decode_header (take HEADER_SIZE src) = Inr h" and "\<not> length src < HEADER_SIZE"
  shows "src = header_wire h @ drop HEADER_SIZE src" "magic h = MAGIC" "version h = VERSION"
    "payload_len h \<le> MAX_PAYLOAD_SIZE"
proof -
  have "length (take HEADER_SIZE src) = HEADER_SIZE" using assms(2) by simp
  note hdr = decode_header_Inr [OF assms(1) this]
  show "src = header_wire h @ drop HEADER_SIZE src" unfolding hdr(1) by simp
  show "magic h = MAGIC" "version h = VERSION" "payload_len h \<le> MAX_PAYLOAD_SIZE"
    by (fact hdr)+
qed

lemma decode_Some_wire:
  assumes "decode crc FrameCodec_new src = (Inr (Some f), c', src')"
  shows "frame_ok f \<and> seal crc f = f \<and> src = wire crc f @ src'"
proof -
  from assms obtain h where long: "\<not> length src < HEADER_SIZE"
    and h: "decode_header (take HEADER_SIZE src) = Inr h"
    by (auto simp: FrameCodec_new_def decode_DHeader split: if_splits sum.splits)
  note hdr = decode_header_take [OF h long]
  let ?n = "unat (payload_len h)"
  have f: "f = \<lparr>header = h, payload = take ?n (drop HEADER_SIZE src)\<rparr>"
    "compute_checksum crc h (payload f) = checksum h" "src' = drop (HEADER_SIZE + ?n) src"
    "\<not> length src < HEADER_SIZE + ?n"
    using assms long h unfolding FrameCodec_new_def
    by (auto simp: decode_arms Let_def split: if_splits)
  have sealed: "seal crc f = f" using f(1,2) by (simp add: seal_def)
  have "length (payload f) = ?n" using f(1,4) by simp
  moreover have "?n \<le> unat MAX_PAYLOAD_SIZE" using hdr(4) by (simp add: word_le_nat_alt)
  ultimately have "frame_ok f" using f(1) hdr by (simp add: frame_ok_def)
  moreover have "src = wire crc f @ src'"
    using hdr(1) sealed f(1,3) unfolding wire_def
    by (metis Frame.select_convs append.assoc append_take_drop_id drop_drop add.commute)
  ultimately show ?thesis using sealed by simp
qed

subsection \<open>Draining a buffer, feeding a stream\<close>

function drain :: "crc_impl \<Rightarrow> FrameCodec \<Rightarrow> byte list \<Rightarrow>
    Frame list \<times> ProtocolError fault option \<times> FrameCodec \<times> byte list" where
  "drain crc c src =
     (case decode crc c src of
        (Inl e, c', src') \<Rightarrow> ([], Some e, c', src')
      | (Inr None, c', src') \<Rightarrow> ([], None, c', src')
      | (Inr (Some f), c', src') \<Rightarrow>
          (case drain crc c' src' of (fs, r) \<Rightarrow> (f # fs, r)))"
  by pat_completeness auto
termination
  by (relation "measure (\<lambda>(crc, c, src). length src)")
    (auto dest!: decode_Some_shorter [OF sym] simp: wire_size_def HEADER_SIZE_def)

declare drain.simps [simp del]

fun feed :: "crc_impl \<Rightarrow> FrameCodec \<Rightarrow> byte list \<Rightarrow> byte list list \<Rightarrow>
    Frame list \<times> ProtocolError fault option \<times> FrameCodec \<times> byte list" where
  "feed crc c buf [] = ([], None, c, buf)"
| "feed crc c buf (x # xs) =
     (case drain crc c (buf @ x) of
        (fs, Some e, r) \<Rightarrow> (fs, Some e, r)
      | (fs, None, c', buf') \<Rightarrow>
          (case feed crc c' buf' xs of (gs, r) \<Rightarrow> (fs @ gs, r)))"

lemma drain_append:
  "drain crc c src = (fs, None, c', src') \<Longrightarrow>
   drain crc c (src @ t) = (case drain crc c' (src' @ t) of (gs, r) \<Rightarrow> (fs @ gs, r))"
proof (induction crc c src arbitrary: fs rule: drain.induct)
  case (1 crc c src)
  obtain r d s where dec: "decode crc c src = (r, d, s)" by (cases "decode crc c src")
  show ?case
  proof (cases r rule: res_option_cases)
    case err
    with 1 dec show ?thesis by (simp add: drain.simps [of crc c src])
  next
    case more
    with 1 dec have res: "fs = []" "c' = d" "src' = s" by (simp_all add: drain.simps [of crc c src])
    from dec more have "s = src" "decode crc d (src @ t) = decode crc c (src @ t)"
      using decode_None_resume by blast+
    then show ?thesis
      using res by (simp add: drain.simps [of crc c "src @ t"] drain.simps [of crc d "src @ t"]
          split: prod.splits)
  next
    case (val f)
    with 1 dec obtain gs where gs: "drain crc d s = (gs, None, c', src')" "fs = f # gs"
      by (auto simp: drain.simps [of crc c src] split: prod.splits)
    from dec val have "decode crc c (src @ t) = (Inr (Some f), d, s @ t)"
      by (simp add: decode_Some_append)
    moreover have "drain crc d (s @ t) = (case drain crc c' (src' @ t) of (hs, r) \<Rightarrow> (gs @ hs, r))"
      using "1.IH" dec val gs(1) by simp
    ultimately show ?thesis
      using gs(2) by (simp add: drain.simps [of crc c "src @ t"] split: prod.splits)
  qed
qed

lemma drain_append_err:
  "drain crc c src = (fs, Some e, c', src') \<Longrightarrow> drain crc c (src @ t) = (fs, Some e, c', src' @ t)"
proof (induction crc c src arbitrary: fs rule: drain.induct)
  case (1 crc c src)
  obtain r d s where dec: "decode crc c src = (r, d, s)" by (cases "decode crc c src")
  show ?case
  proof (cases r rule: res_option_cases)
    case err
    with 1 dec decode_Inl_append [of crc c src _ d s t] show ?thesis
      by (simp add: drain.simps [of crc c src] drain.simps [of crc c "src @ t"])
  next
    case more
    with 1 dec show ?thesis by (simp add: drain.simps [of crc c src])
  next
    case (val f)
    with 1 dec obtain gs where gs: "drain crc d s = (gs, Some e, c', src')" "fs = f # gs"
      by (auto simp: drain.simps [of crc c src] split: prod.splits)
    then show ?thesis
      using "1.IH" dec val decode_Some_append [of crc c src f d s t]
      by (simp add: drain.simps [of crc c "src @ t"])
  qed
qed

lemma drain_stable:
  "drain crc c src = (fs, None, c', src') \<Longrightarrow> drain crc c' src' = ([], None, c', src')"
proof (induction crc c src arbitrary: fs rule: drain.induct)
  case (1 crc c src)
  obtain r d s where dec: "decode crc c src = (r, d, s)" by (cases "decode crc c src")
  show ?case
  proof (cases r rule: res_option_cases)
    case err
    with 1 dec show ?thesis by (simp add: drain.simps [of crc c src])
  next
    case more
    with 1 dec have "c' = d" "src' = src" "decode crc d src = (Inr None, d, src)"
      using decode_None_resume [of crc c src d s "[]"] by (auto simp: drain.simps [of crc c src])
    then show ?thesis by (simp add: drain.simps [of crc d src])
  next
    case (val f)
    with 1 dec show ?thesis by (auto simp: drain.simps [of crc c src] split: prod.splits)
  qed
qed

text \<open>The frames, the error and the final decoder state of a run.\<close>

definition outcome :: "Frame list \<times> ProtocolError fault option \<times> FrameCodec \<times> byte list \<Rightarrow>
    Frame list \<times> ProtocolError fault option \<times> FrameCodec" where
  "outcome = (\<lambda>(fs, e, c, b). (fs, e, c))"

lemma feed_drain:
  "drain crc c buf = ([], None, c, buf) \<Longrightarrow>
   outcome (feed crc c buf xs) = outcome (drain crc c (buf @ concat xs))"
proof (induction xs arbitrary: c buf)
  case Nil
  then show ?case by simp
next
  case (Cons x xs)
  obtain fs eo c' b' where d: "drain crc c (buf @ x) = (fs, eo, c', b')"
    by (cases "drain crc c (buf @ x)")
  show ?case
  proof (cases eo)
    case None
    with d have "outcome (feed crc c' b' xs) = outcome (drain crc c' (b' @ concat xs))"
      by (auto intro: Cons.IH drain_stable)
    moreover have "drain crc c (buf @ x @ concat xs) =
        (case drain crc c' (b' @ concat xs) of (gs, r) \<Rightarrow> (fs @ gs, r))"
      using drain_append [of crc c "buf @ x" fs c' b' "concat xs"] d None by simp
    ultimately show ?thesis using d None by (auto simp: outcome_def split: prod.splits)
  next
    case (Some e)
    with d drain_append_err [of crc c "buf @ x" fs e c' b' "concat xs"]
    show ?thesis by (simp add: outcome_def)
  qed
qed

lemma drain_wire:
  assumes "list_all frame_ok fs"
  shows "drain crc FrameCodec_new (concat (map (wire crc) fs)) =
     (map (seal crc) fs, None, FrameCodec_new, [])"
  using assms
proof (induction fs)
  case Nil
  then show ?case
    by (simp add: drain.simps [of crc _ "[]"] FrameCodec_new_def decode_DHeader HEADER_SIZE_def)
next
  case (Cons f fs)
  then show ?case
    by (simp add: drain.simps [of crc _ "wire crc f @ _"] decode_wire)
qed

lemma decode_no_panic [no_panic]: "fst (decode crc c src) \<noteq> Inl Panic"
proof -
  obtain d where c: "c = \<lparr>dstate = d\<rparr>" by (cases c)
  have "length t = HEADER_SIZE \<Longrightarrow> decode_header t \<noteq> Inl Panic" for t
    by (auto simp: decode_header_def HEADER_SIZE_def Let_def split: option.splits)
  then have "\<not> length src < HEADER_SIZE \<Longrightarrow> decode_header (take HEADER_SIZE src) \<noteq> Inl Panic"
    by simp
  then show ?thesis
    unfolding c by (cases d) (auto simp: decode_arms Let_def split: sum.splits)
qed

lemma drain_no_panic [no_panic]: "fst (snd (drain crc c src)) \<noteq> Some Panic"
proof (induction crc c src rule: drain.induct)
  case (1 crc c src)
  obtain r d s where dec: "decode crc c src = (r, d, s)" by (cases "decode crc c src")
  show ?case
  proof (cases r rule: res_option_cases)
    case (val f)
    then have "fst (snd (drain crc d s)) \<noteq> Some Panic" using 1 dec by simp
    then show ?thesis using dec val by (auto simp: drain.simps [of crc c src] split: prod.splits)
  qed (use dec decode_no_panic [of crc c src] in \<open>auto simp: drain.simps [of crc c src]\<close>)
qed

lemma drain_sound:
  "drain crc FrameCodec_new src = (fs, eo, c, rest) \<Longrightarrow>
   list_all (\<lambda>f. frame_ok f \<and> seal crc f = f) fs \<and> src = concat (map (wire crc) fs) @ rest"
proof (induction crc "FrameCodec_new" src arbitrary: fs rule: drain.induct)
  case (1 crc src)
  obtain r d s where dec: "decode crc FrameCodec_new src = (r, d, s)"
    by (cases "decode crc FrameCodec_new src")
  show ?case
  proof (cases r rule: res_option_cases)
    case err
    with 1 dec decode_Inl_keeps [of crc FrameCodec_new src] show ?thesis
      by (auto simp: drain.simps [of crc _ src])
  next
    case more
    with 1 dec decode_None_resume [of crc FrameCodec_new src d s] show ?thesis
      by (auto simp: drain.simps [of crc _ src])
  next
    case (val f)
    with dec have "d = FrameCodec_new" "frame_ok f" "seal crc f = f" "src = wire crc f @ s"
      using decode_Some_shorter decode_Some_wire by blast+
    moreover obtain gs where "drain crc d s = (gs, eo, c, rest)" "fs = f # gs"
      using 1(2) dec val by (auto simp: drain.simps [of crc _ src] split: prod.splits)
    ultimately show ?thesis using 1(1) dec val by simp
  qed
qed

text \<open>Encoding a list of frames one after the other into one buffer.\<close>

fun encode_all :: "crc_impl \<Rightarrow> Frame list \<Rightarrow> byte list \<Rightarrow> (ProtocolError, byte list) res" where
  "encode_all crc [] dst = Inr dst"
| "encode_all crc (f # fs) dst = bindR (encode crc f dst) (encode_all crc fs)"

lemma encode_all_ok:
  "list_all frame_ok fs \<Longrightarrow> encode_all crc fs dst = Inr (dst @ concat (map (wire crc) fs))"
  by (induction fs arbitrary: dst) (simp_all add: encode_ok)

lemma drain_Nil: "drain crc FrameCodec_new [] = ([], None, FrameCodec_new, [])"
  using drain_wire [of "[]" crc] by simp

lemma feed_new: "outcome (feed crc FrameCodec_new [] xs) = outcome (drain crc FrameCodec_new (concat xs))"
  using feed_drain [OF drain_Nil] by simp

text \<open>A checksum to run the codec on concrete bytes with.\<close>

definition sum_crc :: crc_impl where
  "sum_crc = \<lparr>crc32c = (\<lambda>bs. sum_list (map ucast bs)),
     crc32c_append = (\<lambda>c bs. c + sum_list (map ucast bs))\<rparr>"

subsection \<open>Correctness of the codec\<close>

text \<open>A frame built by \<open>Frame::new\<close> with a payload within the limit encodes to 21 header bytes
  and its payload, and the decoder gives the frame back from those bytes, whatever follows them,
  leaving exactly what follows; the frame's checksum field holds the CRC of header and payload.\<close>

lemma codec_roundtrip:
  assumes "length pl \<le> unat MAX_PAYLOAD_SIZE"
  shows "\<exists>w. encode crc (Frame_new mt fl rid pl) dst = Inr (dst @ w) \<and>
     length w = HEADER_SIZE + length pl \<and>
     decode crc FrameCodec_new (w @ rest) =
       (Inr (Some (seal crc (Frame_new mt fl rid pl))), FrameCodec_new, rest)"
proof (intro exI conjI)
  let ?f = "Frame_new mt fl rid pl"
  note ok = frame_ok_new [OF assms, of mt fl rid]
  show "encode crc ?f dst = Inr (dst @ wire crc ?f)" by (rule encode_ok [OF ok])
  show "length (wire crc ?f) = HEADER_SIZE + length pl" by (simp add: wire_def Frame_new_def)
  show "decode crc FrameCodec_new (wire crc ?f @ rest) = (Inr (Some (seal crc ?f)), FrameCodec_new, rest)"
    by (rule decode_wire [OF ok])
qed

text \<open>C10. Frames encoded back to back and delivered in pieces cut anywhere come out of the decoder as
  the same frames in the same order, with no error and nothing pending.\<close>

theorem stream_reassembly:
  assumes "list_all frame_ok fs" and "encode_all crc fs [] = Inr (concat chunks)"
  shows "outcome (feed crc FrameCodec_new [] chunks) = (map (seal crc) fs, None, FrameCodec_new)"
  using assms encode_all_ok [OF assms(1), of crc "[]"] drain_wire [OF assms(1), of crc]
  unfolding feed_new by (simp add: outcome_def)

theorem stream_reassembly_witness:
  "let f = Frame_new Ping (Flags 0) 7 [1, 2, 3]; w = wire sum_crc f in
   outcome (feed sum_crc FrameCodec_new [] [take 5 w, take 17 (drop 5 w), drop 22 w @ w]) =
     ([seal sum_crc f, seal sum_crc f], None, FrameCodec_new)"
proof -
  define f where "f = Frame_new Ping (Flags 0) 7 [1, 2, 3]"
  define w where "w = wire sum_crc f"
  have ok: "list_all frame_ok [f, f]" by (simp add: f_def frame_ok_new unat_MAX_PAYLOAD_SIZE)
  have "take 17 (drop 5 w) @ drop 22 w = drop 5 w"
    using append_take_drop_id [of 17 "drop 5 w"] by simp
  then have "take 5 w @ take 17 (drop 5 w) @ drop 22 w @ w = w @ w"
    by (metis append.assoc append_take_drop_id)
  then have "encode_all sum_crc [f, f] [] = Inr (concat [take 5 w, take 17 (drop 5 w), drop 22 w @ w])"
    using encode_all_ok [OF ok, of sum_crc "[]"] by (simp add: w_def)
  from stream_reassembly [OF ok this] show ?thesis
    unfolding w_def f_def by (simp only: Let_def list.map)
qed

text \<open>C20. On any input, valid or not, the frames emitted, the first error and the state the decoder
  ends in depend only on the bytes received, not on how they were cut into reads.\<close>

theorem chunking_independence:
  assumes "concat xs = concat ys"
  shows "outcome (feed crc FrameCodec_new [] xs) = outcome (feed crc FrameCodec_new [] ys)"
  using assms by (simp add: feed_new)

theorem chunking_independence_witness:
  "outcome (feed sum_crc FrameCodec_new [] [[0xCE], [0x4B, 1]]) =
   outcome (feed sum_crc FrameCodec_new [] [[0xCE, 0x4B], [], [1]])"
  by (rule chunking_independence) simp

text \<open>C21. The decoder accepts nothing but encodings: whatever bytes it is given, those it consumed are
  exactly the wire image of the frames it emitted, each within the size limit, with the right magic
  and version and a matching checksum.\<close>

theorem decode_accepts_only_wire:
  assumes "drain crc FrameCodec_new src = (fs, eo, c, rest)"
  shows "list_all (\<lambda>f. frame_ok f \<and> seal crc f = f) fs \<and> src = concat (map (wire crc) fs) @ rest"
  by (rule drain_sound [OF assms])

theorem decode_accepts_only_wire_witness:
  "let f = Frame_new Ping (Flags 0) 7 [1, 2, 3] in
   list_all (\<lambda>f. frame_ok f \<and> seal sum_crc f = f) [seal sum_crc f]"
  using decode_accepts_only_wire [OF drain_wire [of "[Frame_new Ping (Flags 0) 7 [1, 2, 3]]" sum_crc]]
  by (simp add: frame_ok_new unat_MAX_PAYLOAD_SIZE Let_def)

subsection \<open>What the decoder buffers\<close>

definition codec_ok :: "FrameCodec \<Rightarrow> bool" where
  "codec_ok c \<longleftrightarrow> (case dstate c of DHeader \<Rightarrow> True | DPayload h \<Rightarrow> payload_len h \<le> MAX_PAYLOAD_SIZE)"

lemma decode_codec_ok:
  assumes "codec_ok c" "decode crc c src = (r, c', src')"
  shows "codec_ok c'" and "r = Inr None \<Longrightarrow> length src' < HEADER_SIZE + unat MAX_PAYLOAD_SIZE"
proof -
  obtain d where c: "c = \<lparr>dstate = d\<rparr>" by (cases c)
  have pay: "codec_ok c' \<and> (r = Inr None \<longrightarrow> length src' < HEADER_SIZE + unat MAX_PAYLOAD_SIZE)"
    if "payload_len h \<le> MAX_PAYLOAD_SIZE" "decode crc \<lparr>dstate = DPayload h\<rparr> src = (r, c', src')" for h
    using that by (auto simp: decode_DPayload codec_ok_def Let_def word_le_nat_alt split: if_splits)
  have "codec_ok c' \<and> (r = Inr None \<longrightarrow> length src' < HEADER_SIZE + unat MAX_PAYLOAD_SIZE)"
  proof (cases d)
    case (DPayload h)
    then show ?thesis using assms pay by (simp add: c codec_ok_def)
  next
    case DHeader
    show ?thesis
    proof (cases "\<exists>h. \<not> length src < HEADER_SIZE \<and> decode_header (take HEADER_SIZE src) = Inr h \<and> payload_len h \<noteq> 0")
      case True
      then obtain h where h: "\<not> length src < HEADER_SIZE" "decode_header (take HEADER_SIZE src) = Inr h" "payload_len h \<noteq> 0"
        by blast
      then show ?thesis using pay [OF decode_header_take(4) [OF h(2,1)]] assms(2) DHeader by (simp add: c decode_DHeader)
    next
      case False
      then show ?thesis using assms(2) DHeader by (auto simp: c decode_DHeader codec_ok_def split: if_splits sum.splits)
    qed
  qed
  then show "codec_ok c'" "r = Inr None \<Longrightarrow> length src' < HEADER_SIZE + unat MAX_PAYLOAD_SIZE" by auto
qed

lemma drain_bounded:
  assumes "codec_ok c" "drain crc c src = (fs, err, c', src')"
  shows "codec_ok c' \<and> length src' \<le> length src \<and> (err = None \<longrightarrow> length src' < HEADER_SIZE + unat MAX_PAYLOAD_SIZE)"
  using assms
proof (induction crc c src arbitrary: fs rule: drain.induct)
  case (1 crc c src)
  obtain r d s where dec: "decode crc c src = (r, d, s)" by (cases "decode crc c src")
  note ok = decode_codec_ok [OF "1.prems"(1) dec]
  show ?case
  proof (cases r rule: res_option_cases)
    case err
    with "1.prems" dec ok decode_Inl_keeps [of crc c src _ d s] show ?thesis by (auto simp: drain.simps [of crc c src])
  next
    case more
    with "1.prems" dec ok decode_None_resume [of crc c src d s] show ?thesis by (auto simp: drain.simps [of crc c src])
  next
    case (val f)
    with "1.prems" dec obtain gs where "drain crc d s = (gs, err, c', src')"
      by (auto simp: drain.simps [of crc c src] split: prod.splits)
    then show ?thesis
      using "1.IH" dec val ok(1) decode_Some_shorter [of crc c src f d s] by fastforce
  qed
qed

lemma feed_bounded:
  assumes "codec_ok d" "length b < HEADER_SIZE + unat MAX_PAYLOAD_SIZE" "feed crc d b xs = (fs, err, c, buf)"
    and "\<forall>x \<in> set xs. length x \<le> n"
  shows "length buf < HEADER_SIZE + unat MAX_PAYLOAD_SIZE + (if err = None then 0 else n)"
  using assms
proof (induction xs arbitrary: d b fs)
  case (Cons x xs)
  obtain gs e d' b' where dr: "drain crc d (b @ x) = (gs, e, d', b')" by (cases "drain crc d (b @ x)")
  note bd = drain_bounded [OF Cons.prems(1) dr]
  show ?case
  proof (cases e)
    case None
    with Cons.prems(3) dr obtain hs where hs: "feed crc d' b' xs = (hs, err, c, buf)" by (auto split: prod.splits)
    show ?thesis by (rule Cons.IH [OF _ _ hs]) (use bd None Cons.prems(4) in simp_all)
  next
    case (Some e')
    with Cons.prems dr bd show ?thesis by auto
  qed
qed simp

text \<open>C23. What a peer can make the decoder buffer: fed with reads of at most \<open>n\<close> bytes, valid or not, it
  holds less than a header and the largest payload, 16 MiB, between reads, and not more than one read
  beyond that when it stops at an error.\<close>

theorem decoder_buffer_bounded:
  assumes "\<forall>x \<in> set xs. length x \<le> n" "feed crc FrameCodec_new [] xs = (fs, err, c, buf)"
  shows "length buf < HEADER_SIZE + unat MAX_PAYLOAD_SIZE + (if err = None then 0 else n)"
  by (rule feed_bounded [OF _ _ assms(2,1)]) (simp_all add: codec_ok_def FrameCodec_new_def unat_MAX_PAYLOAD_SIZE)

theorem decoder_buffer_bounded_witness:
  "\<exists>fs err c buf. feed sum_crc FrameCodec_new [] [[0xCE, 0x4B], [1, 1]] = (fs, err, c, buf) \<and> buf = [0xCE, 0x4B, 1, 1] \<and>
     length buf < HEADER_SIZE + unat MAX_PAYLOAD_SIZE + (if err = None then 0 else 2)"
proof -
  have "feed sum_crc FrameCodec_new [] [[0xCE, 0x4B], [1, 1]] = ([], None, FrameCodec_new, [0xCE, 0x4B, 1, 1])"
    by (simp add: drain.simps decode_DHeader FrameCodec_new_def HEADER_SIZE_def)
  with decoder_buffer_bounded [OF _ this, of 2] show ?thesis by auto
qed

subsection \<open>Errors\<close>

text \<open>A decoding error is never a panic, consumes nothing, and is permanent: every later call on
  the same buffer, with more bytes or not, reports the same error.\<close>

lemma decode_error_permanent:
  assumes "decode crc c src = (Inl e, c', src')"
  shows "e \<noteq> Panic \<and> src' = src \<and> decode crc c' (src @ t) = (Inl e, c', src @ t)"
  using assms decode_no_panic [of crc c src] decode_Inl_keeps [OF assms] decode_Inl_append
  by (metis fst_conv)

text \<open>The size check of \<open>encode\<close> is made on the length truncated to 32 bits: a payload of exactly
  \<open>2 ^ 32\<close> bytes passes it and is written behind a header that announces length zero.\<close>

lemma encode_length_wraps:
  assumes "length (payload f) = 2 ^ 32"
  shows "\<exists>h. encode crc f dst = Inr (dst @ h @ payload f) \<and> length h = HEADER_SIZE \<and>
     take 4 (drop 5 h) = [0, 0, 0, 0]"
proof -
  have "(of_nat (length (payload f)) :: u32) = 0" unfolding assms by (simp add: word_of_nat_eq_0_iff)
  then show ?thesis
    by (simp add: encode_def Let_def HEADER_SIZE_def be_bytes_expand MAX_PAYLOAD_SIZE_def)
qed

end
