(* ===== verification/Buf.thy ===== *)
theory Buf
  imports Codec
begin

text \<open>
  Reading typed values off the front of a buffer, as the message decoders of \<open>ceky-protocol\<close> do with
  \<open>bytes::Buf\<close> (a read past the end panics), and the
  locale \<open>wire_message\<close>: the contract of a message type with an encoder and a decoder, from
  which the delivery of the message through a frame follows once for all messages.
\<close>

subsection \<open>Cursor reads\<close>

definition get_bytes :: "nat \<Rightarrow> byte list \<Rightarrow> ('e, byte list \<times> byte list) res" where
  "get_bytes n buf = (if n \<le> length buf then Inr (take n buf, drop n buf) else Inl Panic)"

definition get_u8 :: "byte list \<Rightarrow> ('e, byte \<times> byte list) res" where
  "get_u8 buf = bindR (get_bytes 1 buf) (\<lambda>(b, r). Inr (of_be b, r))"

definition get_u16 :: "byte list \<Rightarrow> ('e, u16 \<times> byte list) res" where
  "get_u16 buf = bindR (get_bytes 2 buf) (\<lambda>(b, r). Inr (of_be b, r))"

definition get_u32 :: "byte list \<Rightarrow> ('e, u32 \<times> byte list) res" where
  "get_u32 buf = bindR (get_bytes 4 buf) (\<lambda>(b, r). Inr (of_be b, r))"

definition get_u64 :: "byte list \<Rightarrow> ('e, u64 \<times> byte list) res" where
  "get_u64 buf = bindR (get_bytes 8 buf) (\<lambda>(b, r). Inr (of_be b, r))"

lemma of_be_single [simp]: "of_be [b] = (b :: byte)"
  by (simp add: of_be_def)

lemma get_append [wire_simps]:
  "length xs = n \<Longrightarrow> get_bytes n (xs @ r) = Inr (xs, r)"
  "length xs = n \<Longrightarrow> get_bytes n xs = Inr (xs, [])"
  "get_u8 (b # r) = Inr (b, r)"
  "get_u16 (be_bytes 2 x16 @ r) = Inr (x16, r)"
  "get_u32 (be_bytes 4 x32 @ r) = Inr (x32, r)"
  "get_u64 (be_bytes 8 x64 @ r) = Inr (x64, r)"
  by (auto simp: get_bytes_def get_u8_def get_u16_def get_u32_def get_u64_def)

lemma get_long [no_panic]:
  "n \<le> length buf \<Longrightarrow> get_bytes n buf = Inr (take n buf, drop n buf)"
  "1 \<le> length buf \<Longrightarrow> get_u8 buf = Inr (of_be (take 1 buf), drop 1 buf)"
  "2 \<le> length buf \<Longrightarrow> get_u16 buf = Inr (of_be (take 2 buf), drop 2 buf)"
  "4 \<le> length buf \<Longrightarrow> get_u32 buf = Inr (of_be (take 4 buf), drop 4 buf)"
  "8 \<le> length buf \<Longrightarrow> get_u64 buf = Inr (of_be (take 8 buf), drop 8 buf)"
  by (simp_all add: get_bytes_def get_u8_def get_u16_def get_u32_def get_u64_def)

subsection \<open>The contract of a message\<close>

locale wire_message =
  fixes mtype :: MessageType
    and enc :: "'m \<Rightarrow> byte list"
    and dec :: "byte list \<Rightarrow> ('e, 'm) res"
    and ok :: "'m \<Rightarrow> bool"
  assumes dec_enc: "ok m \<Longrightarrow> dec (enc m) = Inr m"
    and dec_ok: "dec bs = Inr m \<Longrightarrow> ok m"
    and dec_no_panic: "dec bs \<noteq> Inl Panic"
begin

lemma enc_inj: "ok m \<Longrightarrow> ok n \<Longrightarrow> enc m = enc n \<Longrightarrow> m = n"
  by (metis dec_enc sum.inject(2))

lemma dec_enc_dec: "dec bs = Inr m \<Longrightarrow> dec (enc m) = Inr m"
  by (simp add: dec_enc dec_ok)

lemma dec_yields: "yields ok (dec bs)"
  using dec_no_panic dec_ok by (rule yieldsI)

lemma accepted_iff_ok: "ok m \<longleftrightarrow> (\<exists>bs. dec bs = Inr m)"
  using dec_enc dec_ok by blast

lemma delivered:
  assumes "ok m" and "length (enc m) \<le> unat MAX_PAYLOAD_SIZE"
  shows "\<exists>w f. encode crc (Frame_new mtype fl rid (enc m)) [] = Inr w \<and>
     decode crc FrameCodec_new (w @ rest) = (Inr (Some f), FrameCodec_new, rest) \<and>
     msg_type (header f) = mtype \<and> flags (header f) = fl \<and> request_id (header f) = rid \<and>
     dec (payload f) = Inr m"
proof -
  let ?f = "Frame_new mtype fl rid (enc m)"
  have ok: "frame_ok ?f" by (rule frame_ok_new [OF assms(2)])
  have "msg_type (header (seal crc ?f)) = mtype" "flags (header (seal crc ?f)) = fl"
    "request_id (header (seal crc ?f)) = rid" "payload (seal crc ?f) = enc m"
    by (simp_all add: seal_def Frame_new_def)
  then show ?thesis
    using encode_ok [OF ok, of crc "[]"] decode_wire [OF ok, of crc rest] dec_enc [OF assms(1)]
    by auto
qed

end

end
