(* ===== verification/Dht_Msg.thy ===== *)
theory Dht_Msg
  imports Buf
begin

text \<open>
  \<open>ceky-protocol/src/dht.rs\<close>: the \<open>FindNode\<close> request and the \<open>FindNodeResp\<close> answer, the encoding of
  peer ids and socket addresses inside them, and their round trips.
\<close>

subsection \<open>Primitive fields\<close>

definition DHT_VERSION :: byte where "DHT_VERSION = 1"

datatype DhtError =
    Dht_UnsupportedVersion byte
  | Dht_BufferTooShort nat nat
  | Dht_InvalidAddressFamily byte

definition dht_ensure_remaining :: "byte list \<Rightarrow> nat \<Rightarrow> (DhtError, unit) res" where
  "dht_ensure_remaining buf needed =
     (let got = length buf in
      if got < needed then Inl (Err (Dht_BufferTooShort needed got)) else Inr ())"

definition read_peer_id :: "byte list \<Rightarrow> (DhtError, byte list \<times> byte list) res" where
  "read_peer_id buf = bindR (dht_ensure_remaining buf 32) (\<lambda>_. get_bytes 32 buf)"

primrec write_socket_addr :: "SocketAddr \<Rightarrow> byte list" where
  "write_socket_addr (SockV4 ip p) = [4] @ ip @ be_bytes 2 p"
| "write_socket_addr (SockV6 ip p fl sc) = [6] @ ip @ be_bytes 2 p"

definition read_socket_addr :: "byte list \<Rightarrow> (DhtError, SocketAddr \<times> byte list) res" where
  "read_socket_addr buf =
     bindR (dht_ensure_remaining buf 1) (\<lambda>_.
     bindR (get_u8 buf) (\<lambda>(family, buf).
     if family = 4 then
       bindR (dht_ensure_remaining buf (4 + 2)) (\<lambda>_.
       bindR (get_bytes 4 buf) (\<lambda>(ip, buf).
       bindR (get_u16 buf) (\<lambda>(p, buf). Inr (SockV4 ip p, buf))))
     else if family = 6 then
       bindR (dht_ensure_remaining buf (16 + 2)) (\<lambda>_.
       bindR (get_bytes 16 buf) (\<lambda>(ip, buf).
       bindR (get_u16 buf) (\<lambda>(p, buf). Inr (SockV6 ip p 0 0, buf))))
     else Inl (Err (Dht_InvalidAddressFamily family))))"

subsection \<open>FindNode\<close>

record FindNode =
  target :: "byte list"

definition FindNode_encode :: "FindNode \<Rightarrow> byte list" where
  "FindNode_encode m = [DHT_VERSION] @ target m"

definition FindNode_decode :: "byte list \<Rightarrow> (DhtError, FindNode) res" where
  "FindNode_decode buf =
     bindR (dht_ensure_remaining buf (1 + 32)) (\<lambda>_.
     bindR (get_u8 buf) (\<lambda>(ver, buf).
     if ver \<noteq> DHT_VERSION then Inl (Err (Dht_UnsupportedVersion ver)) else
     bindR (read_peer_id buf) (\<lambda>(tgt, buf). Inr \<lparr>target = tgt\<rparr>)))"

subsection \<open>FindNodeResp\<close>

record FindNodeResp =
  resp_peers :: "(byte list \<times> SocketAddr) list"

definition FindNodeResp_encode :: "FindNodeResp \<Rightarrow> byte list" where
  "FindNodeResp_encode m =
     (let count = of_nat (min (length (resp_peers m)) 255) :: byte in
      [DHT_VERSION] @ [count] @
      concat (map (\<lambda>(pid, addr). pid @ write_socket_addr addr) (take (unat count) (resp_peers m))))"

fun read_peers :: "nat \<Rightarrow> byte list \<Rightarrow> (DhtError, (byte list \<times> SocketAddr) list) res" where
  "read_peers 0 buf = Inr []"
| "read_peers (Suc n) buf =
     bindR (read_peer_id buf) (\<lambda>(pid, buf).
     bindR (read_socket_addr buf) (\<lambda>(addr, buf).
     bindR (read_peers n buf) (\<lambda>ps. Inr ((pid, addr) # ps))))"

definition FindNodeResp_decode :: "byte list \<Rightarrow> (DhtError, FindNodeResp) res" where
  "FindNodeResp_decode buf =
     bindR (dht_ensure_remaining buf 2) (\<lambda>_.
     bindR (get_u8 buf) (\<lambda>(ver, buf).
     if ver \<noteq> DHT_VERSION then Inl (Err (Dht_UnsupportedVersion ver)) else
     bindR (get_u8 buf) (\<lambda>(count, buf).
     bindR (read_peers (unat count) buf) (\<lambda>ps. Inr \<lparr>resp_peers = ps\<rparr>))))"

subsection \<open>Round trips\<close>

lemma dht_ensure_simps [simp]:
  "n \<le> length buf \<Longrightarrow> dht_ensure_remaining buf n = Inr ()"
  "length buf < n \<Longrightarrow> dht_ensure_remaining buf n = Inl (Err (Dht_BufferTooShort n (length buf)))"
  by (simp_all add: dht_ensure_remaining_def)

lemma dht_ensure_cases:
  obtains "n \<le> length buf" | "dht_ensure_remaining buf n = Inl (Err (Dht_BufferTooShort n (length buf)))"
  by (meson dht_ensure_simps(2) not_le)

text \<open>The wire carries neither flow label nor scope id of an IPv6 address.\<close>

primrec strip_scope :: "SocketAddr \<Rightarrow> SocketAddr" where
  "strip_scope (SockV4 ip p) = SockV4 ip p"
| "strip_scope (SockV6 ip p fl sc) = SockV6 ip p 0 0"

definition peer_ok :: "byte list \<times> SocketAddr \<Rightarrow> bool" where
  "peer_ok p \<longleftrightarrow> length (fst p) = 32 \<and> sock_ok (snd p)"

lemma read_write_socket_addr [wire_simps]:
  "sock_ok a \<Longrightarrow> read_socket_addr (write_socket_addr a @ r) = Inr (strip_scope a, r)"
  by (cases a) (simp_all add: read_socket_addr_def wire_simps)

lemma read_socket_addr_Inr:
  "read_socket_addr buf = Inr (a, r) \<Longrightarrow> sock_ok a \<and> strip_scope a = a"
  by (auto simp: read_socket_addr_def bindR_Inr_iff get_bytes_def split: if_splits)

lemma read_peer_id_append [wire_simps]:
  "length pid = 32 \<Longrightarrow> read_peer_id (pid @ r) = Inr (pid, r)"
  by (simp add: read_peer_id_def wire_simps)

lemma read_peer_id_Inr: "read_peer_id buf = Inr (pid, r) \<Longrightarrow> length pid = 32"
  by (auto simp: read_peer_id_def bindR_Inr_iff get_bytes_def split: if_splits)

lemma read_peers_write:
  "list_all peer_ok ps \<Longrightarrow>
   read_peers (length ps) (concat (map (\<lambda>(pid, addr). pid @ write_socket_addr addr) ps) @ r) =
     Inr (map (apsnd strip_scope) ps)"
  by (induction ps) (auto simp: peer_ok_def wire_simps)

lemma read_peers_Inr:
  "read_peers n buf = Inr ps \<Longrightarrow>
   length ps = n \<and> list_all peer_ok ps \<and> map (apsnd strip_scope) ps = ps"
proof (induction n arbitrary: buf ps)
  case (Suc n)
  from Suc.prems obtain pid b addr b' qs where
    "read_peer_id buf = Inr (pid, b)" "read_socket_addr b = Inr (addr, b')"
    "read_peers n b' = Inr qs" "ps = (pid, addr) # qs"
    by (auto simp: bindR_Inr_iff)
  with Suc.IH show ?case
    by (auto simp: peer_ok_def dest!: read_peer_id_Inr read_socket_addr_Inr)
qed simp

lemma read_peer_id_no_panic [no_panic]: "read_peer_id buf \<noteq> Inl Panic"
  by (rule dht_ensure_cases [of 32 buf]) (simp_all add: read_peer_id_def no_panic)

lemma read_socket_addr_no_panic [no_panic]: "read_socket_addr buf \<noteq> Inl Panic"
  by (auto simp: read_socket_addr_def bindR_panic_iff dht_ensure_remaining_def Let_def no_panic
      get_bytes_def get_u8_def get_u16_def Suc_le_eq split: if_splits)

lemma read_peers_no_panic [no_panic]: "read_peers n buf \<noteq> Inl Panic"
  by (induction n arbitrary: buf) (auto simp: bindR_panic_iff no_panic)

definition FindNode_ok :: "FindNode \<Rightarrow> bool" where
  "FindNode_ok m \<longleftrightarrow> length (target m) = 32"

definition FindNodeResp_ok :: "FindNodeResp \<Rightarrow> bool" where
  "FindNodeResp_ok m \<longleftrightarrow> length (resp_peers m) \<le> 255 \<and> list_all peer_ok (resp_peers m) \<and>
     map (apsnd strip_scope) (resp_peers m) = resp_peers m"

lemma FindNodeResp_decode_encode:
  assumes "list_all peer_ok (resp_peers m)"
  shows "FindNodeResp_decode (FindNodeResp_encode m) =
     Inr \<lparr>resp_peers = map (apsnd strip_scope) (take 255 (resp_peers m))\<rparr>"
proof -
  let ?n = "min (length (resp_peers m)) 255" and ?ps = "take 255 (resp_peers m)"
  have n: "unat (of_nat ?n :: byte) = ?n" by (simp add: unat_of_nat)
  moreover have "length ?ps = ?n" "take ?n (resp_peers m) = ?ps" "list_all peer_ok ?ps"
    using assms by (auto simp: list_all_iff min_def dest: in_set_takeD)
  ultimately show ?thesis
    using read_peers_write [of ?ps "[]"]
    by (simp only: FindNodeResp_decode_def FindNodeResp_encode_def Let_def) (simp add: wire_simps)
qed

lemma FindNode_no_panic: "FindNode_decode bs \<noteq> Inl Panic"
  by (rule dht_ensure_cases [of "1 + 32" bs])
    (auto simp: FindNode_decode_def bindR_panic_iff no_panic split: if_splits)

interpretation find_node: wire_message FindNode FindNode_encode FindNode_decode FindNode_ok
proof
  show "FindNode_ok m \<Longrightarrow> FindNode_decode (FindNode_encode m) = Inr m" for m
    using read_peer_id_append [of "target m" "[]"]
    by (simp add: FindNode_ok_def FindNode_decode_def FindNode_encode_def wire_simps)
  show "FindNode_decode bs = Inr m \<Longrightarrow> FindNode_ok m" for bs m
    by (auto simp: FindNode_decode_def FindNode_ok_def bindR_Inr_iff dest: read_peer_id_Inr
        split: if_splits)
qed (rule FindNode_no_panic)

lemma FindNodeResp_no_panic: "FindNodeResp_decode bs \<noteq> Inl Panic"
  by (rule dht_ensure_cases [of 2 bs])
    (auto simp: FindNodeResp_decode_def bindR_panic_iff no_panic split: if_splits)

interpretation find_node_resp:
  wire_message FindNodeResp FindNodeResp_encode FindNodeResp_decode FindNodeResp_ok
proof
  show "FindNodeResp_ok m \<Longrightarrow> FindNodeResp_decode (FindNodeResp_encode m) = Inr m" for m
    by (simp add: FindNodeResp_ok_def FindNodeResp_decode_encode)
  show "FindNodeResp_decode bs = Inr m \<Longrightarrow> FindNodeResp_ok m" for bs m
    by (auto simp: FindNodeResp_decode_def FindNodeResp_ok_def bindR_Inr_iff unat_byte_le
        dest!: read_peers_Inr split: if_splits)
qed (rule FindNodeResp_no_panic)

subsection \<open>Correctness of the DHT messages\<close>

lemma length_write_socket_addr: "sock_ok a \<Longrightarrow> length (write_socket_addr a) \<le> 19"
  by (cases a) auto

lemma length_FindNodeResp_encode:
  assumes "list_all peer_ok (resp_peers m)"
  shows "length (FindNodeResp_encode m) \<le> unat MAX_PAYLOAD_SIZE"
proof -
  let ?enc = "\<lambda>p. case p of (pid, addr) \<Rightarrow> pid @ write_socket_addr addr"
  have "list_all peer_ok ps \<Longrightarrow> length (concat (map ?enc ps)) \<le> 51 * length ps" for ps
  proof (induction ps)
    case (Cons p ps)
    then have "length (?enc p) \<le> 51"
      using length_write_socket_addr [of "snd p"] by (auto simp: peer_ok_def split: prod.splits)
    with Cons show ?case by simp
  qed simp
  moreover have "list_all peer_ok (take n (resp_peers m))" for n
    using assms by (auto simp: list_all_iff dest: in_set_takeD)
  ultimately have "length (concat (map ?enc (take (unat c) (resp_peers m)))) \<le>
      51 * length (take (unat c) (resp_peers m))" for c :: byte by blast
  moreover have "51 * length (take (unat c) (resp_peers m)) \<le> 51 * 255" for c :: byte
    using unat_byte_le [of c] by (simp add: min.coboundedI2)
  ultimately have "length (concat (map ?enc (take (unat c) (resp_peers m)))) \<le> 51 * 255" for c :: byte
    using order_trans by blast
  note this [of "of_nat (min (length (resp_peers m)) 255)"]
  then show ?thesis
    unfolding FindNodeResp_encode_def Let_def unat_MAX_PAYLOAD_SIZE by simp
qed

text \<open>\<open>FindNodeResp::decode\<close> of \<open>FindNodeResp::encode\<close> gives the first 255 peers back, in order,
  with their ids, addresses and ports; of an IPv6 address the flow label and scope id are lost.\<close>

lemma find_node_resp_roundtrip:
  assumes "list_all peer_ok (resp_peers m)"
  shows "FindNodeResp_decode (FindNodeResp_encode m) =
     Inr \<lparr>resp_peers = map (apsnd strip_scope) (take 255 (resp_peers m))\<rparr>"
  by (rule FindNodeResp_decode_encode [OF assms])

text \<open>A \<open>FindNodeResp\<close> is always small enough for one frame, and sent in a frame of its type it
  arrives as the same message at the decoding side, leaving whatever follows in the buffer.\<close>

lemma find_node_resp_delivered:
  assumes "FindNodeResp_ok m"
  shows "\<exists>w f. encode crc (Frame_new FindNodeResp fl rid (FindNodeResp_encode m)) [] = Inr w \<and>
     decode crc FrameCodec_new (w @ rest) = (Inr (Some f), FrameCodec_new, rest) \<and>
     msg_type (header f) = FindNodeResp \<and> flags (header f) = fl \<and> request_id (header f) = rid \<and>
     FindNodeResp_decode (payload f) = Inr m"
  using assms by (intro find_node_resp.delivered length_FindNodeResp_encode) (simp_all add: FindNodeResp_ok_def)

end
