(* ===== verification/Transfer_Msg.thy ===== *)
theory Transfer_Msg
  imports Buf
begin

text \<open>
  \<open>ceky-protocol/src/transfer.rs\<close>: the seven file transfer messages with their encoders and
  decoders, the three one byte enumerations, the bitmap of missing chunks and the chunk count.  A
  Rust \<open>String\<close> is the list of its UTF-8 bytes; fixed size arrays are byte lists whose length the
  \<open>_ok\<close> predicates state.
\<close>

subsection \<open>Constants, errors, helpers\<close>

definition TRANSFER_VERSION :: byte where "TRANSFER_VERSION = 1"

definition TRANSFER_ID_LEN :: nat where "TRANSFER_ID_LEN = 16"

definition FILE_HASH_LEN :: nat where "FILE_HASH_LEN = 32"

definition MAX_FILE_NAME_LEN :: u16 where "MAX_FILE_NAME_LEN = 255"

datatype TransferError =
    Tr_UnsupportedVersion byte
  | Tr_BufferTooShort nat nat
  | Tr_InvalidField string
  | Tr_InvalidFileName
  | Tr_UnknownEnum string byte

datatype TransferId = TransferId "byte list"

primrec TransferId_as_bytes :: "TransferId \<Rightarrow> byte list" where
  "TransferId_as_bytes (TransferId bs) = bs"

definition TransferId_from_u128 :: "u128 \<Rightarrow> TransferId" where
  "TransferId_from_u128 v = TransferId (be_bytes 16 v)"

definition TransferId_to_u128 :: "TransferId \<Rightarrow> u128" where
  "TransferId_to_u128 t = of_be (TransferId_as_bytes t)"

definition tr_ensure_remaining :: "byte list \<Rightarrow> nat \<Rightarrow> (TransferError, unit) res" where
  "tr_ensure_remaining buf needed =
     (let got = length buf in
      if got < needed then Inl (Err (Tr_BufferTooShort needed got)) else Inr ())"

definition read_transfer_id :: "byte list \<Rightarrow> (TransferError, TransferId \<times> byte list) res" where
  "read_transfer_id buf =
     bindR (tr_ensure_remaining buf TRANSFER_ID_LEN) (\<lambda>_.
     bindR (get_bytes TRANSFER_ID_LEN buf) (\<lambda>(i, buf). Inr (TransferId i, buf)))"

definition read_fixed :: "nat \<Rightarrow> byte list \<Rightarrow> (TransferError, byte list \<times> byte list) res" where
  "read_fixed n buf = bindR (tr_ensure_remaining buf n) (\<lambda>_. get_bytes n buf)"

definition compute_total_chunks :: "u64 \<Rightarrow> u32 \<Rightarrow> u32" where
  "compute_total_chunks file_size chunk_size =
     (if file_size = 0 \<or> chunk_size = 0 then 0
      else let size = ucast chunk_size in ucast ((file_size - 1) div size + 1))"

subsection \<open>FileOffer\<close>

record FileOffer =
  fo_transfer_id :: TransferId
  fo_file_name :: "byte list"
  fo_file_size :: u64
  fo_chunk_size :: u32
  fo_total_chunks :: u32
  fo_file_hash :: "byte list"

definition FileOffer_new ::
    "TransferId \<Rightarrow> byte list \<Rightarrow> u64 \<Rightarrow> u32 \<Rightarrow> byte list \<Rightarrow> (TransferError, FileOffer) res" where
  "FileOffer_new tid file_name file_size chunk_size file_hash =
     (if chunk_size = 0 then Inl (Err (Tr_InvalidField ''chunk_size''))
      else if length file_name > unat MAX_FILE_NAME_LEN then Inl (Err (Tr_InvalidField ''file_name''))
      else Inr \<lparr>fo_transfer_id = tid, fo_file_name = file_name, fo_file_size = file_size,
        fo_chunk_size = chunk_size, fo_total_chunks = compute_total_chunks file_size chunk_size,
        fo_file_hash = file_hash\<rparr>)"

definition FileOffer_encode :: "FileOffer \<Rightarrow> byte list" where
  "FileOffer_encode m =
     [TRANSFER_VERSION] @ TransferId_as_bytes (fo_transfer_id m) @ be_bytes 8 (fo_file_size m)
     @ be_bytes 4 (fo_chunk_size m) @ be_bytes 4 (fo_total_chunks m) @ fo_file_hash m
     @ be_bytes 2 (of_nat (length (fo_file_name m)) :: u16) @ fo_file_name m"

definition FileOffer_decode :: "byte list \<Rightarrow> (TransferError, FileOffer) res" where
  "FileOffer_decode buf =
     bindR (tr_ensure_remaining buf (1 + TRANSFER_ID_LEN + 8 + 4 + 4 + FILE_HASH_LEN + 2)) (\<lambda>_.
     bindR (get_u8 buf) (\<lambda>(ver, buf).
     if ver \<noteq> TRANSFER_VERSION then Inl (Err (Tr_UnsupportedVersion ver)) else
     bindR (read_transfer_id buf) (\<lambda>(tid, buf).
     bindR (get_u64 buf) (\<lambda>(file_size, buf).
     bindR (get_u32 buf) (\<lambda>(chunk_size, buf).
     bindR (get_u32 buf) (\<lambda>(total_chunks, buf).
     bindR (read_fixed FILE_HASH_LEN buf) (\<lambda>(file_hash, buf).
     bindR (get_u16 buf) (\<lambda>(nlen, buf). let name_len = unat nlen in
     if name_len > unat MAX_FILE_NAME_LEN then Inl (Err (Tr_InvalidField ''file_name'')) else
     bindR (tr_ensure_remaining buf name_len) (\<lambda>_.
     bindR (get_bytes name_len buf) (\<lambda>(name_bytes, buf).
     if \<not> utf8_valid name_bytes then Inl (Err Tr_InvalidFileName) else
     if chunk_size = 0 then Inl (Err (Tr_InvalidField ''chunk_size'')) else
     Inr \<lparr>fo_transfer_id = tid, fo_file_name = name_bytes, fo_file_size = file_size,
       fo_chunk_size = chunk_size, fo_total_chunks = total_chunks, fo_file_hash = file_hash\<rparr>))))))))))"

subsection \<open>FileAccept\<close>

record FileAccept =
  fa_transfer_id :: TransferId
  fa_resume :: bool
  fa_missing_bitmap :: "byte list"

definition FileAccept_new :: "TransferId \<Rightarrow> byte list \<Rightarrow> FileAccept" where
  "FileAccept_new tid bm =
     \<lparr>fa_transfer_id = tid, fa_resume = (bm \<noteq> []), fa_missing_bitmap = bm\<rparr>"

definition FileAccept_encode :: "FileAccept \<Rightarrow> byte list" where
  "FileAccept_encode m =
     [TRANSFER_VERSION] @ TransferId_as_bytes (fa_transfer_id m) @ [of_bool (fa_resume m)]
     @ be_bytes 4 (of_nat (length (fa_missing_bitmap m)) :: u32) @ fa_missing_bitmap m"

definition FileAccept_decode :: "byte list \<Rightarrow> (TransferError, FileAccept) res" where
  "FileAccept_decode buf =
     bindR (tr_ensure_remaining buf (1 + TRANSFER_ID_LEN + 1 + 4)) (\<lambda>_.
     bindR (get_u8 buf) (\<lambda>(ver, buf).
     if ver \<noteq> TRANSFER_VERSION then Inl (Err (Tr_UnsupportedVersion ver)) else
     bindR (read_transfer_id buf) (\<lambda>(tid, buf).
     bindR (get_u8 buf) (\<lambda>(rb, buf). let resume = (rb \<noteq> 0) in
     bindR (get_u32 buf) (\<lambda>(bl, buf). let bitmap_len = unat bl in
     if \<not> resume \<and> bitmap_len \<noteq> 0 then Inl (Err (Tr_InvalidField ''missing_bitmap'')) else
     bindR (tr_ensure_remaining buf bitmap_len) (\<lambda>_.
     bindR (get_bytes bitmap_len buf) (\<lambda>(bm, buf).
     Inr \<lparr>fa_transfer_id = tid, fa_resume = resume, fa_missing_bitmap = bm\<rparr>)))))))"

subsection \<open>FileReject\<close>

datatype FileRejectReason = Declined | Busy | NotFound | Protocol | Internal

primrec FileRejectReason_as_byte :: "FileRejectReason \<Rightarrow> byte" where
  "FileRejectReason_as_byte Declined = 1"
| "FileRejectReason_as_byte Busy = 2"
| "FileRejectReason_as_byte NotFound = 3"
| "FileRejectReason_as_byte Protocol = 4"
| "FileRejectReason_as_byte Internal = 5"

definition FileRejectReason_from_byte :: "byte \<Rightarrow> (TransferError, FileRejectReason) res" where
  "FileRejectReason_from_byte v =
     (if v = 1 then Inr Declined else if v = 2 then Inr Busy else if v = 3 then Inr NotFound
      else if v = 4 then Inr Protocol else if v = 5 then Inr Internal
      else Inl (Err (Tr_UnknownEnum ''FileRejectReason'' v)))"

record FileReject =
  fr_transfer_id :: TransferId
  fr_reason :: FileRejectReason

definition FileReject_encode :: "FileReject \<Rightarrow> byte list" where
  "FileReject_encode m =
     [TRANSFER_VERSION] @ TransferId_as_bytes (fr_transfer_id m) @ [FileRejectReason_as_byte (fr_reason m)]"

definition FileReject_decode :: "byte list \<Rightarrow> (TransferError, FileReject) res" where
  "FileReject_decode buf =
     bindR (tr_ensure_remaining buf (1 + TRANSFER_ID_LEN + 1)) (\<lambda>_.
     bindR (get_u8 buf) (\<lambda>(ver, buf).
     if ver \<noteq> TRANSFER_VERSION then Inl (Err (Tr_UnsupportedVersion ver)) else
     bindR (read_transfer_id buf) (\<lambda>(tid, buf).
     bindR (get_u8 buf) (\<lambda>(rb, buf).
     bindR (FileRejectReason_from_byte rb) (\<lambda>reason.
     Inr \<lparr>fr_transfer_id = tid, fr_reason = reason\<rparr>)))))"

subsection \<open>FileChunk\<close>

record FileChunk =
  fc_transfer_id :: TransferId
  fc_chunk_index :: u32
  fc_chunk_hash :: "byte list"
  fc_data :: "byte list"

definition FileChunk_encode :: "FileChunk \<Rightarrow> byte list" where
  "FileChunk_encode m =
     [TRANSFER_VERSION] @ TransferId_as_bytes (fc_transfer_id m) @ be_bytes 4 (fc_chunk_index m)
     @ fc_chunk_hash m @ fc_data m"

definition FileChunk_decode :: "byte list \<Rightarrow> (TransferError, FileChunk) res" where
  "FileChunk_decode buf =
     bindR (tr_ensure_remaining buf (1 + TRANSFER_ID_LEN + 4 + FILE_HASH_LEN)) (\<lambda>_.
     bindR (get_u8 buf) (\<lambda>(ver, buf).
     if ver \<noteq> TRANSFER_VERSION then Inl (Err (Tr_UnsupportedVersion ver)) else
     bindR (read_transfer_id buf) (\<lambda>(tid, buf).
     bindR (get_u32 buf) (\<lambda>(chunk_index, buf).
     bindR (read_fixed FILE_HASH_LEN buf) (\<lambda>(chunk_hash, buf).
     bindR (get_bytes (length buf) buf) (\<lambda>(dat, buf).
     Inr \<lparr>fc_transfer_id = tid, fc_chunk_index = chunk_index, fc_chunk_hash = chunk_hash,
       fc_data = dat\<rparr>))))))"

subsection \<open>FileChunkAck\<close>

datatype ChunkAckStatus = AckOk | BadHash | Cancelled

primrec ChunkAckStatus_as_byte :: "ChunkAckStatus \<Rightarrow> byte" where
  "ChunkAckStatus_as_byte AckOk = 0"
| "ChunkAckStatus_as_byte BadHash = 1"
| "ChunkAckStatus_as_byte Cancelled = 2"

definition ChunkAckStatus_from_byte :: "byte \<Rightarrow> (TransferError, ChunkAckStatus) res" where
  "ChunkAckStatus_from_byte v =
     (if v = 0 then Inr AckOk else if v = 1 then Inr BadHash else if v = 2 then Inr Cancelled
      else Inl (Err (Tr_UnknownEnum ''ChunkAckStatus'' v)))"

record FileChunkAck =
  ack_transfer_id :: TransferId
  ack_chunk_index :: u32
  ack_status :: ChunkAckStatus

definition FileChunkAck_encode :: "FileChunkAck \<Rightarrow> byte list" where
  "FileChunkAck_encode m =
     [TRANSFER_VERSION] @ TransferId_as_bytes (ack_transfer_id m) @ be_bytes 4 (ack_chunk_index m)
     @ [ChunkAckStatus_as_byte (ack_status m)]"

definition FileChunkAck_decode :: "byte list \<Rightarrow> (TransferError, FileChunkAck) res" where
  "FileChunkAck_decode buf =
     bindR (tr_ensure_remaining buf (1 + TRANSFER_ID_LEN + 4 + 1)) (\<lambda>_.
     bindR (get_u8 buf) (\<lambda>(ver, buf).
     if ver \<noteq> TRANSFER_VERSION then Inl (Err (Tr_UnsupportedVersion ver)) else
     bindR (read_transfer_id buf) (\<lambda>(tid, buf).
     bindR (get_u32 buf) (\<lambda>(chunk_index, buf).
     bindR (get_u8 buf) (\<lambda>(sb, buf).
     bindR (ChunkAckStatus_from_byte sb) (\<lambda>status.
     Inr \<lparr>ack_transfer_id = tid, ack_chunk_index = chunk_index, ack_status = status\<rparr>))))))"

subsection \<open>FileComplete\<close>

record FileComplete =
  fcomp_transfer_id :: TransferId
  fcomp_file_hash :: "byte list"

definition FileComplete_encode :: "FileComplete \<Rightarrow> byte list" where
  "FileComplete_encode m =
     [TRANSFER_VERSION] @ TransferId_as_bytes (fcomp_transfer_id m) @ fcomp_file_hash m"

definition FileComplete_decode :: "byte list \<Rightarrow> (TransferError, FileComplete) res" where
  "FileComplete_decode buf =
     bindR (tr_ensure_remaining buf (1 + TRANSFER_ID_LEN + FILE_HASH_LEN)) (\<lambda>_.
     bindR (get_u8 buf) (\<lambda>(ver, buf).
     if ver \<noteq> TRANSFER_VERSION then Inl (Err (Tr_UnsupportedVersion ver)) else
     bindR (read_transfer_id buf) (\<lambda>(tid, buf).
     bindR (read_fixed FILE_HASH_LEN buf) (\<lambda>(file_hash, buf).
     Inr \<lparr>fcomp_transfer_id = tid, fcomp_file_hash = file_hash\<rparr>))))"

subsection \<open>FileCancel\<close>

datatype FileCancelReason = CancelUser | CancelError | CancelTimeout

primrec FileCancelReason_as_byte :: "FileCancelReason \<Rightarrow> byte" where
  "FileCancelReason_as_byte CancelUser = 1"
| "FileCancelReason_as_byte CancelError = 2"
| "FileCancelReason_as_byte CancelTimeout = 3"

definition FileCancelReason_from_byte :: "byte \<Rightarrow> (TransferError, FileCancelReason) res" where
  "FileCancelReason_from_byte v =
     (if v = 1 then Inr CancelUser else if v = 2 then Inr CancelError
      else if v = 3 then Inr CancelTimeout
      else Inl (Err (Tr_UnknownEnum ''FileCancelReason'' v)))"

record FileCancel =
  fcan_transfer_id :: TransferId
  fcan_reason :: FileCancelReason

definition FileCancel_encode :: "FileCancel \<Rightarrow> byte list" where
  "FileCancel_encode m =
     [TRANSFER_VERSION] @ TransferId_as_bytes (fcan_transfer_id m)
     @ [FileCancelReason_as_byte (fcan_reason m)]"

definition FileCancel_decode :: "byte list \<Rightarrow> (TransferError, FileCancel) res" where
  "FileCancel_decode buf =
     bindR (tr_ensure_remaining buf (1 + TRANSFER_ID_LEN + 1)) (\<lambda>_.
     bindR (get_u8 buf) (\<lambda>(ver, buf).
     if ver \<noteq> TRANSFER_VERSION then Inl (Err (Tr_UnsupportedVersion ver)) else
     bindR (read_transfer_id buf) (\<lambda>(tid, buf).
     bindR (get_u8 buf) (\<lambda>(rb, buf).
     bindR (FileCancelReason_from_byte rb) (\<lambda>reason.
     Inr \<lparr>fcan_transfer_id = tid, fcan_reason = reason\<rparr>)))))"

subsection \<open>The bitmap of missing chunks\<close>

definition bitmap_len :: "u32 \<Rightarrow> nat" where
  "bitmap_len chunk_count = (unat chunk_count + 7) div 8"

definition bitmap_is_missing :: "byte list \<Rightarrow> u32 \<Rightarrow> bool" where
  "bitmap_is_missing bitmap chunk_index =
     (let byte_index = unat (chunk_index div 8);
          bit_index = unat (chunk_index mod 8) in
      if byte_index \<ge> length bitmap then False
      else bitmap ! byte_index AND push_bit bit_index 1 \<noteq> 0)"

definition bitmap_set_missing :: "byte list \<Rightarrow> u32 \<Rightarrow> bool \<Rightarrow> byte list" where
  "bitmap_set_missing bitmap chunk_index missing =
     (let byte_index = unat (chunk_index div 8);
          bit_index = unat (chunk_index mod 8) in
      if byte_index \<ge> length bitmap then bitmap
      else let mask = push_bit bit_index 1 in
        if missing then bitmap[byte_index := bitmap ! byte_index OR mask]
        else bitmap[byte_index := bitmap ! byte_index AND NOT mask])"

subsection \<open>Round trips\<close>

lemma tr_ensure_simps [simp]:
  "n \<le> length buf \<Longrightarrow> tr_ensure_remaining buf n = Inr ()"
  "length buf < n \<Longrightarrow> tr_ensure_remaining buf n = Inl (Err (Tr_BufferTooShort n (length buf)))"
  by (simp_all add: tr_ensure_remaining_def)

lemma tr_ensure_cases:
  obtains "n \<le> length buf" | "tr_ensure_remaining buf n = Inl (Err (Tr_BufferTooShort n (length buf)))"
  by (meson tr_ensure_simps(2) not_le)

definition tid_ok :: "TransferId \<Rightarrow> bool" where
  "tid_ok t \<longleftrightarrow> length (TransferId_as_bytes t) = TRANSFER_ID_LEN"

lemmas tr_lens = TRANSFER_ID_LEN_def FILE_HASH_LEN_def

lemma read_transfer_id_append [wire_simps]:
  "tid_ok t \<Longrightarrow> read_transfer_id (TransferId_as_bytes t @ r) = Inr (t, r)"
  by (cases t) (simp add: read_transfer_id_def tid_ok_def wire_simps)

lemma read_fixed_append [wire_simps]:
  "length xs = n \<Longrightarrow> read_fixed n (xs @ r) = Inr (xs, r)"
  "length xs = n \<Longrightarrow> read_fixed n xs = Inr (xs, [])"
  by (simp_all add: read_fixed_def wire_simps)

lemma read_transfer_id_long [no_panic]:
  "16 \<le> length buf \<Longrightarrow> read_transfer_id buf = Inr (TransferId (take 16 buf), drop 16 buf)"
  by (simp add: read_transfer_id_def no_panic tr_lens)

lemma read_fixed_long [no_panic]:
  "n \<le> length buf \<Longrightarrow> read_fixed n buf = Inr (take n buf, drop n buf)"
  by (simp add: read_fixed_def no_panic)

lemma read_transfer_id_Inr: "read_transfer_id buf = Inr (t, r) \<Longrightarrow> tid_ok t"
  by (auto simp: read_transfer_id_def tid_ok_def bindR_Inr_iff get_bytes_def split: if_splits)

lemma read_fixed_Inr: "read_fixed n buf = Inr (xs, r) \<Longrightarrow> length xs = n"
  by (auto simp: read_fixed_def bindR_Inr_iff get_bytes_def split: if_splits)

lemma get_bytes_Inr: "get_bytes n buf = Inr (xs, r) \<Longrightarrow> length xs = n"
  by (auto simp: get_bytes_def split: if_splits)

lemma TransferId_u128: "TransferId_to_u128 (TransferId_from_u128 v) = v"
  by (simp add: TransferId_to_u128_def TransferId_from_u128_def)

lemma u128_TransferId: "tid_ok t \<Longrightarrow> TransferId_from_u128 (TransferId_to_u128 t) = t"
  by (cases t) (simp add: TransferId_to_u128_def TransferId_from_u128_def tid_ok_def tr_lens)

definition FileOffer_ok :: "FileOffer \<Rightarrow> bool" where
  "FileOffer_ok m \<longleftrightarrow> tid_ok (fo_transfer_id m) \<and> length (fo_file_hash m) = FILE_HASH_LEN \<and>
     length (fo_file_name m) \<le> 255 \<and> utf8_valid (fo_file_name m) \<and> fo_chunk_size m \<noteq> 0"

definition FileAccept_ok :: "FileAccept \<Rightarrow> bool" where
  "FileAccept_ok m \<longleftrightarrow> tid_ok (fa_transfer_id m) \<and> length (fa_missing_bitmap m) < 2 ^ 32 \<and>
     (fa_resume m \<or> fa_missing_bitmap m = [])"

definition FileReject_ok :: "FileReject \<Rightarrow> bool" where
  "FileReject_ok m \<longleftrightarrow> tid_ok (fr_transfer_id m)"

definition FileChunk_ok :: "FileChunk \<Rightarrow> bool" where
  "FileChunk_ok m \<longleftrightarrow> tid_ok (fc_transfer_id m) \<and> length (fc_chunk_hash m) = FILE_HASH_LEN"

definition FileChunkAck_ok :: "FileChunkAck \<Rightarrow> bool" where
  "FileChunkAck_ok m \<longleftrightarrow> tid_ok (ack_transfer_id m)"

definition FileComplete_ok :: "FileComplete \<Rightarrow> bool" where
  "FileComplete_ok m \<longleftrightarrow> tid_ok (fcomp_transfer_id m) \<and> length (fcomp_file_hash m) = FILE_HASH_LEN"

definition FileCancel_ok :: "FileCancel \<Rightarrow> bool" where
  "FileCancel_ok m \<longleftrightarrow> tid_ok (fcan_transfer_id m)"

lemmas msg_ok_defs = FileOffer_ok_def FileAccept_ok_def FileReject_ok_def FileChunk_ok_def
  FileChunkAck_ok_def FileComplete_ok_def FileCancel_ok_def

definition opt_of :: "('e, 'a) res \<Rightarrow> 'a option" where
  "opt_of r = (case r of Inr a \<Rightarrow> Some a | Inl _ \<Rightarrow> None)"

interpretation reject_code: byte_code FileRejectReason_as_byte "\<lambda>b. opt_of (FileRejectReason_from_byte b)"
proof
  show "opt_of (FileRejectReason_from_byte (FileRejectReason_as_byte t)) = Some t" for t
    by (cases t) (simp_all add: opt_of_def FileRejectReason_from_byte_def)
qed (auto simp: opt_of_def FileRejectReason_from_byte_def split: if_splits)

interpretation ack_code: byte_code ChunkAckStatus_as_byte "\<lambda>b. opt_of (ChunkAckStatus_from_byte b)"
proof
  show "opt_of (ChunkAckStatus_from_byte (ChunkAckStatus_as_byte t)) = Some t" for t
    by (cases t) (simp_all add: opt_of_def ChunkAckStatus_from_byte_def)
qed (auto simp: opt_of_def ChunkAckStatus_from_byte_def split: if_splits)

interpretation cancel_code: byte_code FileCancelReason_as_byte "\<lambda>b. opt_of (FileCancelReason_from_byte b)"
proof
  show "opt_of (FileCancelReason_from_byte (FileCancelReason_as_byte t)) = Some t" for t
    by (cases t) (simp_all add: opt_of_def FileCancelReason_from_byte_def)
qed (auto simp: opt_of_def FileCancelReason_from_byte_def split: if_splits)

lemma opt_of_Some [simp]: "opt_of r = Some a \<longleftrightarrow> r = Inr a"
  by (auto simp: opt_of_def split: sum.splits)

lemmas enum_codes [simp] =
  reject_code.from_as [simplified] ack_code.from_as [simplified] cancel_code.from_as [simplified]

lemma enum_no_panic [no_panic]:
  "FileRejectReason_from_byte b \<noteq> Inl Panic"
  "ChunkAckStatus_from_byte b \<noteq> Inl Panic"
  "FileCancelReason_from_byte b \<noteq> Inl Panic"
  by (simp_all add: FileRejectReason_from_byte_def ChunkAckStatus_from_byte_def
      FileCancelReason_from_byte_def)

lemma unat_of_nat_small:
  "n \<le> 255 \<Longrightarrow> unat (of_nat n :: u16) = n"
  "n < 4294967296 \<Longrightarrow> unat (of_nat n :: u32) = n"
  by (simp_all add: unat_of_nat)

lemmas msg_dest = read_transfer_id_Inr read_fixed_Inr get_bytes_Inr

interpretation file_offer: wire_message FileOffer FileOffer_encode FileOffer_decode FileOffer_ok
proof
  show "FileOffer_ok m \<Longrightarrow> FileOffer_decode (FileOffer_encode m) = Inr m" for m
    by (simp add: msg_ok_defs FileOffer_decode_def FileOffer_encode_def wire_simps tid_ok_def [symmetric]
        unat_of_nat_small MAX_FILE_NAME_LEN_def) (simp add: tid_ok_def tr_lens)
  show "FileOffer_decode bs = Inr m \<Longrightarrow> FileOffer_ok m" for bs m
    by (auto simp: FileOffer_decode_def msg_ok_defs bindR_Inr_iff Let_def MAX_FILE_NAME_LEN_def
        dest!: msg_dest split: if_splits)
  show "FileOffer_decode bs \<noteq> Inl Panic" for bs
    by (rule tr_ensure_cases [of "1 + TRANSFER_ID_LEN + 8 + 4 + 4 + FILE_HASH_LEN + 2" bs])
      (auto simp: FileOffer_decode_def Let_def no_panic tr_lens tr_ensure_remaining_def bindR_panic_iff)
qed

interpretation file_accept: wire_message FileAccept FileAccept_encode FileAccept_decode FileAccept_ok
proof
  show "FileAccept_ok m \<Longrightarrow> FileAccept_decode (FileAccept_encode m) = Inr m" for m
    by (auto simp: msg_ok_defs FileAccept_decode_def FileAccept_encode_def wire_simps
        tid_ok_def [symmetric] unat_of_nat_small) (simp_all add: tid_ok_def tr_lens)
  show "FileAccept_decode bs = Inr m \<Longrightarrow> FileAccept_ok m" for bs m
    using unsigned_less [where 'a = nat and 'b = 32]
    by (auto simp: FileAccept_decode_def msg_ok_defs bindR_Inr_iff Let_def
        dest!: msg_dest split: if_splits)
  show "FileAccept_decode bs \<noteq> Inl Panic" for bs
    by (rule tr_ensure_cases [of "1 + TRANSFER_ID_LEN + 1 + 4" bs])
      (auto simp: FileAccept_decode_def Let_def no_panic tr_lens tr_ensure_remaining_def bindR_panic_iff)
qed

interpretation file_reject: wire_message FileReject FileReject_encode FileReject_decode FileReject_ok
proof
  show "FileReject_ok m \<Longrightarrow> FileReject_decode (FileReject_encode m) = Inr m" for m
    by (simp add: msg_ok_defs FileReject_decode_def FileReject_encode_def wire_simps)
      (simp add: tid_ok_def tr_lens)
  show "FileReject_decode bs = Inr m \<Longrightarrow> FileReject_ok m" for bs m
    by (auto simp: FileReject_decode_def msg_ok_defs bindR_Inr_iff dest!: msg_dest split: if_splits)
  show "FileReject_decode bs \<noteq> Inl Panic" for bs
    by (rule tr_ensure_cases [of "1 + TRANSFER_ID_LEN + 1" bs])
      (auto simp: FileReject_decode_def no_panic tr_lens bindR_panic_iff)
qed

interpretation file_chunk: wire_message FileChunk FileChunk_encode FileChunk_decode FileChunk_ok
proof
  show "FileChunk_ok m \<Longrightarrow> FileChunk_decode (FileChunk_encode m) = Inr m" for m
    by (simp add: msg_ok_defs FileChunk_decode_def FileChunk_encode_def wire_simps)
      (simp add: tid_ok_def tr_lens)
  show "FileChunk_decode bs = Inr m \<Longrightarrow> FileChunk_ok m" for bs m
    by (auto simp: FileChunk_decode_def msg_ok_defs bindR_Inr_iff dest!: msg_dest split: if_splits)
  show "FileChunk_decode bs \<noteq> Inl Panic" for bs
    by (rule tr_ensure_cases [of "1 + TRANSFER_ID_LEN + 4 + FILE_HASH_LEN" bs])
      (auto simp: FileChunk_decode_def no_panic tr_lens bindR_panic_iff)
qed

interpretation file_chunk_ack:
  wire_message FileChunkAck FileChunkAck_encode FileChunkAck_decode FileChunkAck_ok
proof
  show "FileChunkAck_ok m \<Longrightarrow> FileChunkAck_decode (FileChunkAck_encode m) = Inr m" for m
    by (simp add: msg_ok_defs FileChunkAck_decode_def FileChunkAck_encode_def wire_simps)
      (simp add: tid_ok_def tr_lens)
  show "FileChunkAck_decode bs = Inr m \<Longrightarrow> FileChunkAck_ok m" for bs m
    by (auto simp: FileChunkAck_decode_def msg_ok_defs bindR_Inr_iff dest!: msg_dest split: if_splits)
  show "FileChunkAck_decode bs \<noteq> Inl Panic" for bs
    by (rule tr_ensure_cases [of "1 + TRANSFER_ID_LEN + 4 + 1" bs])
      (auto simp: FileChunkAck_decode_def no_panic tr_lens bindR_panic_iff)
qed

interpretation file_complete:
  wire_message FileComplete FileComplete_encode FileComplete_decode FileComplete_ok
proof
  show "FileComplete_ok m \<Longrightarrow> FileComplete_decode (FileComplete_encode m) = Inr m" for m
    by (simp add: msg_ok_defs FileComplete_decode_def FileComplete_encode_def wire_simps)
      (simp add: tid_ok_def tr_lens)
  show "FileComplete_decode bs = Inr m \<Longrightarrow> FileComplete_ok m" for bs m
    by (auto simp: FileComplete_decode_def msg_ok_defs bindR_Inr_iff dest!: msg_dest split: if_splits)
  show "FileComplete_decode bs \<noteq> Inl Panic" for bs
    by (rule tr_ensure_cases [of "1 + TRANSFER_ID_LEN + FILE_HASH_LEN" bs])
      (auto simp: FileComplete_decode_def no_panic tr_lens bindR_panic_iff)
qed

interpretation file_cancel: wire_message FileCancel FileCancel_encode FileCancel_decode FileCancel_ok
proof
  show "FileCancel_ok m \<Longrightarrow> FileCancel_decode (FileCancel_encode m) = Inr m" for m
    by (simp add: msg_ok_defs FileCancel_decode_def FileCancel_encode_def wire_simps)
      (simp add: tid_ok_def tr_lens)
  show "FileCancel_decode bs = Inr m \<Longrightarrow> FileCancel_ok m" for bs m
    by (auto simp: FileCancel_decode_def msg_ok_defs bindR_Inr_iff dest!: msg_dest split: if_splits)
  show "FileCancel_decode bs \<noteq> Inl Panic" for bs
    by (rule tr_ensure_cases [of "1 + TRANSFER_ID_LEN + 1" bs])
      (auto simp: FileCancel_decode_def no_panic tr_lens bindR_panic_iff)
qed

subsection \<open>The bitmap as a set\<close>

text \<open>A bitmap of \<open>n\<close> bytes stands for a set of chunk indices below \<open>8 * n\<close>.\<close>

definition missing_set :: "byte list \<Rightarrow> u32 set" where
  "missing_set bm = {i. bitmap_is_missing bm i}"

lemma bitmap_is_missing_bit:
  "bitmap_is_missing bm i \<longleftrightarrow>
     unat i div 8 < length bm \<and> bit (bm ! (unat i div 8)) (unat i mod 8)"
  unfolding bitmap_is_missing_def Let_def and_mask_iff
  by (auto simp: unat_div_distrib unat_mod_distrib)

lemma length_bitmap_set_missing [simp]: "length (bitmap_set_missing bm i b) = length bm"
  by (simp add: bitmap_set_missing_def Let_def)

lemma bitmap_is_missing_set:
  "bitmap_is_missing (bitmap_set_missing bm i b) j \<longleftrightarrow>
     (if j = i \<and> unat i div 8 < length bm then b else bitmap_is_missing bm j)"
proof -
  have eq: "unat j div 8 = unat i div 8 \<Longrightarrow> unat j mod 8 = unat i mod 8 \<longleftrightarrow> j = i"
    by (metis div_mult_mod_eq word_unat_eq_iff)
  have "unat (i mod 8) < 8" by (simp add: unat_mod_distrib)
  then show ?thesis
    unfolding bitmap_is_missing_bit length_bitmap_set_missing
    using eq
    by (cases "unat j div 8 = unat i div 8")
      (auto simp: bitmap_set_missing_def Let_def bit_or_mask bit_and_not_mask unat_div_distrib
        unat_mod_distrib nth_list_update simp del: push_bit_of_1)
qed

lemma bitmap_len_covers: "i < n \<Longrightarrow> unat i div 8 < bitmap_len n"
  by (simp add: bitmap_len_def word_less_nat_alt)

lemma unat_compute_total_chunks:
  "unat (compute_total_chunks fs cs) =
     (if cs = 0 then 0 else ((unat fs + unat cs - 1) div unat cs) mod 2 ^ 32)"
proof (cases "fs = 0 \<or> cs = 0")
  case True
  then show ?thesis
    by (auto simp: compute_total_chunks_def unat_gt_0 intro!: div_less)
next
  case False
  let ?f = "unat fs" and ?c = "unat cs"
  have pos: "0 < ?f" "0 < ?c" using False by (simp_all add: unat_gt_0)
  have u: "unat (ucast cs :: u64) = ?c"
    using unsigned_less [of cs, where 'a = nat] by (simp add: unsigned_ucast_eq take_bit_eq_mod)
  have f: "unat (fs - 1) = ?f - 1" using False by (simp add: unat_minus_one)
  have "unat ((fs - 1) div ucast cs) = (?f - 1) div ?c" by (simp add: unat_div_distrib f u)
  moreover have "?f - 1 < 2 ^ 64 - 1" using unsigned_less [of fs, where 'a = nat] pos by simp
  then have "(?f - 1) div ?c < 2 ^ 64 - 1" by (rule le_less_trans [OF div_le_dividend])
  ultimately have "unat ((fs - 1) div ucast cs + 1) = (?f - 1) div ?c + 1"
    by (simp add: unat_word_ariths)
  moreover have "(?f + ?c - 1) div ?c = (?f - 1) div ?c + 1"
    using pos by (metis Nat.add_diff_assoc2 One_nat_def Suc_leI div_add_self2 less_not_refl2)
  ultimately show ?thesis
    using False by (simp add: compute_total_chunks_def unsigned_ucast_eq take_bit_eq_mod)
qed

lemma ceil_div_covers:
  assumes "0 < (c :: nat)" and "n = (s + c - 1) div c"
  shows "s \<le> n * c" and "0 < s \<Longrightarrow> (n - 1) * c < s"
proof -
  have "(s + c - 1) = n * c + (s + c - 1) mod c" using assms(2) by (metis div_mult_mod_eq)
  moreover have "(s + c - 1) mod c \<le> c - 1" using assms(1) by (simp add: less_Suc_eq_le [symmetric])
  ultimately show "s \<le> n * c" and "0 < s \<Longrightarrow> (n - 1) * c < s"
    using assms(1) by (simp_all add: diff_mult_distrib)
qed

subsection \<open>Correctness of the transfer messages\<close>

lemma FileOffer_new_ok:
  assumes "FileOffer_new tid name fs cs h = Inr m" "tid_ok tid" "utf8_valid name" "length h = FILE_HASH_LEN"
  shows "FileOffer_ok m"
  using assms by (auto simp: FileOffer_new_def FileOffer_ok_def MAX_FILE_NAME_LEN_def split: if_splits)

lemma FileAccept_new_ok:
  "tid_ok tid \<Longrightarrow> length bm < 2 ^ 32 \<Longrightarrow> FileAccept_ok (FileAccept_new tid bm)"
  by (simp add: FileAccept_new_def FileAccept_ok_def)

text \<open>C34. An offer made by \<open>FileOffer::new\<close> and an answer made by \<open>FileAccept::new\<close>, and every
  well-formed message of the other five kinds, is what its decoder reads from its encoding.\<close>

theorem transfer_messages_roundtrip:
  assumes "tid_ok tid" and "length h = FILE_HASH_LEN"
    and "utf8_valid name" and "FileOffer_new tid name fs cs h = Inr offer" and "length bm < 2 ^ 32"
  shows "FileOffer_decode (FileOffer_encode offer) = Inr offer \<and>
    FileAccept_decode (FileAccept_encode (FileAccept_new tid bm)) = Inr (FileAccept_new tid bm) \<and>
    FileReject_decode (FileReject_encode \<lparr>fr_transfer_id = tid, fr_reason = rr\<rparr>) =
      Inr \<lparr>fr_transfer_id = tid, fr_reason = rr\<rparr> \<and>
    FileChunk_decode (FileChunk_encode
        \<lparr>fc_transfer_id = tid, fc_chunk_index = i, fc_chunk_hash = h, fc_data = d\<rparr>) =
      Inr \<lparr>fc_transfer_id = tid, fc_chunk_index = i, fc_chunk_hash = h, fc_data = d\<rparr> \<and>
    FileChunkAck_decode (FileChunkAck_encode
        \<lparr>ack_transfer_id = tid, ack_chunk_index = i, ack_status = st\<rparr>) =
      Inr \<lparr>ack_transfer_id = tid, ack_chunk_index = i, ack_status = st\<rparr> \<and>
    FileComplete_decode (FileComplete_encode \<lparr>fcomp_transfer_id = tid, fcomp_file_hash = h\<rparr>) =
      Inr \<lparr>fcomp_transfer_id = tid, fcomp_file_hash = h\<rparr> \<and>
    FileCancel_decode (FileCancel_encode \<lparr>fcan_transfer_id = tid, fcan_reason = cr\<rparr>) =
      Inr \<lparr>fcan_transfer_id = tid, fcan_reason = cr\<rparr>"
  using assms FileOffer_new_ok [OF assms(4,1,3,2)]
  by (simp add: file_offer.dec_enc file_accept.dec_enc file_reject.dec_enc file_chunk.dec_enc
      file_chunk_ack.dec_enc file_complete.dec_enc file_cancel.dec_enc FileAccept_new_ok
      FileReject_ok_def FileChunk_ok_def FileChunkAck_ok_def FileComplete_ok_def FileCancel_ok_def)

theorem transfer_messages_roundtrip_witness:
  "let tid = TransferId (replicate 16 7) in
   (\<exists>m. FileOffer_new tid [65, 0xC3, 0xA9] 1000 256 (replicate 32 1) = Inr m \<and>
      FileOffer_decode (FileOffer_encode m) = Inr m) \<and>
   FileAccept_decode (FileAccept_encode (FileAccept_new tid [0xF0])) = Inr (FileAccept_new tid [0xF0])"
proof -
  let ?tid = "TransferId (replicate 16 7)" and ?h = "replicate 32 1"
  have ok: "tid_ok ?tid" "length ?h = FILE_HASH_LEN" by (simp_all add: tid_ok_def tr_lens)
  have utf: "utf8_valid [65, 0xC3, 0xA9]" by (simp add: utf8_cont_def)
  have new: "\<exists>m. FileOffer_new ?tid [65, 0xC3, 0xA9] 1000 256 ?h = Inr m"
    by (simp add: FileOffer_new_def MAX_FILE_NAME_LEN_def)
  then show ?thesis
    using transfer_messages_roundtrip [OF ok utf, of 1000 256 _ "[0xF0]"] by (auto simp: Let_def)
qed

text \<open>No bytes whatever make one of the seven transfer decoders panic.\<close>

lemma transfer_decoders_never_panic:
  "\<not> is_panic (FileOffer_decode bs) \<and> \<not> is_panic (FileAccept_decode bs) \<and>
   \<not> is_panic (FileReject_decode bs) \<and> \<not> is_panic (FileChunk_decode bs) \<and>
   \<not> is_panic (FileChunkAck_decode bs) \<and> \<not> is_panic (FileComplete_decode bs) \<and>
   \<not> is_panic (FileCancel_decode bs)"
  by (simp add: is_panic_iff file_offer.dec_no_panic file_accept.dec_no_panic file_reject.dec_no_panic
      file_chunk.dec_no_panic file_chunk_ack.dec_no_panic file_complete.dec_no_panic
      file_cancel.dec_no_panic)

text \<open>C35. On a bitmap made for \<open>n\<close> chunks, setting and clearing a bit is inserting into and removing
  from the set of missing chunks, for every chunk index below \<open>n\<close> and no other chunk is affected.\<close>

theorem bitmap_refines_set:
  assumes "length bm = bitmap_len n" and "i < n"
  shows "missing_set (bitmap_set_missing bm i True) = insert i (missing_set bm) \<and>
     missing_set (bitmap_set_missing bm i False) = missing_set bm - {i} \<and>
     length (bitmap_set_missing bm i b) = bitmap_len n"
  using assms bitmap_len_covers [OF assms(2)]
  by (auto simp: missing_set_def bitmap_is_missing_set)

theorem bitmap_refines_set_witness:
  "missing_set (bitmap_set_missing [0, 0] 9 True) = insert 9 (missing_set [0, 0]) \<and>
   missing_set (bitmap_set_missing [0, 0] 9 False) = missing_set [0, 0] - {9} \<and>
   length (bitmap_set_missing [0, 0] 9 True) = bitmap_len 10"
  by (rule bitmap_refines_set) (simp_all add: bitmap_len_def)

text \<open>The chunk count is the file size divided by the chunk size, rounded up and truncated to 32
  bits; when it is not truncated the chunks cover the file and the last one is not empty.\<close>

lemma total_chunks_covers:
  assumes "cs \<noteq> 0" and "(unat fs + unat cs - 1) div unat cs < 2 ^ 32"
  shows "unat fs \<le> unat (compute_total_chunks fs cs) * unat cs \<and>
     (0 < fs \<longrightarrow> (unat (compute_total_chunks fs cs) - 1) * unat cs < unat fs)"
  using assms ceil_div_covers [of "unat cs" "unat (compute_total_chunks fs cs)" "unat fs"]
  by (simp add: unat_compute_total_chunks unat_gt_0 word_less_nat_alt)

text \<open>A file of \<open>2 ^ 32\<close> chunks exactly is offered as a file of no chunks: the offer is made, with a
  chunk count of zero for a non-empty file, and the receiving decoder accepts it.\<close>

lemma total_chunks_wraps:
  assumes "cs \<noteq> 0" and "unat fs = 2 ^ 32 * unat cs" and "tid_ok tid"
    and "utf8_valid name" and "length name \<le> 255" and "length h = FILE_HASH_LEN"
  shows "\<exists>m. FileOffer_new tid name fs cs h = Inr m \<and> fo_total_chunks m = 0 \<and> fo_file_size m = fs \<and>
     FileOffer_decode (FileOffer_encode m) = Inr m"
proof -
  have "0 < unat cs" using assms(1) by (simp add: unat_gt_0)
  then have "(unat fs + unat cs - 1) div unat cs = 2 ^ 32"
    using assms(2) by (intro div_nat_eqI) (simp_all add: mult.commute)
  then have zero: "compute_total_chunks fs cs = 0"
    using assms(1) by (simp add: unat_compute_total_chunks flip: unat_eq_0)
  obtain m where m: "FileOffer_new tid name fs cs h = Inr m"
    using assms(1,5) by (simp add: FileOffer_new_def MAX_FILE_NAME_LEN_def)
  then have "FileOffer_decode (FileOffer_encode m) = Inr m"
    using FileOffer_new_ok assms(3,4,6) file_offer.dec_enc by blast
  with m zero show ?thesis by (auto simp: FileOffer_new_def split: if_splits)
qed

end
