(* ===== verification/Transfer_Manager.thy ===== *)
theory Transfer_Manager
  imports Transfer_Msg Identity "HOL-Library.Multiset"
begin

text \<open>
  \<open>ceky-transfer\<close>: hashing of files (\<open>merkle.rs\<close>), the state of a transfer (\<open>state.rs\<close>) and the transfer
  manager (\<open>manager.rs\<close>) with its handlers and its sending loop.

  The manager's state holds the map of active transfers, the frames it has sent, and the files.  A
  receiving transfer writes through its memory map, so the contents of its file are found in
  \<open>tm_files\<close> under its path.  Whether an operating system call fails is a parameter (\<open>os_impl\<close>), as is
  SHA-256.  A guard of the concurrent map that is still held makes a second access to the same entry
  block for ever, as the documentation of \<open>dashmap\<close> says; operations that can block return an option, and
  \<open>None\<close> is not returning.
\<close>

type_synonym path = "byte list"

subsection \<open>Hashing\<close>

definition hash_chunk :: "crypto_impl \<Rightarrow> byte list \<Rightarrow> byte list" where
  "hash_chunk C dat = take FILE_HASH_LEN (sha256 C dat)"

text \<open>The inner loop fills the buffer: at offset \<open>pos\<close> of the file a read returns as many bytes as
  \<open>short pos\<close> says, at least one and at most what the buffer and the file have left.\<close>

function read_chunk :: "(nat \<Rightarrow> nat) \<Rightarrow> byte list \<Rightarrow> nat \<Rightarrow> nat \<Rightarrow> byte list" where
  "read_chunk short f pos want =
     (let n = min (max 1 (short pos)) (min want (length f - pos))
      in if n = 0 then [] else take n (drop pos f) @ read_chunk short f (pos + n) (want - n))"
  by pat_completeness auto
termination by (relation "measure (\<lambda>(short, f, pos, want). want)") auto

declare read_chunk.simps [simp del]

lemma read_chunk_eq: "read_chunk short f pos want = take want (drop pos f)"
proof (induction short f pos want rule: read_chunk.induct)
  case (1 short f pos want)
  define n where "n = min (max 1 (short pos)) (min want (length f - pos))"
  show ?case
  proof (cases "n = 0")
    case True
    then have "want = 0 \<or> length f \<le> pos" by (auto simp: n_def)
    then show ?thesis using True by (auto simp: read_chunk.simps [of short f pos want] n_def)
  next
    case False
    have "n \<le> want" by (simp add: n_def)
    then have "take want (drop pos f) = take n (drop pos f) @ take (want - n) (drop (pos + n) f)"
      by (metis add.commute drop_drop le_add_diff_inverse take_add)
    moreover have "read_chunk short f pos want = take n (drop pos f) @ read_chunk short f (pos + n) (want - n)"
      using False unfolding read_chunk.simps [of short f pos want] n_def [symmetric] Let_def by (rule if_not_P)
    ultimately show ?thesis using 1 [OF n_def False] by simp
  qed
qed

function chunk_hashes :: "crypto_impl \<Rightarrow> (nat \<Rightarrow> nat) \<Rightarrow> byte list \<Rightarrow> nat \<Rightarrow> nat \<Rightarrow> byte list" where
  "chunk_hashes C short f chunk_size pos =
     (let buffer = read_chunk short f pos chunk_size
      in if buffer = [] then []
         else hash_chunk C buffer @ chunk_hashes C short f chunk_size (pos + length buffer))"
  by pat_completeness auto
termination
proof (relation "measure (\<lambda>(C, short, f, cs, pos). length f - pos)", goal_cases)
  case (2 C short f cs pos x)
  then show ?case by (cases "length f \<le> pos") (auto simp: read_chunk_eq)
qed simp

declare chunk_hashes.simps [simp del]

definition calculate_file_hash :: "crypto_impl \<Rightarrow> (nat \<Rightarrow> nat) \<Rightarrow> byte list \<Rightarrow> u32 \<Rightarrow> byte list" where
  "calculate_file_hash C short f chunk_size =
     take FILE_HASH_LEN (sha256 C (chunk_hashes C short f (unat chunk_size) 0))"

subsection \<open>The state of a transfer\<close>

record SendingState =
  ss_peer :: SocketAddr
  ss_file_map :: "byte list"
  ss_bitfield :: "byte list"
  ss_credits :: u32
  ss_chunk_size :: u32
  ss_total_chunks :: u32
  ss_current_chunk_idx :: u32

record ReceivingState =
  rs_peer :: SocketAddr
  rs_map_len :: nat
  rs_expected_root :: "byte list"
  rs_bitfield :: "byte list"
  rs_chunk_size :: u32
  rs_total_chunks :: u32
  rs_received_chunks :: u32
  rs_file_path :: path

datatype TransferState = Sending SendingState | Receiving ReceivingState

datatype TmError = TmIo | TmNotFound | TmInvalidState | TmBadHash

record TransferManager =
  active_transfers :: "TransferId \<rightharpoonup> TransferState"
  frame_tx :: "(SocketAddr \<times> Frame) list"
  download_dir :: path
  tm_files :: "path \<rightharpoonup> byte list"

record os_impl =
  open_err :: "path \<Rightarrow> bool"
  create_err :: "path \<Rightarrow> bool"
  read_err :: "path \<Rightarrow> bool"
  set_len_err :: "path \<Rightarrow> u64 \<Rightarrow> bool"
  mmap_err :: "path \<Rightarrow> bool"
  short_read :: "nat \<Rightarrow> nat"

subsection \<open>Paths\<close>

fun split_slash :: "byte list \<Rightarrow> byte list list" where
  "split_slash [] = [[]]"
| "split_slash (b # bs) =
     (if b = 0x2F then [] # split_slash bs
      else case split_slash bs of c # cs \<Rightarrow> (b # c) # cs | [] \<Rightarrow> [[b]])"

text \<open>\<open>Path::file_name\<close>, with the empty name where it has none, and \<open>Path::join\<close>.\<close>

definition path_file_name :: "path \<Rightarrow> byte list" where
  "path_file_name p =
     (let cs = filter (\<lambda>c. c \<noteq> [] \<and> c \<noteq> [0x2E]) (split_slash p)
      in if cs = [] \<or> last cs = [0x2E, 0x2E] then [] else last cs)"

definition path_join :: "path \<Rightarrow> path \<Rightarrow> path" where
  "path_join d p =
     (case p of
        b # _ \<Rightarrow> if b = 0x2F then p else if d = [] \<or> last d = 0x2F then d @ p else d @ 0x2F # p
      | [] \<Rightarrow> if d = [] \<or> last d = 0x2F then d else d @ [0x2F])"

subsection \<open>The transfer manager\<close>

definition TransferManager_new :: "path \<Rightarrow> (path \<rightharpoonup> byte list) \<Rightarrow> TransferManager" where
  "TransferManager_new d fs = \<lparr>active_transfers = Map.empty, frame_tx = [], download_dir = d, tm_files = fs\<rparr>"

definition send_frame :: "SocketAddr \<Rightarrow> MessageType \<Rightarrow> byte list \<Rightarrow> TransferManager \<Rightarrow> TransferManager" where
  "send_frame p mt bs tm = tm\<lparr>frame_tx := frame_tx tm @ [(p, Frame_new mt Flags_empty 0 bs)]\<rparr>"

definition set_transfer :: "TransferId \<Rightarrow> TransferState \<Rightarrow> TransferManager \<Rightarrow> TransferManager" where
  "set_transfer tid st tm = tm\<lparr>active_transfers := (active_transfers tm)(tid \<mapsto> st)\<rparr>"

definition offer_file :: "crypto_impl \<Rightarrow> os_impl \<Rightarrow> byte list \<Rightarrow> SocketAddr \<Rightarrow> path \<Rightarrow> u32 \<Rightarrow> TransferManager \<Rightarrow>
    (TmError, TransferId) res \<times> TransferManager" where
  "offer_file C os id_bytes p file_path chunk_size tm =
     (case tm_files tm file_path of
        None \<Rightarrow> (Inl (Err TmIo), tm)
      | Some f \<Rightarrow>
          if open_err os file_path \<or> read_err os file_path then (Inl (Err TmIo), tm)
          else
            let file_size = of_nat (length f);
                file_hash = calculate_file_hash C (short_read os) f chunk_size;
                total_chunks = compute_total_chunks file_size chunk_size
            in if mmap_err os file_path then (Inl (Err TmIo), tm)
               else
                 let tid = TransferId id_bytes
                 in (case FileOffer_new tid (path_file_name file_path) file_size chunk_size file_hash of
                       Inl _ \<Rightarrow> (Inl (Err TmInvalidState), tm)
                     | Inr offer \<Rightarrow>
                         let st = \<lparr>ss_peer = p, ss_file_map = f,
                               ss_bitfield = replicate (bitmap_len total_chunks) 0xFF, ss_credits = 0,
                               ss_chunk_size = chunk_size, ss_total_chunks = total_chunks,
                               ss_current_chunk_idx = 0\<rparr>;
                             tm = set_transfer tid (Sending st) tm
                         in (Inr tid, send_frame p FileOffer (FileOffer_encode offer) tm)))"

definition resize :: "nat \<Rightarrow> byte list \<Rightarrow> byte list" where
  "resize n f = take n f @ replicate (n - length f) 0"

definition credit_payload :: "TransferId \<Rightarrow> u32 \<Rightarrow> byte list" where
  "credit_payload tid credits = TransferId_as_bytes tid @ le_bytes 4 credits"

definition handle_offer :: "os_impl \<Rightarrow> SocketAddr \<Rightarrow> FileOffer \<Rightarrow> TransferManager \<Rightarrow>
    (TmError, unit) res \<times> TransferManager" where
  "handle_offer os p offer tm =
     (let path = path_join (download_dir tm) (fo_file_name offer)
      in if create_err os path then (Inl (Err TmIo), tm)
         else
           let f = (case tm_files tm path of Some f \<Rightarrow> f | None \<Rightarrow> []);
               tm = tm\<lparr>tm_files := (tm_files tm)(path \<mapsto> f)\<rparr>
           in if set_len_err os path (fo_file_size offer) then (Inl (Err TmIo), tm)
              else
                let tm = tm\<lparr>tm_files := (tm_files tm)(path \<mapsto> resize (unat (fo_file_size offer)) f)\<rparr>
                in if mmap_err os path then (Inl (Err TmIo), tm)
                   else
                     let missing = replicate (bitmap_len (fo_total_chunks offer)) 0xFF;
                         st = \<lparr>rs_peer = p, rs_map_len = unat (fo_file_size offer),
                           rs_expected_root = fo_file_hash offer, rs_bitfield = missing,
                           rs_chunk_size = fo_chunk_size offer, rs_total_chunks = fo_total_chunks offer,
                           rs_received_chunks = 0, rs_file_path = path\<rparr>;
                         tm = set_transfer (fo_transfer_id offer) (Receiving st) tm;
                         tm = send_frame p FileAccept
                           (FileAccept_encode (FileAccept_new (fo_transfer_id offer) missing)) tm
                     in (Inr (), send_frame p CreditUpdate (credit_payload (fo_transfer_id offer) 50) tm))"

definition handle_accept :: "FileAccept \<Rightarrow> TransferManager \<Rightarrow> (TmError, unit) res \<times> TransferManager" where
  "handle_accept accept tm =
     (case active_transfers tm (fa_transfer_id accept) of
        Some (Sending st) \<Rightarrow>
          (Inr (), set_transfer (fa_transfer_id accept) (Sending (st\<lparr>ss_bitfield := fa_missing_bitmap accept\<rparr>)) tm)
      | _ \<Rightarrow> (Inl (Err TmNotFound), tm))"

text \<open>The loop of \<open>pump_send\<close>.  The offset of a chunk is computed with 32 bits; a slice that starts
  behind the end of the file panics.\<close>

lemma unat_inc_below: "(i :: 'a::len word) < n \<Longrightarrow> unat (i + 1) = Suc (unat i)"
proof -
  assume "i < n"
  then have "unat i < unat n" by (simp add: word_less_nat_alt)
  moreover have "unat n < 2 ^ LENGTH('a)" by (rule unsigned_less)
  ultimately have "Suc (unat i) < 2 ^ LENGTH('a)" by linarith
  then show ?thesis by (simp add: unat_word_ariths)
qed

lemma pump_decreases:
  "(i :: 'a::len word) < n \<Longrightarrow> unat n - unat (i + 1) < unat n - unat i"
  by (simp add: unat_inc_below) (simp add: word_less_nat_alt)

function pump_loop :: "crypto_impl \<Rightarrow> TransferId \<Rightarrow> SendingState \<Rightarrow> (SocketAddr \<times> Frame) list \<Rightarrow>
    (TmError, SendingState \<times> (SocketAddr \<times> Frame) list) res" where
  "pump_loop C tid st out =
     (if ss_credits st > 0 \<and> ss_current_chunk_idx st < ss_total_chunks st then
        let idx = ss_current_chunk_idx st
        in if bitmap_is_missing (ss_bitfield st) idx then
             let start = unat (idx * ss_chunk_size st);
                 stop = min (start + unat (ss_chunk_size st)) (length (ss_file_map st))
             in if stop < start then Inl Panic
                else
                  let data_slice = take (stop - start) (drop start (ss_file_map st));
                      chunk = \<lparr>fc_transfer_id = tid, fc_chunk_index = idx,
                        fc_chunk_hash = hash_chunk C data_slice, fc_data = data_slice\<rparr>;
                      frame = Frame_new FileChunk Flags_empty 0 (FileChunk_encode chunk)
                  in pump_loop C tid (st\<lparr>ss_credits := ss_credits st - 1, ss_current_chunk_idx := idx + 1\<rparr>)
                       (out @ [(ss_peer st, frame)])
           else pump_loop C tid (st\<lparr>ss_current_chunk_idx := idx + 1\<rparr>) out
      else Inr (st, out))"
  by pat_completeness auto
termination
proof (relation "measure (\<lambda>(C, tid, st, out). unat (ss_total_chunks st) - unat (ss_current_chunk_idx st))", goal_cases)
  case (2 C tid st out)
  then show ?case by (simp add: pump_decreases)
next
  case (3 C tid st out)
  then show ?case by (simp add: pump_decreases)
qed simp

declare pump_loop.simps [simp del]

text \<open>\<open>held\<close>: the caller still holds the guard of the entry.\<close>

definition pump_send :: "crypto_impl \<Rightarrow> bool \<Rightarrow> TransferId \<Rightarrow> TransferManager \<Rightarrow>
    (TmError, TransferManager) res option" where
  "pump_send C held tid tm =
     (if held then None
      else Some (case active_transfers tm tid of
        Some (Sending st) \<Rightarrow>
          bindR (pump_loop C tid st []) (\<lambda>(st, out).
            let tm = set_transfer tid (Sending st) tm in Inr (tm\<lparr>frame_tx := frame_tx tm @ out\<rparr>))
      | _ \<Rightarrow> Inr tm))"

definition handle_credit_update :: "crypto_impl \<Rightarrow> TransferId \<Rightarrow> u32 \<Rightarrow> TransferManager \<Rightarrow>
    (TmError, TransferManager) res option" where
  "handle_credit_update C tid credits tm =
     (let tm = (case active_transfers tm tid of
                  Some (Sending st) \<Rightarrow> set_transfer tid (Sending (st\<lparr>ss_credits := ss_credits st + credits\<rparr>)) tm
                | _ \<Rightarrow> tm)
      in pump_send C False tid tm)"

text \<open>Copying into the map at \<open>start\<close>.\<close>

definition splice :: "nat \<Rightarrow> byte list \<Rightarrow> byte list \<Rightarrow> byte list" where
  "splice start d f = take start f @ d @ drop (start + length d) f"

definition handle_chunk :: "crypto_impl \<Rightarrow> FileChunk \<Rightarrow> TransferManager \<Rightarrow>
    (TmError, unit) res \<times> TransferManager" where
  "handle_chunk C chunk tm =
     (let tid = fc_transfer_id chunk; idx = fc_chunk_index chunk
      in case active_transfers tm tid of
           None \<Rightarrow> (Inl (Err TmNotFound), tm)
         | Some (Sending _) \<Rightarrow> (Inr (), tm)
         | Some (Receiving st) \<Rightarrow>
             if hash_chunk C (fc_data chunk) \<noteq> fc_chunk_hash chunk then
               (Inl (Err TmBadHash),
                send_frame (rs_peer st) FileChunkAck
                  (FileChunkAck_encode \<lparr>ack_transfer_id = tid, ack_chunk_index = idx, ack_status = BadHash\<rparr>) tm)
             else
               let start = unat (idx * rs_chunk_size st); stop = start + length (fc_data chunk)
               in if stop \<le> rs_map_len st then
                    let f = (case tm_files tm (rs_file_path st) of Some f \<Rightarrow> f | None \<Rightarrow> []);
                        tm = tm\<lparr>tm_files := (tm_files tm)(rs_file_path st \<mapsto> splice start (fc_data chunk) f)\<rparr>;
                        st = st\<lparr>rs_bitfield := bitmap_set_missing (rs_bitfield st) idx False,
                                rs_received_chunks := rs_received_chunks st + 1\<rparr>;
                        tm = set_transfer tid (Receiving st) tm;
                        tm = send_frame (rs_peer st) FileChunkAck
                          (FileChunkAck_encode \<lparr>ack_transfer_id = tid, ack_chunk_index = idx, ack_status = AckOk\<rparr>) tm;
                        tm = send_frame (rs_peer st) CreditUpdate (credit_payload tid 1) tm
                    in if rs_received_chunks st = rs_total_chunks st then
                         let tm = tm\<lparr>active_transfers := (active_transfers tm)(tid := None)\<rparr>
                         in (Inr (), send_frame (rs_peer st) FileComplete
                               (FileComplete_encode \<lparr>fcomp_transfer_id = tid,
                                  fcomp_file_hash = replicate FILE_HASH_LEN 0\<rparr>) tm)
                       else (Inr (), tm)
                  else (Inr (), tm))"

definition handle_chunk_ack :: "crypto_impl \<Rightarrow> FileChunkAck \<Rightarrow> TransferManager \<Rightarrow>
    (TmError, TransferManager) res option" where
  "handle_chunk_ack C ack tm =
     (case active_transfers tm (ack_transfer_id ack) of
        Some (Sending st) \<Rightarrow>
          let st = (if ack_status ack = BadHash then
                      let st = st\<lparr>ss_bitfield := bitmap_set_missing (ss_bitfield st) (ack_chunk_index ack) True\<rparr>
                      in if ack_chunk_index ack < ss_current_chunk_idx st
                         then st\<lparr>ss_current_chunk_idx := ack_chunk_index ack\<rparr> else st
                    else st)
          in pump_send C True (ack_transfer_id ack) (set_transfer (ack_transfer_id ack) (Sending st) tm)
      | _ \<Rightarrow> Some (Inr tm))"

text \<open>The snapshot for the display; \<open>order\<close> is the order in which the map is iterated.\<close>

definition snapshot_entry :: "TransferId \<Rightarrow> TransferState \<Rightarrow> TransferId \<times> byte list \<times> u32 \<times> u32 \<times> bool" where
  "snapshot_entry tid st =
     (case st of
        Sending s \<Rightarrow> (tid, map (\<lambda>c. of_nat (of_char c)) ''sending'', ss_total_chunks s, ss_current_chunk_idx s, True)
      | Receiving r \<Rightarrow> (tid, path_file_name (rs_file_path r), rs_total_chunks r, rs_received_chunks r, False))"

definition snapshot_transfers :: "TransferId list \<Rightarrow> TransferManager \<Rightarrow> (TransferId \<times> byte list \<times> u32 \<times> u32 \<times> bool) list" where
  "snapshot_transfers order tm =
     List.map_filter (\<lambda>tid. map_option (snapshot_entry tid) (active_transfers tm tid)) order"

subsection \<open>The chunks of a file\<close>

definition chunk_count :: "byte list \<Rightarrow> nat \<Rightarrow> nat" where
  "chunk_count f cs = (length f + cs - 1) div cs"

definition file_chunk :: "byte list \<Rightarrow> nat \<Rightarrow> nat \<Rightarrow> byte list" where
  "file_chunk f cs i = take cs (drop (i * cs) f)"

lemma chunk_count_le_iff: "0 < cs \<Longrightarrow> chunk_count f cs \<le> i \<longleftrightarrow> length f \<le> i * cs"
proof -
  assume cs: "0 < cs"
  note c = ceil_div_covers [OF cs, of "chunk_count f cs" "length f", OF chunk_count_def]
  show ?thesis
  proof
    assume "chunk_count f cs \<le> i"
    then have "chunk_count f cs * cs \<le> i * cs" by (rule mult_le_mono1)
    then show "length f \<le> i * cs" using c(1) by linarith
  next
    assume l: "length f \<le> i * cs"
    show "chunk_count f cs \<le> i"
    proof (cases "length f = 0")
      case True
      then show ?thesis using cs by (simp add: chunk_count_def)
    next
      case False
      then have "(chunk_count f cs - 1) * cs < i * cs" using c(2) l by linarith
      then show ?thesis using cs by simp
    qed
  qed
qed

lemma chunk_hashes_eq:
  assumes "0 < cs"
  shows "chunk_hashes C short f cs (min (i * cs) (length f)) =
    concat (map (\<lambda>j. hash_chunk C (file_chunk f cs j)) [i ..< chunk_count f cs])"
proof (induction "chunk_count f cs - i" arbitrary: i)
  case 0
  then have "length f \<le> i * cs" using chunk_count_le_iff [OF assms] by simp
  then show ?case using 0 by (simp add: chunk_hashes.simps [of _ _ _ _ "length f"] read_chunk_eq)
next
  case (Suc n)
  then have i: "i < chunk_count f cs" by simp
  then have l: "i * cs < length f" using chunk_count_le_iff [OF assms, of f i] by linarith
  have "length f - i * cs \<le> cs \<longleftrightarrow> length f \<le> Suc i * cs" by auto
  then have "min (i * cs) (length f) + length (file_chunk f cs i) = min (Suc i * cs) (length f)"
    using l by (auto simp: file_chunk_def min_def)
  moreover have "read_chunk short f (min (i * cs) (length f)) cs = file_chunk f cs i" "file_chunk f cs i \<noteq> []"
    using l assms by (simp_all add: read_chunk_eq file_chunk_def)
  moreover have "[i ..< chunk_count f cs] = i # [Suc i ..< chunk_count f cs]" using i by (rule upt_conv_Cons)
  moreover have "chunk_hashes C short f cs (min (Suc i * cs) (length f)) =
      concat (map (\<lambda>j. hash_chunk C (file_chunk f cs j)) [Suc i ..< chunk_count f cs])"
    using Suc by (intro Suc.hyps(1)) simp
  ultimately show ?case by (simp add: chunk_hashes.simps [of _ _ _ _ "min (i * cs) (length f)"] Let_def)
qed

lemma nth_file_chunk:
  "p < length f \<Longrightarrow> p div cs = i \<Longrightarrow> 0 < cs \<Longrightarrow> file_chunk f cs i ! (p - i * cs) = f ! p \<and>
    p - i * cs < length (file_chunk f cs i) \<and> i * cs \<le> p"
proof -
  assume p: "p < length f" "p div cs = i" "0 < cs"
  then have "i * cs \<le> p" "p - i * cs < cs" by (auto simp: minus_div_mult_eq_mod)
  then show ?thesis using p(1) by (simp add: file_chunk_def)
qed

subsection \<open>What the sender sends\<close>

definition sent_chunk :: "crypto_impl \<Rightarrow> TransferId \<Rightarrow> byte list \<Rightarrow> nat \<Rightarrow> nat \<Rightarrow> FileChunk" where
  "sent_chunk C tid f cs i = \<lparr>fc_transfer_id = tid, fc_chunk_index = of_nat i,
     fc_chunk_hash = hash_chunk C (file_chunk f cs i), fc_data = file_chunk f cs i\<rparr>"

definition chunk_frame :: "crypto_impl \<Rightarrow> TransferId \<Rightarrow> byte list \<Rightarrow> nat \<Rightarrow> nat \<Rightarrow> Frame" where
  "chunk_frame C tid f cs i = Frame_new FileChunk Flags_empty 0 (FileChunk_encode (sent_chunk C tid f cs i))"

text \<open>A sending state for a whole file below 4 GiB, with every chunk still missing.\<close>

definition fresh_sender :: "SendingState \<Rightarrow> bool" where
  "fresh_sender st \<longleftrightarrow> ss_chunk_size st \<noteq> 0 \<and> length (ss_file_map st) < 2 ^ 32 \<and>
     unat (ss_total_chunks st) = chunk_count (ss_file_map st) (unat (ss_chunk_size st)) \<and>
     ss_bitfield st = replicate (bitmap_len (ss_total_chunks st)) 0xFF"

lemma all_missing: "i < n \<Longrightarrow> bitmap_is_missing (replicate (bitmap_len n) 0xFF) i"
proof -
  assume "i < n"
  then have "unat i div 8 < bitmap_len n" by (rule bitmap_len_covers)
  moreover have "bit (0xFF :: byte) (unat i mod 8)"
  proof -
    have "(0xFF :: byte) = - 1" by simp
    then show ?thesis by (simp only: bit_minus_1_iff) simp
  qed
  ultimately show ?thesis by (simp add: bitmap_is_missing_bit)
qed

lemma chunk_offset:
  assumes "i < chunk_count f (unat (cs :: u32))" "cs \<noteq> 0" "length f < 2 ^ 32"
  shows "unat ((of_nat i :: u32) * cs) = i * unat cs" "i * unat cs < length f" "i < 2 ^ 32"
proof -
  have pos: "0 < unat cs" using assms(2) by (simp add: unat_gt_0)
  show l: "i * unat cs < length f" using assms(1) chunk_count_le_iff [OF pos, of f i] by linarith
  have "i * 1 \<le> i * unat cs" using pos by (intro mult_le_mono2) linarith
  then show i: "i < 2 ^ 32" using l assms(3) by linarith
  have "i * unat cs < 2 ^ 32" using l assms(3) by simp
  then show "unat ((of_nat i :: u32) * cs) = i * unat cs"
    using i by (simp add: unat_word_ariths unat_of_nat take_bit_eq_mod)
qed

lemma pump_loop_step:
  assumes "fresh_sender st" "ss_credits st > 0" "ss_current_chunk_idx st < ss_total_chunks st"
  shows "pump_loop C tid st out =
    pump_loop C tid (st\<lparr>ss_credits := ss_credits st - 1, ss_current_chunk_idx := ss_current_chunk_idx st + 1\<rparr>)
      (out @ [(ss_peer st, chunk_frame C tid (ss_file_map st) (unat (ss_chunk_size st))
         (unat (ss_current_chunk_idx st)))])"
proof -
  let ?i = "ss_current_chunk_idx st" and ?f = "ss_file_map st" and ?cs = "ss_chunk_size st"
  have i: "unat ?i < chunk_count ?f (unat ?cs)"
    using assms by (simp add: fresh_sender_def word_less_nat_alt)
  have off: "unat (?i * ?cs) = unat ?i * unat ?cs" "unat ?i * unat ?cs < length ?f"
    using chunk_offset [OF i] assms(1) by (simp_all add: fresh_sender_def)
  have miss: "bitmap_is_missing (ss_bitfield st) ?i"
    using assms all_missing by (simp add: fresh_sender_def)
  have d: "take (min (unat ?i * unat ?cs + unat ?cs) (length ?f) - unat ?i * unat ?cs) (drop (unat ?i * unat ?cs) ?f) =
      file_chunk ?f (unat ?cs) (unat ?i)"
    unfolding file_chunk_def using off(2) by (simp add: min_def)
  show ?thesis
    using assms(2,3) miss off(2)
    by (subst pump_loop.simps) (simp only: off(1) d Let_def chunk_frame_def sent_chunk_def if_True,
      simp add: min_less_iff_disj)
qed

lemma pump_loop_sends:
  assumes "fresh_sender st"
  shows "\<exists>st'. pump_loop C tid st out = Inr (st', out @
    map (\<lambda>i. (ss_peer st, chunk_frame C tid (ss_file_map st) (unat (ss_chunk_size st)) i))
      [unat (ss_current_chunk_idx st) ..< min (unat (ss_current_chunk_idx st) + unat (ss_credits st))
         (unat (ss_total_chunks st))])"
  using assms
proof (induction "unat (ss_credits st)" arbitrary: st out)
  case 0
  then have "ss_credits st = 0" by (simp add: unat_eq_0)
  then show ?case using 0 by (subst pump_loop.simps) simp
next
  case (Suc n)
  let ?i = "ss_current_chunk_idx st"
  show ?case
  proof (cases "?i < ss_total_chunks st")
    case False
    then show ?thesis by (subst pump_loop.simps) (simp add: word_less_nat_alt not_less)
  next
    case True
    let ?st = "st\<lparr>ss_credits := ss_credits st - 1, ss_current_chunk_idx := ?i + 1\<rparr>"
    have pos: "ss_credits st > 0" using Suc.hyps(2) by (metis unat_0 word_gt_0 zero_less_Suc less_irrefl)
    have "unat (ss_credits st - 1) = unat (ss_credits st) - 1" using pos by (intro unat_minus_one) auto
    then have u: "unat (?i + 1) = Suc (unat ?i)" "unat (ss_credits st - 1) = n" "unat ?i < unat (ss_total_chunks st)"
      using True Suc.hyps(2) by (simp_all add: unat_inc_below) (simp add: word_less_nat_alt)
    have "fresh_sender ?st" using Suc.prems by (simp add: fresh_sender_def)
    from Suc.hyps(1) [OF _ this, of "out @ [(ss_peer st, chunk_frame C tid (ss_file_map st)
         (unat (ss_chunk_size st)) (unat ?i))]"] u(2)
    show ?thesis
      unfolding pump_loop_step [OF Suc.prems pos True]
      using u(1,3) Suc.hyps(2) [symmetric] by (simp add: upt_conv_Cons)
  qed
qed

subsection \<open>What the receiver makes of it\<close>

lemma length_splice: "start + length d \<le> length g \<Longrightarrow> length (splice start d g) = length g"
  by (simp add: splice_def)

lemma nth_splice:
  "start + length d \<le> length g \<Longrightarrow> p < length g \<Longrightarrow>
    splice start d g ! p = (if start \<le> p \<and> p < start + length d then d ! (p - start) else g ! p)"
  by (auto simp: splice_def nth_append)

text \<open>The effect of a chunk whose hash is right and which fits, on the files and the transfers.\<close>

lemma handle_chunk_good:
  assumes "active_transfers tm (fc_transfer_id c) = Some (Receiving st)"
    and "hash_chunk C (fc_data c) = fc_chunk_hash c"
    and "unat (fc_chunk_index c * rs_chunk_size st) + length (fc_data c) \<le> rs_map_len st"
    and "tm_files tm (rs_file_path st) = Some g"
  shows "tm_files (snd (handle_chunk C c tm)) = (tm_files tm)(rs_file_path st \<mapsto>
      splice (unat (fc_chunk_index c * rs_chunk_size st)) (fc_data c) g)"
    "active_transfers (snd (handle_chunk C c tm)) = (active_transfers tm)(fc_transfer_id c :=
      (if rs_received_chunks st + 1 = rs_total_chunks st then None
       else Some (Receiving (st\<lparr>rs_bitfield := bitmap_set_missing (rs_bitfield st) (fc_chunk_index c) False,
         rs_received_chunks := rs_received_chunks st + 1\<rparr>))))"
    "fst (handle_chunk C c tm) = Inr ()"
  using assms by (simp_all add: handle_chunk_def Let_def send_frame_def set_transfer_def)

text \<open>A transfer of \<open>f\<close> into \<open>path\<close> of which exactly the chunks in \<open>S\<close> have arrived.\<close>

definition receiving :: "TransferManager \<Rightarrow> TransferId \<Rightarrow> path \<Rightarrow> byte list \<Rightarrow> u32 \<Rightarrow> nat set \<Rightarrow> bool" where
  "receiving tm tid path f cs S \<longleftrightarrow> (\<exists>st g. active_transfers tm tid = Some (Receiving st) \<and>
     rs_map_len st = length f \<and> rs_chunk_size st = cs \<and> rs_file_path st = path \<and>
     unat (rs_total_chunks st) = chunk_count f (unat cs) \<and> unat (rs_received_chunks st) = card S \<and>
     tm_files tm path = Some g \<and> length g = length f \<and> S \<subset> {..< chunk_count f (unat cs)} \<and>
     (\<forall>p < length f. p div unat cs \<in> S \<longrightarrow> g ! p = f ! p))"

definition receive_all :: "crypto_impl \<Rightarrow> FileChunk list \<Rightarrow> TransferManager \<Rightarrow> TransferManager" where
  "receive_all C cs tm = fold (\<lambda>c tm. snd (handle_chunk C c tm)) cs tm"

lemma chunk_fits:
  assumes "i < chunk_count f cs" "0 < cs"
  shows "i * cs + length (file_chunk f cs i) \<le> length f"
proof -
  have "i * cs < length f" using assms(1) chunk_count_le_iff [OF assms(2), of f i] by linarith
  then show ?thesis by (simp add: file_chunk_def)
qed

lemma splice_chunk:
  assumes "length g = length f" "i < chunk_count f cs" "0 < cs" "p < length f"
    "p div cs = i \<or> g ! p = f ! p"
  shows "splice (i * cs) (file_chunk f cs i) g ! p = f ! p"
proof -
  have fits: "i * cs + length (file_chunk f cs i) \<le> length f" by (rule chunk_fits [OF assms(2,3)])
  show "splice (i * cs) (file_chunk f cs i) g ! p = f ! p"
  proof (cases "p div cs = i")
    case True
    then have "p < i * cs + length (file_chunk f cs i)" using nth_file_chunk [OF assms(4) True assms(3)] by linarith
    then show ?thesis using nth_file_chunk [OF assms(4) True assms(3)] fits assms(1,4) by (simp add: nth_splice)
  next
    case False
    have "\<not> (i * cs \<le> p \<and> p < i * cs + length (file_chunk f cs i))"
    proof
      assume "i * cs \<le> p \<and> p < i * cs + length (file_chunk f cs i)"
      then have "i * cs \<le> p" "p < i * cs + cs" by (auto simp: file_chunk_def)
      then have "p div cs = i" using assms(3) by (intro div_nat_eqI) (auto simp: mult.commute)
      then show False using False by simp
    qed
    then show ?thesis using False fits assms(1,4,5) by (auto simp: nth_splice)
  qed
qed

lemma receiving_step:
  assumes rcv: "receiving tm tid path f cs S" and i: "i < chunk_count f (unat cs)" "i \<notin> S"
    and cs: "cs \<noteq> 0" "length f < 2 ^ 32"
  shows "let tm' = snd (handle_chunk C (sent_chunk C tid f (unat cs) i) tm)
    in if insert i S = {..< chunk_count f (unat cs)}
       then active_transfers tm' tid = None \<and> tm_files tm' path = Some f
       else receiving tm' tid path f cs (insert i S)"
proof -
  let ?n = "chunk_count f (unat cs)" and ?d = "file_chunk f (unat cs) i"
  obtain st g where st: "active_transfers tm tid = Some (Receiving st)"
    "rs_map_len st = length f" "rs_chunk_size st = cs" "rs_file_path st = path"
    "unat (rs_total_chunks st) = ?n" "unat (rs_received_chunks st) = card S"
    "tm_files tm path = Some g" and g: "length g = length f"
    and S: "S \<subset> {..< ?n}" and ok: "\<And>p. p < length f \<Longrightarrow> p div unat cs \<in> S \<Longrightarrow> g ! p = f ! p"
    using rcv unfolding receiving_def by blast
  have pos: "0 < unat cs" using cs(1) by (simp add: unat_gt_0)
  note off = chunk_offset [OF i(1) cs]
  have fits: "i * unat cs + length ?d \<le> length f" by (rule chunk_fits [OF i(1) pos])
  let ?g = "splice (i * unat cs) ?d g"
  have nth: "?g ! p = f ! p" if "p < length f" "p div unat cs \<in> insert i S" for p
    using splice_chunk [OF g i(1) pos that(1)] ok that by blast
  have lg: "length ?g = length f" using fits g by (simp add: length_splice)
  have finS: "finite S" by (rule finite_subset [OF psubset_imp_subset [OF S] finite_lessThan])
  have card: "card (insert i S) = Suc (card S)" using i(2) finS by simp
  have sub: "insert i S \<subseteq> {..< ?n}" using S i(1) by blast
  have "card S < ?n" using S psubset_card_mono [of "{..< ?n}" S] by simp
  moreover have "?n < 2 ^ 32" using st(5) unsigned_less [of "rs_total_chunks st", where 'a = nat] by simp
  ultimately have inc: "unat (rs_received_chunks st + 1) = Suc (card S)" by (simp add: unat_word_ariths st(6))
  have full: "insert i S = {..< ?n} \<longleftrightarrow> card (insert i S) = ?n"
    using card_subset_eq [OF finite_lessThan sub] card_lessThan [of ?n] by metis
  have eq: "rs_received_chunks st + 1 = rs_total_chunks st \<longleftrightarrow> insert i S = {..< ?n}"
    using full card by (simp add: word_unat_eq_iff inc st(5))
  have whole: "?g = f" if "insert i S = {..< ?n}"
  proof (rule nth_equalityI)
    fix p assume p: "p < length ?g"
    then have "p div unat cs < ?n"
      using chunk_count_le_iff [OF pos, of f "p div unat cs"] lg div_times_less_eq_dividend [of p "unat cs"] by linarith
    then show "?g ! p = f ! p" using nth p lg that by auto
  qed (simp add: lg)
  let ?c = "sent_chunk C tid f (unat cs) i"
  have c: "fc_transfer_id ?c = tid" "fc_data ?c = ?d" "unat (fc_chunk_index ?c * rs_chunk_size st) = i * unat cs"
    "hash_chunk C ?d = fc_chunk_hash ?c"
    using off(1) by (simp_all add: sent_chunk_def st(3))
  note good = handle_chunk_good [of tm ?c st C g, unfolded c st(2,4), OF st(1) refl fits st(7)]
  show ?thesis
  proof (cases "insert i S = {..< ?n}")
    case True
    then show ?thesis using whole eq by (simp add: good)
  next
    case False
    then have "insert i S \<subset> {..< ?n}" using sub by blast
    then show ?thesis
      using False eq st(2-5) nth lg card inc unfolding receiving_def Let_def good by simp
  qed
qed

lemma receive_all_chunks:
  assumes "receiving tm tid path f cs S" "cs \<noteq> 0" "length f < 2 ^ 32" "distinct is"
    "set is = {..< chunk_count f (unat cs)} - S"
  shows "let tm' = receive_all C (map (sent_chunk C tid f (unat cs)) is) tm
    in active_transfers tm' tid = None \<and> tm_files tm' path = Some f"
  using assms
proof (induction "is" arbitrary: tm S)
  case Nil
  then show ?case by (auto simp: receiving_def)
next
  case (Cons i js)
  let ?tm = "snd (handle_chunk C (sent_chunk C tid f (unat cs) i) tm)"
  have i: "i < chunk_count f (unat cs)" "i \<notin> S" using Cons.prems(5) by auto
  have js: "set js = {..< chunk_count f (unat cs)} - insert i S" using Cons.prems(4,5) by auto
  note step = receiving_step [OF Cons.prems(1) i Cons.prems(2,3), of C, unfolded Let_def]
  show ?case
  proof (cases "insert i S = {..< chunk_count f (unat cs)}")
    case True
    then have "js = []" using js by auto
    then show ?thesis using step True by (simp add: receive_all_def Let_def)
  next
    case False
    then show ?thesis using Cons.IH [OF _ Cons.prems(2,3) _ js] step Cons.prems(4) by (simp add: receive_all_def Let_def)
  qed
qed

subsection \<open>A whole transfer\<close>

definition initial_sender :: "SocketAddr \<Rightarrow> byte list \<Rightarrow> u32 \<Rightarrow> SendingState" where
  "initial_sender p f cs = (let n = compute_total_chunks (of_nat (length f)) cs in
     \<lparr>ss_peer = p, ss_file_map = f, ss_bitfield = replicate (bitmap_len n) 0xFF, ss_credits = 0,
      ss_chunk_size = cs, ss_total_chunks = n, ss_current_chunk_idx = 0\<rparr>)"

lemma total_chunks_small:
  assumes "length f < 2 ^ 32" "cs \<noteq> 0"
  shows "unat (compute_total_chunks (of_nat (length f)) cs) = chunk_count f (unat cs)"
proof -
  have pos: "0 < unat cs" using assms(2) by (simp add: unat_gt_0)
  have "unat (of_nat (length f) :: u64) = length f"
    using assms(1) by (simp add: unat_of_nat take_bit_eq_mod)
  moreover have "chunk_count f (unat cs) < 2 ^ 32"
  proof (cases "f = []")
    case False
    then have "chunk_count f (unat cs) \<le> length f"
      using chunk_count_le_iff [OF pos, of f "length f"] pos by simp
    then show ?thesis using assms(1) by linarith
  qed (use pos in \<open>simp add: chunk_count_def\<close>)
  ultimately show ?thesis using assms(2) by (simp add: unat_compute_total_chunks chunk_count_def)
qed

lemma offer_file_Inr:
  assumes "tm_files tm path = Some f" "offer_file C os ids p path cs tm = (Inr tid, tm')"
  shows "tid = TransferId ids" "cs \<noteq> 0" "length (path_file_name path) \<le> 255"
    "active_transfers tm' tid = Some (Sending (initial_sender p f cs))"
    "\<exists>offer. FileOffer_new tid (path_file_name path) (of_nat (length f)) cs
        (calculate_file_hash C (short_read os) f cs) = Inr offer \<and>
      payload (snd (last (frame_tx tm'))) = FileOffer_encode offer"
  using assms
  by (auto simp: offer_file_def Let_def send_frame_def set_transfer_def initial_sender_def FileOffer_new_def
      Frame_new_def MAX_FILE_NAME_LEN_def split: if_splits)

lemma mset_map_permuted:
  "mset ys = mset (map g xs) \<Longrightarrow> \<exists>zs. ys = map g zs \<and> mset zs = mset xs"
proof (induction ys arbitrary: xs)
  case (Cons y ys)
  have "y \<in> set (map g xs)" using mset_eq_setD [OF Cons.prems] by auto
  then obtain x where x: "x \<in> set xs" "g x = y" by auto
  then have "mset xs = add_mset x (mset (remove1 x xs))" by simp
  then have "add_mset y (mset ys) = add_mset y (image_mset g (mset (remove1 x xs)))"
    using Cons.prems x(2) by (metis image_mset_add_mset mset.simps(2) mset_map)
  then have "mset ys = mset (map g (remove1 x xs))" by simp
  then obtain zs where "ys = map g zs" "mset zs = mset (remove1 x xs)" using Cons.IH by blast
  then show ?case using x by (intro exI [of _ "x # zs"]) simp
qed simp

lemma receive_permuted:
  assumes "receiving tm tid path f cs {}" "cs \<noteq> 0" "length f < 2 ^ 32"
    "mset chunks = mset (map (sent_chunk C tid f (unat cs)) [0 ..< chunk_count f (unat cs)])"
  shows "active_transfers (receive_all C chunks tm) tid = None \<and> tm_files (receive_all C chunks tm) path = Some f"
proof -
  obtain js where js: "chunks = map (sent_chunk C tid f (unat cs)) js" "mset js = mset [0 ..< chunk_count f (unat cs)]"
    using mset_map_permuted [OF assms(4)] by blast
  then have "distinct js" "set js = {..< chunk_count f (unat cs)} - {}"
    using mset_eq_imp_distinct_iff [OF js(2)] mset_eq_setD [OF js(2)] by (auto simp: atLeast0LessThan)
  then show ?thesis using receive_all_chunks [OF assms(1-3), of js C] by (simp add: Let_def js(1))
qed

lemma offer_accepted:
  assumes io: "\<And>q. \<not> create_err os q \<and> \<not> mmap_err os q" "\<And>q n. \<not> set_len_err os q n"
    and f: "fo_file_size offer = of_nat (length f)" "f \<noteq> []" "length f < 2 ^ 32"
    and cs: "fo_chunk_size offer \<noteq> 0" "fo_total_chunks offer = compute_total_chunks (of_nat (length f)) (fo_chunk_size offer)"
  shows "\<exists>tm'. handle_offer os q offer tm = (Inr (), tm') \<and>
    receiving tm' (fo_transfer_id offer) (path_join (download_dir tm) (fo_file_name offer)) f (fo_chunk_size offer) {} \<and>
    payload (snd (last (butlast (frame_tx tm')))) =
      FileAccept_encode (FileAccept_new (fo_transfer_id offer) (replicate (bitmap_len (fo_total_chunks offer)) 0xFF))"
proof -
  have fsz: "unat (of_nat (length f) :: u64) = length f" using f(3) by (simp add: unat_of_nat take_bit_eq_mod)
  have pos: "0 < unat (fo_chunk_size offer)" using cs(1) by (simp add: unat_gt_0)
  have "0 < chunk_count f (unat (fo_chunk_size offer))"
    using chunk_count_le_iff [OF pos, of f 0] f(2) by (cases "chunk_count f (unat (fo_chunk_size offer)) = 0") auto
  then have ne: "{} \<subset> {..< chunk_count f (unat (fo_chunk_size offer))}" by auto
  have tot: "unat (fo_total_chunks offer) = chunk_count f (unat (fo_chunk_size offer))"
    unfolding cs(2) by (rule total_chunks_small [OF f(3) cs(1)])
  show ?thesis
    using io ne tot fsz
    by (simp add: handle_offer_def Let_def receiving_def send_frame_def set_transfer_def f(1) resize_def
        Frame_new_def butlast_append)
qed

lemma sender_sends:
  assumes sha: "\<And>d. length (sha256 C d) = 32" and tid: "tid_ok tid"
    and st: "active_transfers tm tid = Some (Sending (initial_sender p f cs))" "cs \<noteq> 0" "length f < 2 ^ 32"
    and credit: "chunk_count f (unat cs) \<le> unat c"
  shows "\<exists>tm' tm''. handle_accept (FileAccept_new tid
      (replicate (bitmap_len (compute_total_chunks (of_nat (length f)) cs)) 0xFF)) tm = (Inr (), tm') \<and>
    handle_credit_update C tid c tm' = Some (Inr tm'') \<and>
    mapR (\<lambda>(a, fr). FileChunk_decode (payload fr)) (drop (length (frame_tx tm')) (frame_tx tm'')) =
      Inr (map (sent_chunk C tid f (unat cs)) [0 ..< chunk_count f (unat cs)])"
proof -
  let ?n = "chunk_count f (unat cs)" and ?st = "(initial_sender p f cs)\<lparr>ss_credits := c\<rparr>"
  let ?out = "map (\<lambda>i. (p, chunk_frame C tid f (unat cs) i)) [0 ..< ?n]"
  let ?tm' = "set_transfer tid (Sending (initial_sender p f cs)) tm"
  have tot: "unat (compute_total_chunks (of_nat (length f)) cs) = ?n" by (rule total_chunks_small [OF st(3,2)])
  then have "fresh_sender ?st" using st(2,3) by (simp add: fresh_sender_def initial_sender_def Let_def)
  from pump_loop_sends [OF this, of C tid "[]"] obtain st' where
    pump: "pump_loop C tid ?st [] = Inr (st', ?out)"
    using credit tot by (auto simp: initial_sender_def Let_def)
  let ?tm'' = "(set_transfer tid (Sending st') (set_transfer tid (Sending ?st) ?tm'))\<lparr>frame_tx := frame_tx tm @ ?out\<rparr>"
  have "handle_accept (FileAccept_new tid
      (replicate (bitmap_len (compute_total_chunks (of_nat (length f)) cs)) 0xFF)) tm = (Inr (), ?tm')"
    using st(1) by (simp add: handle_accept_def FileAccept_new_def initial_sender_def Let_def)
  moreover have "handle_credit_update C tid c ?tm' = Some (Inr ?tm'')"
    using pump by (simp add: handle_credit_update_def pump_send_def set_transfer_def initial_sender_def Let_def)
  moreover have "FileChunk_decode (payload (chunk_frame C tid f (unat cs) i)) = Inr (sent_chunk C tid f (unat cs) i)" for i
    using tid by (simp add: chunk_frame_def Frame_new_def file_chunk.dec_enc FileChunk_ok_def sent_chunk_def
        hash_chunk_def sha FILE_HASH_LEN_def)
  then have "mapR (\<lambda>(a, fr). FileChunk_decode (payload fr)) ?out = Inr (map (sent_chunk C tid f (unat cs)) [0 ..< ?n])"
    by (subst mapR_Inr [where g = "\<lambda>(a, fr). projr (FileChunk_decode (payload fr))"]) auto
  ultimately show ?thesis
    by (intro exI [of _ ?tm'] exI [of _ ?tm'']) (simp add: set_transfer_def)
qed



text \<open>The file hash does not depend on how the reads are split: it is the hash of the concatenated
  hashes of the chunks, the chunks being those the sender later sends.\<close>

lemma file_hash_of_chunks:
  assumes "chunk_size \<noteq> 0"
  shows "calculate_file_hash C short f chunk_size = take 32 (sha256 C (concat (map
    (\<lambda>i. fc_chunk_hash (sent_chunk C tid f (unat chunk_size) i)) [0 ..< chunk_count f (unat chunk_size)])))"
proof -
  have "0 < unat chunk_size" using assms by (simp add: unat_gt_0)
  from chunk_hashes_eq [OF this, of C short f 0] show ?thesis
    by (simp add: calculate_file_hash_def sent_chunk_def FILE_HASH_LEN_def)
qed

definition maps_ok :: "TransferManager \<Rightarrow> bool" where
  "maps_ok tm \<longleftrightarrow> (\<forall>tid st. active_transfers tm tid = Some (Receiving st) \<longrightarrow>
     map_option length (tm_files tm (rs_file_path st)) = Some (rs_map_len st))"

lemma handle_chunk_cases:
  obtains (other) "snd (handle_chunk C c tm) = tm"
      "\<And>st. active_transfers tm (fc_transfer_id c) = Some (Receiving st) \<Longrightarrow> hash_chunk C (fc_data c) = fc_chunk_hash c"
  | (bad) st where "active_transfers tm (fc_transfer_id c) = Some (Receiving st)"
      "hash_chunk C (fc_data c) \<noteq> fc_chunk_hash c"
      "handle_chunk C c tm = (Inl (Err TmBadHash), send_frame (rs_peer st) FileChunkAck (FileChunkAck_encode
         \<lparr>ack_transfer_id = fc_transfer_id c, ack_chunk_index = fc_chunk_index c, ack_status = BadHash\<rparr>) tm)"
  | (good) st where "active_transfers tm (fc_transfer_id c) = Some (Receiving st)"
      "hash_chunk C (fc_data c) = fc_chunk_hash c"
      "unat (fc_chunk_index c * rs_chunk_size st) + length (fc_data c) \<le> rs_map_len st"
proof (cases "\<exists>st. active_transfers tm (fc_transfer_id c) = Some (Receiving st)")
  case False
  have "snd (handle_chunk C c tm) = tm"
  proof (cases "active_transfers tm (fc_transfer_id c)")
    case (Some t)
    then show ?thesis using False by (cases t) (simp_all add: handle_chunk_def)
  qed (simp add: handle_chunk_def)
  then show ?thesis using False other by blast
next
  case True
  then obtain st where st: "active_transfers tm (fc_transfer_id c) = Some (Receiving st)" by blast
  show ?thesis
  proof (cases "hash_chunk C (fc_data c) = fc_chunk_hash c")
    case False
    then show ?thesis using st by (intro bad) (simp_all add: handle_chunk_def)
  next
    case hash: True
    show ?thesis
    proof (cases "unat (fc_chunk_index c * rs_chunk_size st) + length (fc_data c) \<le> rs_map_len st")
      case True
      then show ?thesis using st hash by (intro good)
    next
      case False
      then have "snd (handle_chunk C c tm) = tm" using st hash by (simp add: handle_chunk_def)
      then show ?thesis using hash other by blast
    qed
  qed
qed

text \<open>A receiving transfer, for examples.\<close>

definition example_receiver :: "u32 \<Rightarrow> u32 \<Rightarrow> byte list \<Rightarrow> TransferManager" where
  "example_receiver cs n g = \<lparr>active_transfers = [TransferId [1] \<mapsto> Receiving \<lparr>rs_peer = SockV4 [1, 2, 3, 4] 80,
      rs_map_len = length g, rs_expected_root = [], rs_bitfield = replicate (bitmap_len n) 0xFF, rs_chunk_size = cs,
      rs_total_chunks = n, rs_received_chunks = 0, rs_file_path = [65]\<rparr>],
     frame_tx = [], download_dir = [], tm_files = [[65] \<mapsto> g]\<rparr>"

text \<open>A chunk cannot write outside its own file: when the mapped length of every receiving transfer is
  the length of its file, handling any chunk keeps this, changes no other file and no length, and a chunk
  whose hash is wrong changes no file and no transfer, is answered by a negative acknowledgement and
  reported as an error.\<close>

lemma handle_chunk_contained:
  assumes "maps_ok tm"
  shows "let tm' = snd (handle_chunk C c tm)
    in maps_ok tm' \<and> (\<forall>p. map_option length (tm_files tm' p) = map_option length (tm_files tm p)) \<and>
       (\<forall>p. tm_files tm' p \<noteq> tm_files tm p \<longrightarrow>
         (\<exists>st. active_transfers tm (fc_transfer_id c) = Some (Receiving st) \<and> rs_file_path st = p \<and>
           hash_chunk C (fc_data c) = fc_chunk_hash c)) \<and>
       (\<forall>st. active_transfers tm (fc_transfer_id c) = Some (Receiving st) \<and> hash_chunk C (fc_data c) \<noteq> fc_chunk_hash c \<longrightarrow>
         fst (handle_chunk C c tm) = Inl (Err TmBadHash) \<and> active_transfers tm' = active_transfers tm \<and>
         (\<exists>fr. frame_tx tm' = frame_tx tm @ [(rs_peer st, fr)] \<and> msg_type (header fr) = FileChunkAck))"
proof (cases rule: handle_chunk_cases [of C c tm])
  case other
  then show ?thesis using assms unfolding Let_def other(1) by blast
next
  case (bad st)
  then show ?thesis using assms by (simp add: Let_def send_frame_def maps_ok_def Frame_new_def)
next
  case (good st)
  obtain g where g: "tm_files tm (rs_file_path st) = Some g" "length g = rs_map_len st"
    using assms good(1) by (fastforce simp: maps_ok_def)
  note h = handle_chunk_good [OF good g(1)]
  have len: "map_option length (tm_files (snd (handle_chunk C c tm)) p) = map_option length (tm_files tm p)" for p
    using g good(3) by (simp add: h length_splice)
  have "maps_ok (snd (handle_chunk C c tm))"
    using assms good(1) len unfolding maps_ok_def by (auto simp: h(2) split: if_splits)
  then show ?thesis using len good(1,2) by (auto simp: Let_def h(1))
qed

subsection \<open>Defects\<close>

text \<open>Every acknowledgement of a chunk blocks the sender: \<open>handle_chunk_ack\<close> calls \<open>pump_send\<close> while it
  still holds the guard of the transfer, so on a known outgoing transfer it never returns.\<close>

lemma handle_chunk_ack_None:
  "handle_chunk_ack C ack tm = None \<longleftrightarrow> (\<exists>st. active_transfers tm (ack_transfer_id ack) = Some (Sending st))"
  by (simp add: handle_chunk_ack_def pump_send_def Let_def split: option.splits TransferState.splits)

text \<open>C39. Chunks are counted, not tracked: receiving the same chunk as often as the file has chunks
  completes the transfer, although everything outside that chunk is still what it was before.\<close>

theorem duplicate_chunks_complete:
  assumes "active_transfers tm (fc_transfer_id c) = Some (Receiving st)" "tm_files tm (rs_file_path st) = Some g"
    and "hash_chunk C (fc_data c) = fc_chunk_hash c"
    and "unat (fc_chunk_index c * rs_chunk_size st) + length (fc_data c) \<le> rs_map_len st" "rs_map_len st = length g"
    and "unat (rs_total_chunks st) = unat (rs_received_chunks st) + Suc n"
  shows "active_transfers (receive_all C (replicate (Suc n) c) tm) (fc_transfer_id c) = None \<and>
    tm_files (receive_all C (replicate (Suc n) c) tm) (rs_file_path st) =
      Some (splice (unat (fc_chunk_index c * rs_chunk_size st)) (fc_data c) g)"
  using assms
proof (induction n arbitrary: tm st g)
  case 0
  note h = handle_chunk_good [OF 0(1,3,4,2)]
  have "rs_received_chunks st < rs_total_chunks st" using 0(6) by (simp add: word_less_nat_alt)
  then have "rs_received_chunks st + 1 = rs_total_chunks st"
    using 0(6) unat_inc_below [of "rs_received_chunks st"] by (simp add: word_unat_eq_iff)
  then show ?case by (simp add: receive_all_def h)
next
  case (Suc n)
  note h = handle_chunk_good [OF Suc.prems(1,3,4,2)]
  let ?o = "unat (fc_chunk_index c * rs_chunk_size st)" and ?tm = "snd (handle_chunk C c tm)"
  let ?st = "st\<lparr>rs_bitfield := bitmap_set_missing (rs_bitfield st) (fc_chunk_index c) False,
         rs_received_chunks := rs_received_chunks st + 1\<rparr>"
  have "rs_received_chunks st < rs_total_chunks st" using Suc.prems(6) by (simp add: word_less_nat_alt)
  then have inc: "unat (rs_received_chunks st + 1) = Suc (unat (rs_received_chunks st))" by (rule unat_inc_below)
  then have "rs_received_chunks st + 1 \<noteq> rs_total_chunks st" using Suc.prems(6) by (auto simp: word_unat_eq_iff)
  then have st': "active_transfers ?tm (fc_transfer_id c) = Some (Receiving ?st)" by (simp add: h(2))
  have idem: "splice ?o (fc_data c) (splice ?o (fc_data c) g) = splice ?o (fc_data c) g"
    using Suc.prems(4,5) by (simp add: splice_def)
  have "active_transfers (receive_all C (replicate (Suc n) c) ?tm) (fc_transfer_id c) = None \<and>
      tm_files (receive_all C (replicate (Suc n) c) ?tm) (rs_file_path ?st) =
        Some (splice (unat (fc_chunk_index c * rs_chunk_size ?st)) (fc_data c) (splice ?o (fc_data c) g))"
    by (rule Suc.IH [OF st']) (use Suc.prems inc in \<open>simp_all add: h(1) length_splice\<close>)
  then show ?case using idem by (simp add: receive_all_def)
qed

theorem duplicate_chunks_complete_witness:
  "let tm = receive_all toy_crypto (replicate 2 (sent_chunk toy_crypto (TransferId [1]) [1, 2, 3] 2 0)) (example_receiver 2 2 [0, 0, 0])
   in active_transfers tm (TransferId [1]) = None \<and> tm_files tm [65] = Some [1, 2, 0]"
proof -
  define c where "c = sent_chunk toy_crypto (TransferId [1]) [1, 2, 3] 2 0"
  let ?tm = "example_receiver 2 2 [0, 0, 0]"
  have c: "fc_chunk_index c = 0" "fc_data c = [1, 2]" "fc_transfer_id c = TransferId [1]"
    "hash_chunk toy_crypto (fc_data c) = fc_chunk_hash c"
    by (simp_all add: c_def sent_chunk_def file_chunk_def numeral_eq_Suc)
  obtain st where st: "active_transfers ?tm (fc_transfer_id c) = Some (Receiving st)" "rs_file_path st = [65]"
    "rs_map_len st = 3" "rs_received_chunks st = 0" "rs_total_chunks st = 2"
    by (simp add: example_receiver_def c(3))
  have two: "replicate 2 c = replicate (Suc 1) c" by (simp add: numeral_2_eq_2)
  have "tm_files ?tm (rs_file_path st) = Some [0, 0, 0]" by (simp add: example_receiver_def st(2))
  from duplicate_chunks_complete [OF st(1) this c(4), of 1] show ?thesis
    unfolding c_def [symmetric] two by (simp add: st(2-) c(1-3) Let_def splice_def)
qed

text \<open>Offsets wrap: a chunk whose offset is 4 GiB or more is written at that offset modulo 4 GiB, over
  data of an earlier chunk.\<close>

lemma chunk_offset_wraps:
  assumes "active_transfers tm (fc_transfer_id c) = Some (Receiving st)" "tm_files tm (rs_file_path st) = Some g"
    and "hash_chunk C (fc_data c) = fc_chunk_hash c"
    and "2 ^ 32 \<le> unat (fc_chunk_index c) * unat (rs_chunk_size st)" "2 ^ 32 + length (fc_data c) \<le> rs_map_len st"
    and "rs_map_len st = length g"
  shows "\<exists>off < 2 ^ 32. off = unat (fc_chunk_index c) * unat (rs_chunk_size st) mod 2 ^ 32 \<and>
    tm_files (snd (handle_chunk C c tm)) (rs_file_path st) = Some (splice off (fc_data c) g)"
proof -
  let ?o = "unat (fc_chunk_index c * rs_chunk_size st)"
  have o: "?o = unat (fc_chunk_index c) * unat (rs_chunk_size st) mod 2 ^ 32" by (simp add: unat_word_ariths)
  have "?o < 2 ^ 32" using unsigned_less [of "fc_chunk_index c * rs_chunk_size st", where 'a = nat] by simp
  moreover from this have "?o + length (fc_data c) \<le> rs_map_len st" using assms(5) by linarith
  ultimately show ?thesis using handle_chunk_good(1) [OF assms(1,3) _ assms(2)] o by auto
qed

text \<open>C40. An offer can name any file: a file name that is an absolute path makes the receiver create, or
  resize, exactly that file, wherever the download directory is.\<close>

theorem offer_escapes_download_dir:
  assumes "fo_file_name offer = 0x2F # rest"
    and "\<not> create_err os (0x2F # rest)" "\<not> set_len_err os (0x2F # rest) (fo_file_size offer)"
  shows "tm_files (snd (handle_offer os q offer tm)) (0x2F # rest) =
    Some (resize (unat (fo_file_size offer)) (case tm_files tm (0x2F # rest) of Some f \<Rightarrow> f | None \<Rightarrow> []))"
proof -
  have "path_join (download_dir tm) (fo_file_name offer) = 0x2F # rest" by (simp add: path_join_def assms(1))
  then show ?thesis
    using assms(2,3) by (simp add: handle_offer_def Let_def send_frame_def set_transfer_def)
qed

theorem offer_escapes_download_dir_witness:
  "tm_files (snd (handle_offer
      \<lparr>open_err = \<lambda>q. False, create_err = \<lambda>q. False, read_err = \<lambda>q. False, set_len_err = \<lambda>q n. False,
       mmap_err = \<lambda>q. False, short_read = \<lambda>n. 1\<rparr> (SockV4 [1, 2, 3, 4] 80)
      \<lparr>fo_transfer_id = TransferId [1], fo_file_name = [0x2F, 65], fo_file_size = 0, fo_chunk_size = 1,
       fo_total_chunks = 0, fo_file_hash = []\<rparr>
      (TransferManager_new [68] [[0x2F, 65] \<mapsto> [1, 2, 3]]))) [0x2F, 65] = Some []"
  by (subst offer_escapes_download_dir) (simp_all add: resize_def TransferManager_new_def)

subsection \<open>Flow control\<close>

text \<open>What the pump sends it pays for: one credit a chunk.\<close>

lemma pump_loop_pays:
  assumes "pump_loop C tid st out = Inr (st', out')" "tid_ok tid"
  shows "\<exists>xs. out' = out @ xs \<and> length xs + unat (ss_credits st') = unat (ss_credits st) \<and>
    ss_peer st' = ss_peer st \<and> ss_chunk_size st' = ss_chunk_size st \<and>
    (\<forall>(q, f) \<in> set xs. q = ss_peer st \<and> msg_type (header f) = FileChunk \<and>
       length (payload f) \<le> 53 + unat (ss_chunk_size st))"
  using assms
proof (induction C tid st out rule: pump_loop.induct)
  case (1 C tid st out)
  let ?idx = "ss_current_chunk_idx st"
  let ?start = "unat (?idx * ss_chunk_size st)"
  let ?stop = "min (?start + unat (ss_chunk_size st)) (length (ss_file_map st))"
  show ?case
  proof (cases "ss_credits st > 0 \<and> ?idx < ss_total_chunks st")
    case False
    then show ?thesis using "1.prems"(1) by (subst (asm) pump_loop.simps) auto
  next
    case go: True
    show ?thesis
    proof (cases "bitmap_is_missing (ss_bitfield st) ?idx")
      case False
      then have "pump_loop C tid (st\<lparr>ss_current_chunk_idx := ?idx + 1\<rparr>) out = Inr (st', out')"
        using "1.prems"(1) go by (subst (asm) pump_loop.simps) simp
      from "1.IH"(2) [OF go refl False this "1.prems"(2)] show ?thesis by simp
    next
      case miss: True
      let ?d = "take (?stop - ?start) (drop ?start (ss_file_map st))"
      let ?c = "\<lparr>fc_transfer_id = tid, fc_chunk_index = ?idx, fc_chunk_hash = hash_chunk C ?d, fc_data = ?d\<rparr>"
      let ?f = "Frame_new FileChunk Flags_empty 0 (FileChunk_encode ?c)"
      have stop: "\<not> ?stop < ?start" using "1.prems"(1) go miss by (subst (asm) pump_loop.simps) (auto simp: Let_def min_less_iff_disj split: if_splits)
      then have "pump_loop C tid (st\<lparr>ss_credits := ss_credits st - 1, ss_current_chunk_idx := ?idx + 1\<rparr>)
          (out @ [(ss_peer st, ?f)]) = Inr (st', out')"
        using "1.prems"(1) go miss by (subst (asm) pump_loop.simps) (simp add: Let_def min_less_iff_disj)
      from "1.IH"(1) [OF go refl miss refl refl stop refl refl refl this "1.prems"(2)] obtain xs where
        xs: "out' = (out @ [(ss_peer st, ?f)]) @ xs" "length xs + unat (ss_credits st') = unat (ss_credits st - 1)"
        "ss_peer st' = ss_peer st" "ss_chunk_size st' = ss_chunk_size st"
        "\<forall>(q, f) \<in> set xs. q = ss_peer st \<and> msg_type (header f) = FileChunk \<and> length (payload f) \<le> 53 + unat (ss_chunk_size st)"
        by auto
      have u: "unat (ss_credits st - 1) = unat (ss_credits st) - 1" "0 < unat (ss_credits st)"
        using go by (auto simp: unat_minus_one unat_gt_0)
      have "length (payload ?f) \<le> 53 + unat (ss_chunk_size st)"
        using "1.prems"(2) by (simp add: Frame_new_def FileChunk_encode_def hash_chunk_def tid_ok_def tr_lens)
      then show ?thesis using xs u by (intro exI [of _ "(ss_peer st, ?f) # xs"]) (auto simp: Frame_new_def)
    qed
  qed
qed


text \<open>Acceptances, of this or other transfers, and credits for this one, as they arrive.\<close>

fun sender_hears :: "crypto_impl \<Rightarrow> TransferId \<Rightarrow> (FileAccept + u32) list \<Rightarrow> TransferManager \<Rightarrow>
    (TmError, TransferManager) res option" where
  "sender_hears C tid [] tm = Some (Inr tm)"
| "sender_hears C tid (Inl a # es) tm = sender_hears C tid es (snd (handle_accept a tm))"
| "sender_hears C tid (Inr c # es) tm =
     (case handle_credit_update C tid c tm of
        Some (Inr tm) \<Rightarrow> sender_hears C tid es tm
      | r \<Rightarrow> r)"

definition credits_in :: "(FileAccept + u32) list \<Rightarrow> nat" where
  "credits_in es = sum_list (map (case_sum (\<lambda>_. 0) unat) es)"

lemma handle_accept_sending:
  assumes "active_transfers tm tid = Some (Sending st)"
  shows "\<exists>st'. active_transfers (snd (handle_accept a tm)) tid = Some (Sending st') \<and>
    ss_peer st' = ss_peer st \<and> ss_chunk_size st' = ss_chunk_size st \<and> ss_credits st' = ss_credits st \<and>
    frame_tx (snd (handle_accept a tm)) = frame_tx tm"
  using assms by (auto simp: handle_accept_def set_transfer_def split: option.splits TransferState.splits)

lemma handle_credit_pays:
  assumes "active_transfers tm tid = Some (Sending st)" "handle_credit_update C tid c tm = Some (Inr tm')" "tid_ok tid"
  obtains st' xs where "active_transfers tm' tid = Some (Sending st')" "frame_tx tm' = frame_tx tm @ xs"
    "ss_peer st' = ss_peer st" "ss_chunk_size st' = ss_chunk_size st"
    "length xs + unat (ss_credits st') \<le> unat (ss_credits st) + unat c"
    "\<forall>(q, f) \<in> set xs. q = ss_peer st \<and> msg_type (header f) = FileChunk \<and> length (payload f) \<le> 53 + unat (ss_chunk_size st)"
proof -
  let ?st = "st\<lparr>ss_credits := ss_credits st + c\<rparr>"
  obtain st' xs where p: "pump_loop C tid ?st [] = Inr (st', xs)" "active_transfers tm' tid = Some (Sending st')"
    "frame_tx tm' = frame_tx tm @ xs"
    using assms(1,2) by (auto simp: handle_credit_update_def pump_send_def set_transfer_def Let_def bindR_Inr_iff)
  from pump_loop_pays [OF p(1) assms(3)] have "length xs + unat (ss_credits st') = unat (ss_credits st + c)"
    "ss_peer st' = ss_peer st" "ss_chunk_size st' = ss_chunk_size st"
    "\<forall>(q, f) \<in> set xs. q = ss_peer st \<and> msg_type (header f) = FileChunk \<and> length (payload f) \<le> 53 + unat (ss_chunk_size st)"
    by auto
  moreover have "unat (ss_credits st + c) \<le> unat (ss_credits st) + unat c" by (simp add: unat_word_ariths)
  ultimately show thesis using that p(2,3) by simp
qed

text \<open>C24. Credit-based flow control: whatever acceptances and credits a sender receives, in whatever order, the frames
  it queues for a transfer are chunks for its peer, no more than the credits it held or was given since, and
  each within the chunk size and 53 bytes.\<close>

theorem credits_bound_chunks:
  assumes "active_transfers tm tid = Some (Sending st)" "tid_ok tid" "sender_hears C tid es tm = Some (Inr tm')"
  shows "\<exists>xs. frame_tx tm' = frame_tx tm @ xs \<and> length xs \<le> unat (ss_credits st) + credits_in es \<and>
    (\<forall>(q, f) \<in> set xs. q = ss_peer st \<and> msg_type (header f) = FileChunk \<and>
       length (payload f) \<le> 53 + unat (ss_chunk_size st))"
  using assms(1,3)
proof (induction es arbitrary: tm st)
  case Nil
  then show ?case by (simp add: credits_in_def)
next
  case (Cons e es)
  show ?case
  proof (cases e)
    case (Inl a)
    obtain st1 where "active_transfers (snd (handle_accept a tm)) tid = Some (Sending st1)"
      "ss_peer st1 = ss_peer st" "ss_chunk_size st1 = ss_chunk_size st" "ss_credits st1 = ss_credits st"
      "frame_tx (snd (handle_accept a tm)) = frame_tx tm"
      using handle_accept_sending [OF Cons.prems(1)] by blast
    with Cons.IH [of "snd (handle_accept a tm)" st1] Cons.prems(2) Inl show ?thesis by (simp add: credits_in_def)
  next
    case (Inr c)
    with Cons.prems(2) obtain tm1 where tm1: "handle_credit_update C tid c tm = Some (Inr tm1)" "sender_hears C tid es tm1 = Some (Inr tm')"
      by (auto split: option.splits sum.splits)
    obtain st1 xs where st1: "active_transfers tm1 tid = Some (Sending st1)" "frame_tx tm1 = frame_tx tm @ xs"
      "ss_peer st1 = ss_peer st" "ss_chunk_size st1 = ss_chunk_size st"
      "length xs + unat (ss_credits st1) \<le> unat (ss_credits st) + unat c"
      "\<forall>(q, f) \<in> set xs. q = ss_peer st \<and> msg_type (header f) = FileChunk \<and> length (payload f) \<le> 53 + unat (ss_chunk_size st)"
      by (rule handle_credit_pays [OF Cons.prems(1) tm1(1) assms(2)])
    from Cons.IH [OF st1(1) tm1(2)] obtain ys where "frame_tx tm' = frame_tx tm1 @ ys"
      "length ys \<le> unat (ss_credits st1) + credits_in es"
      "\<forall>(q, f) \<in> set ys. q = ss_peer st1 \<and> msg_type (header f) = FileChunk \<and> length (payload f) \<le> 53 + unat (ss_chunk_size st1)"
      by blast
    then show ?thesis
      using st1 Inr by (intro exI [of _ "xs @ ys"]) (auto simp: credits_in_def)
  qed
qed

theorem credits_bound_chunks_witness:
  "let tid = TransferId (replicate 16 7);
       tm = (TransferManager_new [68] Map.empty)\<lparr>active_transfers := [tid \<mapsto> Sending (initial_sender (SockV4 [1, 2, 3, 4] 80) [1, 2, 3] 1)]\<rparr>
   in \<exists>tm'. sender_hears toy_crypto tid [Inr 1, Inr 1] tm = Some (Inr tm') \<and> length (frame_tx tm') \<le> 2"
proof -
  let ?tid = "TransferId (replicate 16 7)" and ?p = "SockV4 [1, 2, 3, 4] 80"
  let ?tm = "(TransferManager_new [68] Map.empty)\<lparr>active_transfers := [?tid \<mapsto> Sending (initial_sender ?p [1, 2, 3] 1)]\<rparr>"
  have "\<exists>tm'. sender_hears toy_crypto ?tid [Inr 1, Inr 1] ?tm = Some (Inr tm')"
    by (simp add: handle_credit_update_def pump_send_def set_transfer_def initial_sender_def Let_def
        compute_total_chunks_def bitmap_len_def pump_loop.simps bitmap_is_missing_def TransferManager_new_def)
  then obtain tm' where tm': "sender_hears toy_crypto ?tid [Inr 1, Inr 1] ?tm = Some (Inr tm')" by blast
  from credits_bound_chunks [OF _ _ this] have "length (frame_tx tm') \<le> 2"
    by (auto simp: tid_ok_def tr_lens credits_in_def initial_sender_def TransferManager_new_def Let_def)
  with tm' show ?thesis unfolding Let_def by blast
qed

end
