(* ===== verification/Pool.thy ===== *)
theory Pool
  imports Peer_Info Wire_Types
begin

text \<open>
  \<open>ceky-transport\<close>: the life cycle and heartbeat of a connection (\<open>connection.rs\<close>) and the pool of
  connections (\<open>pool.rs\<close>).  The pool is a map from addresses; what the source collects by iterating over
  it, in no particular order, is a set.  \<open>insert\<close> first compares the size with the limit and then inserts;
  the two halves are definitions of their own because other tasks can run between them.
\<close>

subsection \<open>Connections\<close>

datatype ConnectionState = Connecting | Established | Closing | ClosedConn

record ConnectionConfig =
  heartbeat_interval :: time
  heartbeat_timeout :: time
  max_missed_heartbeats :: u32

definition ConnectionConfig_default :: ConnectionConfig where
  "ConnectionConfig_default = \<lparr>heartbeat_interval = 15 * NANOS, heartbeat_timeout = 5 * NANOS,
     max_missed_heartbeats = 3\<rparr>"

record ConnectionInfo =
  ci_peer_addr :: SocketAddr
  ci_state :: ConnectionState
  connected_at :: time
  last_recv :: time
  last_send :: time
  last_ping_sent :: "time option"
  missed_heartbeats :: u32
  bytes_recv :: u64
  ci_bytes_sent :: u64
  frames_recv :: u64
  frames_sent :: u64
  ci_config :: ConnectionConfig

definition ConnectionInfo_new :: "time \<Rightarrow> SocketAddr \<Rightarrow> ConnectionConfig \<Rightarrow> ConnectionInfo" where
  "ConnectionInfo_new now a cfg = \<lparr>ci_peer_addr = a, ci_state = Connecting, connected_at = now, last_recv = now,
     last_send = now, last_ping_sent = None, missed_heartbeats = 0, bytes_recv = 0, ci_bytes_sent = 0,
     frames_recv = 0, frames_sent = 0, ci_config = cfg\<rparr>"

definition set_established :: "ConnectionInfo \<Rightarrow> ConnectionInfo" where
  "set_established c = c\<lparr>ci_state := Established\<rparr>"

definition set_closing :: "ConnectionInfo \<Rightarrow> ConnectionInfo" where
  "set_closing c = c\<lparr>ci_state := Closing\<rparr>"

definition set_closed :: "ConnectionInfo \<Rightarrow> ConnectionInfo" where
  "set_closed c = c\<lparr>ci_state := ClosedConn\<rparr>"

definition record_recv :: "time \<Rightarrow> u64 \<Rightarrow> ConnectionInfo \<Rightarrow> ConnectionInfo" where
  "record_recv now n c = c\<lparr>last_recv := now, bytes_recv := bytes_recv c + n, frames_recv := frames_recv c + 1\<rparr>"

definition record_send :: "time \<Rightarrow> u64 \<Rightarrow> ConnectionInfo \<Rightarrow> ConnectionInfo" where
  "record_send now n c = c\<lparr>last_send := now, ci_bytes_sent := ci_bytes_sent c + n, frames_sent := frames_sent c + 1\<rparr>"

definition record_ping_sent :: "time \<Rightarrow> ConnectionInfo \<Rightarrow> ConnectionInfo" where
  "record_ping_sent now c = c\<lparr>last_ping_sent := Some now\<rparr>"

definition record_pong_received :: "time \<Rightarrow> ConnectionInfo \<Rightarrow> ConnectionInfo" where
  "record_pong_received now c = c\<lparr>missed_heartbeats := 0, last_ping_sent := None, last_recv := now\<rparr>"

definition should_send_ping :: "time \<Rightarrow> ConnectionInfo \<Rightarrow> bool" where
  "should_send_ping now c =
     (if ci_state c \<noteq> Established then False
      else if last_ping_sent c \<noteq> None then False
      else now - last_recv c \<ge> heartbeat_interval (ci_config c))"

definition is_dead :: "time \<Rightarrow> ConnectionInfo \<Rightarrow> bool" where
  "is_dead now c =
     (case last_ping_sent c of
        Some ping_time \<Rightarrow>
          if now - ping_time \<ge> heartbeat_timeout (ci_config c)
          then missed_heartbeats c + 1 \<ge> max_missed_heartbeats (ci_config c)
          else missed_heartbeats c \<ge> max_missed_heartbeats (ci_config c)
      | None \<Rightarrow> missed_heartbeats c \<ge> max_missed_heartbeats (ci_config c))"

definition record_missed_heartbeat :: "ConnectionInfo \<Rightarrow> ConnectionInfo" where
  "record_missed_heartbeat c = c\<lparr>missed_heartbeats := missed_heartbeats c + 1, last_ping_sent := None\<rparr>"

definition conn_uptime :: "time \<Rightarrow> ConnectionInfo \<Rightarrow> time" where
  "conn_uptime now c = now - connected_at c"

definition conn_idle_time :: "time \<Rightarrow> ConnectionInfo \<Rightarrow> time" where
  "conn_idle_time now c = now - last_recv c"

definition is_active :: "ConnectionInfo \<Rightarrow> bool" where
  "is_active c \<longleftrightarrow> ci_state c \<in> {Connecting, Established}"

subsection \<open>The pool\<close>

datatype TransportError = TIo | TProtocol ProtocolError | ConnectionClosed SocketAddr | PoolFull nat
  | TPeerNotFound SocketAddr | SendFailed | TTimeout SocketAddr

record ConnectionPool =
  connections :: "SocketAddr \<rightharpoonup> ConnectionInfo"
  max_connections :: nat
  default_config :: ConnectionConfig
  total_created :: u64
  total_removed :: u64

definition ConnectionPool_new :: "nat \<Rightarrow> ConnectionConfig \<Rightarrow> ConnectionPool" where
  "ConnectionPool_new n cfg = \<lparr>connections = Map.empty, max_connections = n, default_config = cfg,
     total_created = 0, total_removed = 0\<rparr>"

definition with_defaults :: ConnectionPool where
  "with_defaults = ConnectionPool_new 1024 ConnectionConfig_default"

definition pool_len :: "ConnectionPool \<Rightarrow> nat" where
  "pool_len p = card (dom (connections p))"

definition pool_is_empty :: "ConnectionPool \<Rightarrow> bool" where
  "pool_is_empty p \<longleftrightarrow> dom (connections p) = {}"

definition insert_check :: "ConnectionPool \<Rightarrow> (TransportError, unit) res" where
  "insert_check p =
     (if pool_len p \<ge> max_connections p then Inl (Err (PoolFull (max_connections p))) else Inr ())"

definition insert_entry :: "time \<Rightarrow> SocketAddr \<Rightarrow> ConnectionPool \<Rightarrow> ConnectionPool" where
  "insert_entry now a p =
     (case connections p a of
        Some _ \<Rightarrow> p
      | None \<Rightarrow> p\<lparr>connections := (connections p)(a \<mapsto> ConnectionInfo_new now a (default_config p)),
                  total_created := total_created p + 1\<rparr>)"

definition pool_insert :: "time \<Rightarrow> SocketAddr \<Rightarrow> ConnectionPool \<Rightarrow> (TransportError, unit) res \<times> ConnectionPool" where
  "pool_insert now a p =
     (case insert_check p of Inl e \<Rightarrow> (Inl e, p) | Inr _ \<Rightarrow> (Inr (), insert_entry now a p))"

definition pool_remove :: "SocketAddr \<Rightarrow> ConnectionPool \<Rightarrow> ConnectionInfo option \<times> ConnectionPool" where
  "pool_remove a p =
     (case connections p a of
        Some c \<Rightarrow> (Some c, p\<lparr>connections := (connections p)(a := None), total_removed := total_removed p + 1\<rparr>)
      | None \<Rightarrow> (None, p))"

definition pool_contains :: "SocketAddr \<Rightarrow> ConnectionPool \<Rightarrow> bool" where
  "pool_contains a p \<longleftrightarrow> connections p a \<noteq> None"

definition with_connection :: "SocketAddr \<Rightarrow> (ConnectionInfo \<Rightarrow> ConnectionInfo \<times> 'r) \<Rightarrow> ConnectionPool \<Rightarrow>
    'r option \<times> ConnectionPool" where
  "with_connection a f p =
     (case connections p a of
        Some c \<Rightarrow> (case f c of (c', r) \<Rightarrow> (Some r, p\<lparr>connections := (connections p)(a \<mapsto> c')\<rparr>))
      | None \<Rightarrow> (None, p))"

definition with_connection_ref :: "SocketAddr \<Rightarrow> (ConnectionInfo \<Rightarrow> 'r) \<Rightarrow> ConnectionPool \<Rightarrow> 'r option" where
  "with_connection_ref a f p = map_option f (connections p a)"

definition select_peers :: "(ConnectionInfo \<Rightarrow> bool) \<Rightarrow> ConnectionPool \<Rightarrow> SocketAddr set" where
  "select_peers q p = {a. \<exists>c. connections p a = Some c \<and> q c}"

definition peer_addrs :: "ConnectionPool \<Rightarrow> SocketAddr set" where
  "peer_addrs p = select_peers (\<lambda>c. True) p"

definition established_peers :: "ConnectionPool \<Rightarrow> SocketAddr set" where
  "established_peers p = select_peers (\<lambda>c. ci_state c = Established) p"

definition peers_needing_ping :: "time \<Rightarrow> ConnectionPool \<Rightarrow> SocketAddr set" where
  "peers_needing_ping now p = select_peers (should_send_ping now) p"

definition dead_peers :: "time \<Rightarrow> ConnectionPool \<Rightarrow> SocketAddr set" where
  "dead_peers now p = select_peers (is_dead now) p"

text \<open>Removing each of a set of addresses, in any order: each present one is counted.\<close>

definition remove_set :: "SocketAddr set \<Rightarrow> ConnectionPool \<Rightarrow> ConnectionPool" where
  "remove_set as p = p\<lparr>connections := connections p |` (- as),
     total_removed := total_removed p + of_nat (card (as \<inter> dom (connections p)))\<rparr>"

definition evict_idle :: "time \<Rightarrow> time \<Rightarrow> ConnectionPool \<Rightarrow> SocketAddr set \<times> ConnectionPool" where
  "evict_idle now max_idle p =
     (let idle_peers = select_peers (\<lambda>c. conn_idle_time now c > max_idle) p in (idle_peers, remove_set idle_peers p))"

definition pool_evict_dead :: "time \<Rightarrow> ConnectionPool \<Rightarrow> SocketAddr set \<times> ConnectionPool" where
  "pool_evict_dead now p = (let dead = dead_peers now p in (dead, remove_set dead p))"

record PoolStats =
  ps_active :: nat
  ps_established :: nat
  ps_connecting :: nat
  ps_closing :: nat
  ps_max :: nat
  ps_total_created :: u64
  ps_total_removed :: u64
  ps_total_bytes_recv :: u64
  ps_total_bytes_sent :: u64

definition pool_stats :: "ConnectionPool \<Rightarrow> PoolStats" where
  "pool_stats p = \<lparr>ps_active = pool_len p,
     ps_established = card (select_peers (\<lambda>c. ci_state c = Established) p),
     ps_connecting = card (select_peers (\<lambda>c. ci_state c = Connecting) p),
     ps_closing = card (select_peers (\<lambda>c. ci_state c = Closing) p),
     ps_max = max_connections p, ps_total_created = total_created p, ps_total_removed = total_removed p,
     ps_total_bytes_recv = (\<Sum>a \<in> dom (connections p). bytes_recv (the (connections p a))),
     ps_total_bytes_sent = (\<Sum>a \<in> dom (connections p). ci_bytes_sent (the (connections p a)))\<rparr>"

definition PoolStats_fmt :: "PoolStats \<Rightarrow> string" where
  "PoolStats_fmt s = ''Pool['' @ show_nat (ps_active s) @ ''/'' @ show_nat (ps_max s) @ '' active, '' @
     show_nat (ps_established s) @ '' established, '' @ show_nat (ps_connecting s) @ '' connecting, recv='' @
     show_nat (unat (ps_total_bytes_recv s)) @ ''B sent='' @ show_nat (unat (ps_total_bytes_sent s)) @ ''B]''"

subsection \<open>Removing a set is removing its members\<close>

lemma remove_set_empty [simp]: "remove_set {} p = p"
  by (simp add: remove_set_def restrict_map_def)

lemma remove_set_insert:
  assumes "a \<notin> as" "finite (dom (connections p))"
  shows "remove_set (insert a as) p = snd (pool_remove a (remove_set as p))"
proof (cases "connections p a")
  case None
  then have "insert a as \<inter> dom (connections p) = as \<inter> dom (connections p)"
    "connections p |` (- insert a as) = connections p |` (- as)"
    by (auto simp: restrict_map_def fun_eq_iff)
  then show ?thesis using None by (simp add: remove_set_def pool_remove_def restrict_map_def)
next
  case (Some c)
  have "insert a as \<inter> dom (connections p) = insert a (as \<inter> dom (connections p))" using Some by auto
  then have "card (insert a as \<inter> dom (connections p)) = Suc (card (as \<inter> dom (connections p)))"
    using assms by (simp add: card_insert_if)
  then show ?thesis using Some assms(1)
    by (auto simp: remove_set_def pool_remove_def restrict_map_def fun_eq_iff)
qed

lemma fold_pool_remove:
  "distinct as \<Longrightarrow> finite (dom (connections p)) \<Longrightarrow> fold (\<lambda>a p. snd (pool_remove a p)) as p = remove_set (set as) p"
proof (induction as rule: rev_induct)
  case (snoc a as)
  then show ?case using remove_set_insert [of a "set as" p] by simp
qed simp

subsection \<open>Invariants of the pool\<close>

datatype pool_op = PInsert time SocketAddr | PRemove SocketAddr | PWith SocketAddr "ConnectionInfo \<Rightarrow> ConnectionInfo"
  | PEvictIdle time time | PEvictDead time

fun pool_step :: "pool_op \<Rightarrow> ConnectionPool \<Rightarrow> ConnectionPool" where
  "pool_step (PInsert now a) p = snd (pool_insert now a p)"
| "pool_step (PRemove a) p = snd (pool_remove a p)"
| "pool_step (PWith a f) p = snd (with_connection a (\<lambda>c. (f c, ())) p)"
| "pool_step (PEvictIdle now t) p = snd (evict_idle now t p)"
| "pool_step (PEvictDead now) p = snd (pool_evict_dead now p)"

definition pool_inv :: "ConnectionPool \<Rightarrow> bool" where
  "pool_inv p \<longleftrightarrow> finite (dom (connections p)) \<and> pool_len p \<le> max_connections p \<and>
     of_nat (pool_len p) = total_created p - total_removed p"

lemma pool_inv_remove_set:
  assumes "pool_inv p"
  shows "pool_inv (remove_set as p)"
proof -
  let ?D = "dom (connections p)"
  have fin: "finite ?D" using assms by (simp add: pool_inv_def)
  have d: "dom (connections (remove_set as p)) = ?D - as" by (auto simp: remove_set_def)
  have "card ?D = card (?D - as) + card (as \<inter> ?D)"
    using card_Int_Diff [OF fin, of as] by (simp add: Int_commute)
  then show ?thesis
    using assms fin unfolding pool_inv_def pool_len_def d by (auto simp: remove_set_def algebra_simps)
qed

lemma pool_inv_step: "pool_inv p \<Longrightarrow> pool_inv (pool_step x p)"
proof (cases x)
  case (PInsert now a)
  assume "pool_inv p"
  then show ?thesis
    unfolding PInsert
    by (auto simp: pool_insert_def insert_check_def insert_entry_def pool_inv_def pool_len_def dom_def [symmetric]
        card_insert_if algebra_simps split: option.splits)
next
  case (PRemove a)
  assume p: "pool_inv p"
  then have "snd (pool_remove a p) = remove_set {a} p"
    using remove_set_insert [of a "{}" p] by (simp add: pool_inv_def)
  then show ?thesis using p by (simp add: PRemove pool_inv_remove_set)
next
  case (PWith a f)
  assume p: "pool_inv p"
  show ?thesis
  proof (cases "connections p a")
    case (Some c)
    then have "insert a (dom (connections p)) = dom (connections p)" by auto
    then show ?thesis using p Some by (simp add: PWith with_connection_def pool_inv_def pool_len_def)
  qed (use p in \<open>simp add: PWith with_connection_def\<close>)
next
  case (PEvictIdle now t)
  assume "pool_inv p"
  then show ?thesis by (simp add: PEvictIdle evict_idle_def Let_def pool_inv_remove_set)
next
  case (PEvictDead now)
  assume "pool_inv p"
  then show ?thesis by (simp add: PEvictDead pool_evict_dead_def Let_def pool_inv_remove_set)
qed

lemma pool_step_max [simp]: "max_connections (pool_step x p) = max_connections p"
  by (cases x) (simp_all add: pool_insert_def insert_check_def insert_entry_def pool_remove_def with_connection_def
      evict_idle_def pool_evict_dead_def remove_set_def Let_def split: option.splits prod.splits)

lemma pool_inv_run: "pool_inv p \<Longrightarrow> pool_inv (fold pool_step ops p)"
  by (induction ops arbitrary: p) (simp_all add: pool_inv_step)

text \<open>Calls that do not overlap keep the pool within its limit, and the counters account for its
  size: the connections are those created less those removed, modulo the width of the counters.\<close>

lemma pool_within_limit:
  "let p = fold pool_step ops (ConnectionPool_new n cfg)
   in pool_len p \<le> max_connections p \<and> of_nat (pool_len p) = total_created p - total_removed p"
proof -
  have "pool_inv (ConnectionPool_new n cfg)"
    by (simp add: pool_inv_def ConnectionPool_new_def pool_len_def)
  from pool_inv_run [OF this] show ?thesis by (simp add: pool_inv_def Let_def)
qed

text \<open>Two overlapping insertions exceed the limit: both compare before either inserts.\<close>

lemma overlapping_inserts_exceed_limit:
  assumes "pool_inv p" "Suc (pool_len p) = max_connections p" "a \<noteq> b" "\<not> pool_contains a p" "\<not> pool_contains b p"
  shows "insert_check p = Inr () \<and> pool_len (insert_entry now b (insert_entry now a p)) = Suc (max_connections p)"
proof -
  have "finite (dom (connections p))" using assms(1) by (simp add: pool_inv_def)
  moreover have "connections p a = None" "connections p b = None" "a \<notin> dom (connections p)" "b \<notin> dom (connections p)"
    using assms(4,5) by (auto simp: pool_contains_def)
  ultimately show ?thesis
    using assms(2,3) by (simp add: insert_check_def insert_entry_def pool_len_def)
qed

subsection \<open>Heartbeats\<close>

text \<open>A peer that answers nothing is found dead: after enough missed heartbeats it is evicted whatever
  the time, and a pong makes it alive again.\<close>

lemma record_missed_simps [simp]:
  "missed_heartbeats (record_missed_heartbeat c) = missed_heartbeats c + 1"
  "last_ping_sent (record_missed_heartbeat c) = None"
  "ci_config (record_missed_heartbeat c) = ci_config c"
  by (simp_all add: record_missed_heartbeat_def)

lemma missed_heartbeats_kill:
  assumes "n \<le> unat (max_missed_heartbeats (ci_config c))" "missed_heartbeats c = 0"
  shows "unat (missed_heartbeats ((record_missed_heartbeat ^^ n) c)) = n \<and>
    ci_config ((record_missed_heartbeat ^^ n) c) = ci_config c"
  using assms(1)
proof (induction n)
  case 0
  then show ?case by (simp add: assms(2))
next
  case (Suc n)
  let ?c = "(record_missed_heartbeat ^^ n) c"
  have ih: "unat (missed_heartbeats ?c) = n" "ci_config ?c = ci_config c" using Suc by simp_all
  have "Suc n < 2 ^ 32 \<or> Suc n = 2 ^ 32"
    using Suc.prems unsigned_less [of "max_missed_heartbeats (ci_config c)", where 'a = nat] by simp
  then have "Suc n < 2 ^ 32"
    using Suc.prems unsigned_less [of "max_missed_heartbeats (ci_config c)", where 'a = nat] by auto
  then have "unat (missed_heartbeats ?c + 1) = Suc n" using ih(1) by (simp add: unat_word_ariths)
  then show ?case using ih(2) by simp
qed

lemma silent_peer_dead:
  assumes "missed_heartbeats c = 0" "max_missed_heartbeats (ci_config c) \<noteq> 0"
  shows "is_dead now ((record_missed_heartbeat ^^ unat (max_missed_heartbeats (ci_config c))) c) \<and>
    \<not> is_dead now (record_pong_received now c)"
proof -
  let ?n = "unat (max_missed_heartbeats (ci_config c))"
  let ?c = "(record_missed_heartbeat ^^ ?n) c"
  have m: "unat (missed_heartbeats ?c) = ?n" "ci_config ?c = ci_config c"
    using missed_heartbeats_kill [OF order_refl assms(1)] by simp_all
  then have "missed_heartbeats ?c = max_missed_heartbeats (ci_config ?c)" by (simp add: word_unat_eq_iff)
  moreover obtain k where "?n = Suc k" using assms(2) by (cases ?n) (auto simp: unat_eq_0)
  then have "last_ping_sent ?c = None" by simp
  ultimately have "is_dead now ?c" by (simp add: is_dead_def)
  then show ?thesis using assms(2) by (auto simp: is_dead_def record_pong_received_def)
qed

end
