(* ===== verification/Tcp.thy ===== *)
theory Tcp
  imports Pool Codec
begin

text \<open>
  \<open>ceky-transport/src/tcp.rs\<close>: the TCP transport between the sockets and the event loop of the node.
  Its state is the pool, the queue of frames to each peer's writer task, and the events emitted to the
  node.  Accepting, connecting and the turns of the reader and writer tasks are operations; a reader gets
  what its \<open>FrameCodec\<close> makes of the bytes of the stream.  Whether a socket operation succeeds is an
  argument.  \<open>tcp_delivers\<close> joins a sender, the stream and a receiver.
\<close>

datatype TransportEvent =
    Connected SocketAddr
  | Disconnected SocketAddr string
  | FrameReceived SocketAddr Frame
  | TransportErr "SocketAddr option" string

text \<open>The channel to a writer task, with the frames that wait in it.  The task runs until a write fails
  or its channel is closed and drained; \<open>peer_senders\<close> maps an address to the channel of its current
  connection, as an index into \<open>channels\<close>.  A sender that is dropped leaves the channel to be drained.\<close>

record channel =
  running :: bool
  queue :: "Frame list"

record TcpTransport =
  listen_addr :: SocketAddr
  tcp_pool :: ConnectionPool
  peer_senders :: "SocketAddr \<rightharpoonup> nat"
  channels :: "channel list"
  tcp_events :: "TransportEvent list"

definition TcpTransport_bind :: "SocketAddr \<Rightarrow> ConnectionPool \<Rightarrow> TcpTransport" where
  "TcpTransport_bind a p =
     \<lparr>listen_addr = a, tcp_pool = p, peer_senders = Map.empty, channels = [], tcp_events = []\<rparr>"

definition emit :: "TransportEvent \<Rightarrow> TcpTransport \<Rightarrow> TcpTransport" where
  "emit ev t = t\<lparr>tcp_events := tcp_events t @ [ev]\<rparr>"

definition on_connection :: "SocketAddr \<Rightarrow> (ConnectionInfo \<Rightarrow> ConnectionInfo) \<Rightarrow> TcpTransport \<Rightarrow> TcpTransport" where
  "on_connection a f t = t\<lparr>tcp_pool := snd (with_connection a (\<lambda>c. (f c, ())) (tcp_pool t))\<rparr>"

text \<open>What accepting and connecting have in common once the peer is in the pool.\<close>

definition spawn_connection :: "SocketAddr \<Rightarrow> TcpTransport \<Rightarrow> TcpTransport" where
  "spawn_connection a t =
     (let t = on_connection a set_established (emit (Connected a) t)
      in t\<lparr>channels := channels t @ [\<lparr>running = True, queue = []\<rparr>],
           peer_senders := (peer_senders t)(a \<mapsto> length (channels t))\<rparr>)"

definition tcp_accept :: "time \<Rightarrow> SocketAddr \<Rightarrow> TcpTransport \<Rightarrow> TcpTransport" where
  "tcp_accept now a t =
     (case pool_insert now a (tcp_pool t) of
        (Inl e, p) \<Rightarrow> t\<lparr>tcp_pool := p\<rparr>
      | (Inr _, p) \<Rightarrow> spawn_connection a (t\<lparr>tcp_pool := p\<rparr>))"

definition tcp_connect :: "time \<Rightarrow> bool \<Rightarrow> SocketAddr \<Rightarrow> TcpTransport \<Rightarrow> (TransportError, unit) res \<times> TcpTransport" where
  "tcp_connect now reached a t =
     (if \<not> reached then (Inl (Err TIo), t)
      else
        (case pool_insert now a (tcp_pool t) of
           (Inl e, p) \<Rightarrow> (Inl e, t\<lparr>tcp_pool := p\<rparr>)
         | (Inr _, p) \<Rightarrow> (Inr (), spawn_connection a (t\<lparr>tcp_pool := p\<rparr>))))"

text \<open>\<open>UnboundedSender::send\<close>: it fails once the receiving task has ended.\<close>

definition channel_send :: "Frame \<Rightarrow> nat \<Rightarrow> TcpTransport \<Rightarrow> bool \<times> TcpTransport" where
  "channel_send f i t =
     (let c = channels t ! i
      in if running c then (True, t\<lparr>channels := (channels t)[i := c\<lparr>queue := queue c @ [f]\<rparr>]\<rparr>) else (False, t))"

definition tcp_send_to :: "time \<Rightarrow> SocketAddr \<Rightarrow> Frame \<Rightarrow> TcpTransport \<Rightarrow> (TransportError, unit) res \<times> TcpTransport" where
  "tcp_send_to now a f t =
     (case peer_senders t a of
        Some i \<Rightarrow>
          (case channel_send f i t of
             (True, t) \<Rightarrow> (Inr (), on_connection a (record_send now 0) t)
           | (False, t) \<Rightarrow> (Inl (Err SendFailed), t))
      | None \<Rightarrow> (Inl (Err (TPeerNotFound a)), t))"

text \<open>\<open>order\<close>: the order in which the senders are iterated.\<close>

definition broadcast :: "SocketAddr list \<Rightarrow> Frame \<Rightarrow> TcpTransport \<Rightarrow> TcpTransport" where
  "broadcast order f t =
     fold (\<lambda>a t. case peer_senders t a of Some i \<Rightarrow> snd (channel_send f i t) | None \<Rightarrow> t) order t"

definition disconnect :: "SocketAddr \<Rightarrow> TcpTransport \<Rightarrow> TcpTransport" where
  "disconnect a t = on_connection a set_closing (t\<lparr>peer_senders := (peer_senders t)(a := None)\<rparr>)"

text \<open>One turn of the writer task of channel \<open>i\<close>, whose peer is \<open>a\<close>: the frame it writes, if writing
  succeeds.\<close>

definition writer_step :: "time \<Rightarrow> bool \<Rightarrow> SocketAddr \<Rightarrow> nat \<Rightarrow> TcpTransport \<Rightarrow> Frame option \<times> TcpTransport" where
  "writer_step now written a i t =
     (let c = channels t ! i
      in case queue c of
           f # fs \<Rightarrow>
             if \<not> running c then (None, t)
             else if written then
               (Some f, on_connection a (record_send now (of_nat (wire_size f)))
                  (t\<lparr>channels := (channels t)[i := c\<lparr>queue := fs\<rparr>]\<rparr>))
             else (None, t\<lparr>channels := (channels t)[i := \<lparr>running = False, queue = []\<rparr>]\<rparr>)
         | [] \<Rightarrow> (None, t))"

text \<open>The reader task on a frame, and at the end of the stream, after an error or not.\<close>

definition reader_frame :: "time \<Rightarrow> SocketAddr \<Rightarrow> Frame \<Rightarrow> TcpTransport \<Rightarrow> TcpTransport" where
  "reader_frame now a f t =
     (let t = on_connection a (record_recv now (of_nat (wire_size f))) t
      in case msg_type (header f) of
           Ping \<Rightarrow>
             (case peer_senders t a of
                Some i \<Rightarrow> snd (channel_send (Frame_simple Pong (request_id (header f))) i t)
              | None \<Rightarrow> t)
         | Pong \<Rightarrow> on_connection a (record_pong_received now) t
         | _ \<Rightarrow> emit (FrameReceived a f) t)"

definition reader_end :: "SocketAddr \<Rightarrow> string option \<Rightarrow> TcpTransport \<Rightarrow> TcpTransport" where
  "reader_end a err t =
     (let t = (case err of Some e \<Rightarrow> emit (TransportErr (Some a) e) t | None \<Rightarrow> t);
          t = on_connection a set_closed (t\<lparr>peer_senders := (peer_senders t)(a := None)\<rparr>);
          t = t\<lparr>tcp_pool := snd (pool_remove a (tcp_pool t))\<rparr>
      in emit (Disconnected a ''connection closed'') t)"

text \<open>The loop of the reader over a stream that arrives in \<open>chunks\<close>; a protocol error ends it.\<close>

definition reader_stream :: "crc_impl \<Rightarrow> time \<Rightarrow> SocketAddr \<Rightarrow> byte list list \<Rightarrow> TcpTransport \<Rightarrow> TcpTransport" where
  "reader_stream crc now a chunks t =
     (case feed crc FrameCodec_new [] chunks of (fs, err, _) \<Rightarrow>
        let t = fold (reader_frame now a) fs t
        in case err of
             Some (Err e) \<Rightarrow> reader_end a (Some (ProtocolError_fmt e)) t
           | _ \<Rightarrow> t)"

text \<open>\<open>n\<close> turns of a writer whose writes succeed: the bytes it puts on the stream.  \<open>FramedWrite\<close>
  encodes each frame; a frame that cannot be encoded is a write error.\<close>

fun writer_run :: "crc_impl \<Rightarrow> time \<Rightarrow> SocketAddr \<Rightarrow> nat \<Rightarrow> nat \<Rightarrow> TcpTransport \<Rightarrow> byte list \<times> TcpTransport" where
  "writer_run crc now a i 0 t = ([], t)"
| "writer_run crc now a i (Suc n) t =
     (case queue (channels t ! i) of
        [] \<Rightarrow> ([], t)
      | f # _ \<Rightarrow>
          (case encode crc f [] of
             Inr bs \<Rightarrow>
               (case writer_step now True a i t of (_, t) \<Rightarrow>
                  case writer_run crc now a i n t of (bs', t) \<Rightarrow> (bs @ bs', t))
           | Inl _ \<Rightarrow> ([], snd (writer_step now False a i t))))"

subsection \<open>Frame lemmas\<close>

lemma on_connection_frame [simp]:
  "peer_senders (on_connection a f t) = peer_senders t" "tcp_events (on_connection a f t) = tcp_events t"
  "channels (on_connection a f t) = channels t"
  by (simp_all add: on_connection_def)

lemma channel_send_frame [simp]:
  "peer_senders (snd (channel_send f i t)) = peer_senders t" "tcp_events (snd (channel_send f i t)) = tcp_events t"
  "tcp_pool (snd (channel_send f i t)) = tcp_pool t" "length (channels (snd (channel_send f i t))) = length (channels t)"
  by (simp_all add: channel_send_def Let_def)

lemma spawn_connection_frame [simp]:
  "peer_senders (spawn_connection a t) = (peer_senders t)(a \<mapsto> length (channels t))"
  "channels (spawn_connection a t) = channels t @ [\<lparr>running = True, queue = []\<rparr>]"
  "tcp_events (spawn_connection a t) = tcp_events t @ [Connected a]"
  by (simp_all add: spawn_connection_def emit_def Let_def)

text \<open>Every sender is a channel, of a connection that is in the pool.\<close>

definition senders_ok :: "TcpTransport \<Rightarrow> bool" where
  "senders_ok t \<longleftrightarrow>
     (\<forall>a i. peer_senders t a = Some i \<longrightarrow> i < length (channels t) \<and> pool_contains a (tcp_pool t))"

lemma pool_contains_on_connection [simp]: "pool_contains b (tcp_pool (on_connection a f t)) = pool_contains b (tcp_pool t)"
  by (simp add: on_connection_def with_connection_def pool_contains_def split: option.splits prod.splits)

lemma pool_contains_insert:
  "pool_contains b (tcp_pool t) \<Longrightarrow> pool_contains b (snd (pool_insert now a (tcp_pool t)))"
  "pool_insert now a p = (Inr u, p') \<Longrightarrow> pool_contains a p'"
  by (auto simp: pool_insert_def insert_entry_def pool_contains_def split: sum.splits option.splits)

lemma tcp_send_to_channel:
  assumes "peer_senders t a = Some i" "running (channels t ! i)"
  shows "fst (tcp_send_to now a f t) = Inr ()"
    "channels (snd (tcp_send_to now a f t)) = (channels t)[i := (channels t ! i)\<lparr>queue := queue (channels t ! i) @ [f]\<rparr>]"
    "peer_senders (snd (tcp_send_to now a f t)) = peer_senders t"
    "tcp_events (snd (tcp_send_to now a f t)) = tcp_events t"
  using assms by (simp_all add: tcp_send_to_def channel_send_def Let_def)

subsection \<open>The invariant of the transport\<close>

definition tcp_inv :: "nat \<Rightarrow> TcpTransport \<Rightarrow> bool" where
  "tcp_inv k t \<longleftrightarrow> pool_inv (tcp_pool t) \<and> max_connections (tcp_pool t) = k \<and> senders_ok t"

lemma tcp_inv_bind: "tcp_inv k (TcpTransport_bind a (ConnectionPool_new k cfg))"
  by (simp add: tcp_inv_def senders_ok_def TcpTransport_bind_def pool_inv_def ConnectionPool_new_def pool_len_def)

lemma tcp_inv_on_connection [simp]: "tcp_inv k t \<Longrightarrow> tcp_inv k (on_connection a f t)"
  using pool_inv_step [of "tcp_pool t" "PWith a f"] pool_step_max [of "PWith a f" "tcp_pool t"]
    pool_contains_on_connection [of _ a f t]
  by (auto simp: tcp_inv_def senders_ok_def on_connection_def)

lemma tcp_inv_channel_send [simp]: "tcp_inv k t \<Longrightarrow> tcp_inv k (snd (channel_send f i t))"
  by (simp add: tcp_inv_def senders_ok_def)

lemma tcp_inv_emit [simp]: "tcp_inv k (emit ev t) = tcp_inv k t"
  by (simp add: tcp_inv_def senders_ok_def emit_def)

lemma tcp_inv_spawn: "tcp_inv k t \<Longrightarrow> pool_contains a (tcp_pool t) \<Longrightarrow> tcp_inv k (spawn_connection a t)"
proof -
  assume t: "tcp_inv k t" "pool_contains a (tcp_pool t)"
  have p: "tcp_pool (spawn_connection a t) = tcp_pool (on_connection a set_established t)"
    by (simp add: spawn_connection_def on_connection_def emit_def Let_def)
  then have "pool_inv (tcp_pool (spawn_connection a t)) \<and> max_connections (tcp_pool (spawn_connection a t)) = k"
    using tcp_inv_on_connection [OF t(1), of a set_established] by (simp add: tcp_inv_def)
  moreover have "senders_ok (spawn_connection a t)"
    using t by (auto simp: tcp_inv_def senders_ok_def less_Suc_eq p)
  ultimately show ?thesis by (simp add: tcp_inv_def)
qed

lemma tcp_inv_inserted: "tcp_inv k t \<Longrightarrow> tcp_inv k (t\<lparr>tcp_pool := snd (pool_insert now a (tcp_pool t))\<rparr>)"
  using pool_inv_step [of "tcp_pool t" "PInsert now a"] pool_step_max [of "PInsert now a" "tcp_pool t"]
  by (simp add: tcp_inv_def senders_ok_def pool_contains_insert(1))

lemma tcp_inv_accept: "tcp_inv k t \<Longrightarrow> tcp_inv k (tcp_accept now a t)"
  using tcp_inv_inserted [of k t now a]
  by (auto simp: tcp_accept_def intro!: tcp_inv_spawn dest: pool_contains_insert(2) split: prod.splits sum.splits)

lemma tcp_inv_connect: "tcp_inv k t \<Longrightarrow> tcp_inv k (snd (tcp_connect now r a t))"
  using tcp_inv_inserted [of k t now a]
  by (auto simp: tcp_connect_def intro!: tcp_inv_spawn dest: pool_contains_insert(2) split: prod.splits sum.splits)

lemma tcp_inv_send_to [simp]: "tcp_inv k t \<Longrightarrow> tcp_inv k (snd (tcp_send_to now a f t))"
proof (cases "peer_senders t a")
  case (Some i)
  assume "tcp_inv k t"
  moreover obtain sent u where "channel_send f i t = (sent, u)" by (cases "channel_send f i t")
  ultimately show ?thesis using Some tcp_inv_channel_send [of k t f i] by (cases sent) (simp_all add: tcp_send_to_def)
qed (simp add: tcp_send_to_def)

lemma tcp_inv_drop_sender: "tcp_inv k t \<Longrightarrow> tcp_inv k (t\<lparr>peer_senders := (peer_senders t)(a := None)\<rparr>)"
  by (simp add: tcp_inv_def senders_ok_def)

lemma tcp_inv_reader_frame: "tcp_inv k t \<Longrightarrow> tcp_inv k (reader_frame now a f t)"
  by (cases "msg_type (header f)") (simp_all add: reader_frame_def Let_def split: option.splits)

lemma tcp_inv_reader_end: "tcp_inv k t \<Longrightarrow> tcp_inv k (reader_end a err t)"
proof -
  assume t: "tcp_inv k t"
  have removed: "tcp_inv k u \<Longrightarrow> peer_senders u a = None \<Longrightarrow> tcp_inv k (u\<lparr>tcp_pool := snd (pool_remove a (tcp_pool u))\<rparr>)" for u
    using pool_inv_step [of "tcp_pool u" "PRemove a"] pool_step_max [of "PRemove a" "tcp_pool u"]
    by (auto simp: tcp_inv_def senders_ok_def pool_remove_def pool_contains_def split: option.splits)
  have "tcp_inv k (case err of Some e \<Rightarrow> emit (TransportErr (Some a) e) t | None \<Rightarrow> t)"
    using t by (simp split: option.splits)
  from removed [OF tcp_inv_on_connection [OF tcp_inv_drop_sender [OF this]]] show ?thesis
    by (simp add: reader_end_def Let_def)
qed

lemma tcp_inv_writer_step: "tcp_inv k t \<Longrightarrow> tcp_inv k (snd (writer_step now w a i t))"
proof -
  assume t: "tcp_inv k t"
  then have "tcp_inv k (t\<lparr>channels := (channels t)[i := c]\<rparr>)" for c
    by (simp add: tcp_inv_def senders_ok_def)
  then show ?thesis using t by (simp add: writer_step_def Let_def split: list.splits)
qed

subsection \<open>What the node sees of the frames\<close>

lemma reader_frames_events:
  "tcp_events (fold (reader_frame now a) fs t) =
     tcp_events t @ map (FrameReceived a) (filter (\<lambda>f. msg_type (header f) \<notin> {Ping, Pong}) fs)"
proof (induction fs arbitrary: t)
  case (Cons f fs)
  have "tcp_events (reader_frame now a f t) =
      tcp_events t @ (if msg_type (header f) \<in> {Ping, Pong} then [] else [FrameReceived a f])"
    by (cases "msg_type (header f)") (simp_all add: reader_frame_def Let_def emit_def split: option.splits)
  then show ?case by (simp add: Cons.IH)
qed simp

lemma writer_run_drains:
  assumes "queue (channels t ! i) = fs" "i < length (channels t)" "running (channels t ! i)" "list_all frame_ok fs"
  shows "fst (writer_run crc now a i (length fs) t) = concat (map (wire crc) fs)"
  using assms
proof (induction fs arbitrary: t)
  case (Cons f fs)
  define u where "u = snd (writer_step now True a i t)"
  have step: "writer_step now True a i t = (Some f, u)" and c: "channels u = (channels t)[i := (channels t ! i)\<lparr>queue := fs\<rparr>]"
    using Cons.prems(1,3) by (simp_all add: u_def writer_step_def)
  have "fst (writer_run crc now a i (length fs) u) = concat (map (wire crc) fs)"
    using Cons.IH [of u] Cons.prems(2-4) c by simp
  then show ?case
    using step Cons.prems(1,4) by (simp add: encode_ok case_prod_beta)
qed simp

lemma tcp_send_all:
  assumes "i < length (channels t)" "peer_senders t a = Some i" "running (channels t ! i)"
  shows "let t' = fold (\<lambda>f t. snd (tcp_send_to now a f t)) fs t
    in queue (channels t' ! i) = queue (channels t ! i) @ fs \<and> running (channels t' ! i) \<and> i < length (channels t')"
  using assms
proof (induction fs arbitrary: t)
  case (Cons f fs)
  let ?t = "snd (tcp_send_to now a f t)"
  have c: "channels ?t = (channels t)[i := (channels t ! i)\<lparr>queue := queue (channels t ! i) @ [f]\<rparr>]"
    "peer_senders ?t = peer_senders t"
    using tcp_send_to_channel(2,3) [OF Cons.prems(2,3)] by simp_all
  show ?case using Cons.IH [of ?t] Cons.prems c by (simp add: Let_def)
qed (simp add: Let_def)

lemma stream_events:
  assumes "list_all frame_ok fs" "concat chunks = concat (map (wire crc) fs)"
  shows "tcp_events (reader_stream crc now a chunks r) =
    tcp_events r @ map (FrameReceived a) (filter (\<lambda>f. msg_type (header f) \<notin> {Ping, Pong}) (map (seal crc) fs))"
proof -
  have "outcome (feed crc FrameCodec_new [] chunks) = outcome (drain crc FrameCodec_new (concat chunks))"
    by (rule feed_new)
  then have "outcome (feed crc FrameCodec_new [] chunks) = (map (seal crc) fs, None, FrameCodec_new)"
    using drain_wire [OF assms(1), of crc] by (simp add: assms(2) outcome_def)
  then obtain buf where "feed crc FrameCodec_new [] chunks = (map (seal crc) fs, None, FrameCodec_new, buf)"
    by (cases "feed crc FrameCodec_new [] chunks") (auto simp: outcome_def)
  then show ?thesis by (simp add: reader_stream_def Let_def reader_frames_events)
qed

text \<open>C18. From one transport to the other: the frames one node sends to a peer whose connection is open
  and idle, once its writer has drained the channel, and with the stream delivered in pieces cut anywhere, reach
  the node at the other end in order, unchanged but for the checksum, and without error - except for the
  pings and pongs, which the reader answers or counts itself and the node never sees.\<close>

theorem tcp_delivers:
  assumes "i < length (channels s)" "peer_senders s b = Some i" "channels s ! i = \<lparr>running = True, queue = []\<rparr>"
    and "list_all frame_ok fs"
    and "concat chunks = fst (writer_run crc now b i (length fs) (fold (\<lambda>f s. snd (tcp_send_to now b f s)) fs s))"
  shows "tcp_events (reader_stream crc now' a chunks r) =
    tcp_events r @ map (FrameReceived a) (filter (\<lambda>f. msg_type (header f) \<notin> {Ping, Pong}) (map (seal crc) fs))"
proof -
  let ?s = "fold (\<lambda>f s. snd (tcp_send_to now b f s)) fs s"
  have "queue (channels ?s ! i) = fs" "running (channels ?s ! i)" "i < length (channels ?s)"
    using tcp_send_all [of i s b now fs] assms(1-3) by (simp_all add: Let_def)
  then have "concat chunks = concat (map (wire crc) fs)"
    using writer_run_drains [of ?s i fs crc now b] assms(4,5) by simp
  then show ?thesis by (rule stream_events [OF assms(4)])
qed

text \<open>An example: a chat frame, a ping and another chat frame, read byte by byte.\<close>

definition example_addr :: SocketAddr where
  "example_addr = SockV4 [127, 0, 0, 1] 9741"

definition example_sender :: TcpTransport where
  "example_sender = tcp_accept 0 example_addr (TcpTransport_bind example_addr (ConnectionPool_new 4 ConnectionConfig_default))"

theorem tcp_delivers_witness:
  "let hello = Frame_new Data (Flags 1) 0 [104, 105]; ping = Frame_new Ping (Flags 1) 1 [7];
       fs = [hello, ping, hello];
       bytes = fst (writer_run sum_crc 0 example_addr 0 (length fs)
         (fold (\<lambda>f s. snd (tcp_send_to 0 example_addr f s)) fs example_sender));
       r = TcpTransport_bind example_addr with_defaults
   in tcp_events (reader_stream sum_crc 5 example_addr (map (\<lambda>b. [b]) bytes) r) =
      [FrameReceived example_addr (seal sum_crc hello), FrameReceived example_addr (seal sum_crc hello)]"
proof -
  let ?h = "Frame_new Data (Flags 1) 0 [104, 105]" and ?p = "Frame_new Ping (Flags 1) 1 [7]"
  have c: "channels example_sender = [\<lparr>running = True, queue = []\<rparr>]" "peer_senders example_sender example_addr = Some 0"
    by (simp_all add: example_sender_def tcp_accept_def pool_insert_def insert_check_def insert_entry_def
        pool_len_def TcpTransport_bind_def ConnectionPool_new_def)
  have ok: "list_all frame_ok [?h, ?p, ?h]" by (simp add: frame_ok_new unat_MAX_PAYLOAD_SIZE)
  have m: "msg_type (header (seal sum_crc ?h)) = Data" "msg_type (header (seal sum_crc ?p)) = Ping"
    by (simp_all add: seal_def Frame_new_def)
  define bs where "bs = fst (writer_run sum_crc 0 example_addr 0 (length [?h, ?p, ?h])
    (fold (\<lambda>f s. snd (tcp_send_to 0 example_addr f s)) [?h, ?p, ?h] example_sender))"
  have bytes: "concat (map (\<lambda>b. [b]) bs) = fst (writer_run sum_crc 0 example_addr 0 (length [?h, ?p, ?h])
    (fold (\<lambda>f s. snd (tcp_send_to 0 example_addr f s)) [?h, ?p, ?h] example_sender))"
    unfolding bs_def [symmetric] by (induction bs) simp_all
  have "tcp_events (reader_stream sum_crc 5 example_addr (map (\<lambda>b. [b]) bs) r) = tcp_events r @
      map (FrameReceived example_addr) (filter (\<lambda>f. msg_type (header f) \<notin> {Ping, Pong}) (map (seal sum_crc) [?h, ?p, ?h]))" for r
    by (rule tcp_delivers [OF _ c(2) _ ok bytes]) (simp_all add: c(1))
  then show ?thesis unfolding Let_def bs_def [symmetric] by (simp add: m TcpTransport_bind_def)
qed

end
