(* ===== verification/Telemetry.thy ===== *)
theory Telemetry
  imports Prelude
begin

text \<open>
  \<open>ceky-telemetry\<close>: the counters of \<open>metrics.rs\<close>, the log messages of \<open>logger.rs\<close>, the state and the loop
  of the terminal display of \<open>app.rs\<close>, and the texts \<open>ui.rs\<close> shows.  An \<open>AtomicUsize\<close> is a 64 bit word and
  text is UTF-8 bytes.  The terminal library with its layout and styles is not modelled; what a value prints
  for debugging, the clock's text, key presses and ticks are arguments.
\<close>

record TransferProgress =
  tp_transfer_id :: "byte list"
  tp_file_name :: "byte list"
  tp_total_chunks :: u32
  tp_completed_chunks :: u32
  tp_is_sending :: bool

record GlobalMetrics =
  tx_bytes :: u64
  rx_bytes :: u64
  tx_rate :: u64
  rx_rate :: u64
  active_tcp_connections :: u64
  dht_active_peers :: u64
  dht_total_peers :: u64
  transfers :: "TransferProgress list"

definition GlobalMetrics_new :: GlobalMetrics where
  "GlobalMetrics_new = \<lparr>tx_bytes = 0, rx_bytes = 0, tx_rate = 0, rx_rate = 0, active_tcp_connections = 0,
     dht_active_peers = 0, dht_total_peers = 0, transfers = []\<rparr>"

definition saturating_sub :: "'a::len word \<Rightarrow> 'a word \<Rightarrow> 'a word" where
  "saturating_sub x y = (if y \<le> x then x - y else 0)"

lemma unat_saturating_sub: "unat (saturating_sub x y) = unat x - unat y"
  by (simp add: saturating_sub_def unat_sub word_le_nat_alt)

subsection \<open>The display\<close>

record 'l TuiApp =
  logs :: "'l list"
  tx_history :: "u64 list"
  rx_history :: "u64 list"

definition TuiApp_new :: "'l TuiApp" where
  "TuiApp_new = \<lparr>logs = [], tx_history = replicate 100 0, rx_history = replicate 100 0\<rparr>"

definition push_log :: "'l \<Rightarrow> 'l list \<Rightarrow> 'l list" where
  "push_log l ls = (let ls = ls @ [l] in if length ls > 100 then tl ls else ls)"

text \<open>A tick: the messages waiting in the channel, and the current rates.  \<open>Vec::remove(0)\<close> panics on an
  empty vector.\<close>

definition shift_in :: "u64 \<Rightarrow> u64 list \<Rightarrow> (unit, u64 list) res" where
  "shift_in x h = (if h = [] then Inl Panic else Inr (tl h @ [x]))"

definition on_tick :: "GlobalMetrics \<Rightarrow> 'l list \<Rightarrow> 'l TuiApp \<Rightarrow> (unit, 'l TuiApp) res" where
  "on_tick m waiting app =
     (let app = app\<lparr>logs := fold push_log waiting (logs app)\<rparr>
      in bindR (shift_in (tx_rate m) (tx_history app)) (\<lambda>tx.
         bindR (shift_in (rx_rate m) (rx_history app)) (\<lambda>rx.
         Inr (app\<lparr>tx_history := tx, rx_history := rx\<rparr>))))"

fun run_ticks :: "(GlobalMetrics \<times> 'l list) list \<Rightarrow> 'l TuiApp \<Rightarrow> (unit, 'l TuiApp) res" where
  "run_ticks [] app = Inr app"
| "run_ticks ((m, waiting) # ts) app = bindR (on_tick m waiting app) (run_ticks ts)"

text \<open>The last \<open>n\<close> elements of a list.\<close>

definition last_n :: "nat \<Rightarrow> 'a list \<Rightarrow> 'a list" where
  "last_n n xs = drop (length xs - n) xs"

lemma last_n_shift: "n \<le> length xs \<Longrightarrow> n \<noteq> 0 \<Longrightarrow> tl (last_n n xs) @ [x] = last_n n (xs @ [x])"
proof -
  assume "n \<le> length xs" "n \<noteq> 0"
  then have "Suc (length xs) - n = Suc (length xs - n)" by simp
  then show ?thesis using \<open>n \<noteq> 0\<close> by (simp add: last_n_def tl_drop drop_Suc)
qed

lemma push_log_last_n: "push_log l (last_n 100 ls) = last_n 100 (ls @ [l])"
proof (cases "length ls < 100")
  case False
  then have "length (last_n 100 ls) = 100" by (simp add: last_n_def)
  moreover from this have "last_n 100 ls \<noteq> []" by auto
  ultimately show ?thesis using False last_n_shift [of 100 ls l] by (simp add: push_log_def)
qed (simp add: push_log_def last_n_def)

lemma fold_push_log: "fold push_log ws (last_n 100 ls) = last_n 100 (ls @ ws)"
  by (induction ws arbitrary: ls) (simp_all add: push_log_last_n)

lemma shift_in_last_n: "shift_in x (last_n 100 (h @ hs)) = Inr (last_n 100 (h @ hs @ [x]))" if "length h = 100"
proof -
  have "length (last_n 100 (h @ hs)) = 100" using that by (simp add: last_n_def)
  then have "last_n 100 (h @ hs) \<noteq> []" by auto
  moreover have "tl (last_n 100 (h @ hs)) @ [x] = last_n 100 (h @ hs @ [x])"
    using that last_n_shift [of 100 "h @ hs" x] by simp
  ultimately show ?thesis by (simp add: shift_in_def)
qed

text \<open>The display never panics; it shows the last hundred log messages and the last hundred rates.\<close>

lemma run_ticks_last_100:
  "run_ticks ts TuiApp_new = Inr \<lparr>logs = last_n 100 (concat (map snd ts)),
     tx_history = last_n 100 (replicate 100 0 @ map (tx_rate \<circ> fst) ts),
     rx_history = last_n 100 (replicate 100 0 @ map (rx_rate \<circ> fst) ts)\<rparr>"
proof -
  have "run_ticks ts \<lparr>logs = last_n 100 ls, tx_history = last_n 100 (replicate 100 0 @ tx),
      rx_history = last_n 100 (replicate 100 0 @ rx)\<rparr> =
    Inr \<lparr>logs = last_n 100 (ls @ concat (map snd ts)),
      tx_history = last_n 100 (replicate 100 0 @ tx @ map (tx_rate \<circ> fst) ts),
      rx_history = last_n 100 (replicate 100 0 @ rx @ map (rx_rate \<circ> fst) ts)\<rparr>" for ls tx rx
  proof (induction ts arbitrary: ls tx rx)
    case (Cons t ts)
    obtain m w where t: "t = (m, w)" by (cases t)
    show ?case
      using Cons.IH [of "ls @ w" "tx @ [tx_rate m]" "rx @ [rx_rate m]"]
      by (simp add: t on_tick_def Let_def fold_push_log shift_in_last_n)
  qed simp
  from this [of "[]" "[]" "[]"] show ?thesis by (simp add: TuiApp_new_def last_n_def)
qed

text \<open>The loop of the display, one turn at a time: a key press, if any; whether a tick is due, with the
  messages and the counters it sees; and whether the token has been cancelled elsewhere.  The result is the display and
  whether the loop cancelled the token; without further turns it is still running.\<close>

datatype key = KeyChar char bool | OtherKey

record 'l tui_turn =
  tt_key :: "key option"
  tt_tick :: bool
  tt_waiting :: "'l list"
  tt_metrics :: GlobalMetrics
  tt_cancelled :: bool

definition quit_key :: "key option \<Rightarrow> bool" where
  "quit_key k =
     (case k of
        Some (KeyChar c ctrl) \<Rightarrow> c = CHR ''q'' \<or> c = CHR ''Q'' \<or> c = CHR ''c'' \<and> ctrl
      | _ \<Rightarrow> False)"

fun run_tui :: "'l tui_turn list \<Rightarrow> 'l TuiApp \<Rightarrow> (unit, 'l TuiApp \<times> bool) res" where
  "run_tui [] app = Inr (app, False)"
| "run_tui (t # ts) app =
     (if quit_key (tt_key t) then Inr (app, True)
      else bindR (if tt_tick t then on_tick (tt_metrics t) (tt_waiting t) app else Inr app) (\<lambda>app.
           if tt_cancelled t then Inr (app, False) else run_tui ts app))"

subsection \<open>Log messages\<close>

record LogMessage =
  lm_timestamp :: "byte list"
  lm_level :: "byte list"
  lm_target :: "byte list"
  lm_message :: "byte list"

text \<open>\<open>value\<close> is the debug text of the field.  Slicing \<open>[1..len-1]\<close> panics where the bounds cross.\<close>

definition record_debug :: "byte list \<Rightarrow> byte list \<Rightarrow> byte list \<Rightarrow> (unit, byte list) res" where
  "record_debug name value message =
     (if name = utf8 ''message'' then
        (if value \<noteq> [] \<and> hd value = 0x22 \<and> last value = 0x22 then
           (if length value - 1 < 1 then Inl Panic else Inr (drop 1 (take (length value - 1) value)))
         else Inr value)
      else Inr (message @ utf8 '' '' @ name @ utf8 ''='' @ value))"

fun record_fields :: "(byte list \<times> byte list) list \<Rightarrow> byte list \<Rightarrow> (unit, byte list) res" where
  "record_fields [] message = Inr message"
| "record_fields ((name, value) # fs) message = bindR (record_debug name value message) (record_fields fs)"

definition logger_on_event :: "byte list \<Rightarrow> byte list \<Rightarrow> byte list \<Rightarrow> (byte list \<times> byte list) list \<Rightarrow> LogMessage list \<Rightarrow>
    (unit, LogMessage list) res" where
  "logger_on_event now level target fs chan =
     bindR (record_fields fs []) (\<lambda>message.
     Inr (chan @ [\<lparr>lm_timestamp = now, lm_level = level, lm_target = target, lm_message = message\<rparr>]))"

subsection \<open>What is shown\<close>

definition transfer_percent :: "TransferProgress \<Rightarrow> u32" where
  "transfer_percent t = (if tp_total_chunks t = 0 then 0 else tp_completed_chunks t * 100 div tp_total_chunks t)"

definition transfer_line :: "TransferProgress \<Rightarrow> byte list" where
  "transfer_line t =
     (let dir = (if tp_is_sending t then ''Tx'' else ''Rx'')
      in utf8 (''['' @ dir @ ''] '') @ tp_file_name t @
         utf8 ('' - '' @ show_nat (unat (transfer_percent t)) @ ''% ('' @ show_nat (unat (tp_completed_chunks t)) @ ''/'' @
           show_nat (unat (tp_total_chunks t)) @ '')''))"

definition dht_lines :: "GlobalMetrics \<Rightarrow> byte list list" where
  "dht_lines m =
     [utf8 (''Routing Table: '' @ show_nat (unat (dht_active_peers m)) @ '' active / '' @
        show_nat (unat (dht_total_peers m)) @ '' total peers''),
      utf8 ''SuperNode Status: Not Promoted'']"

definition connection_lines :: "GlobalMetrics \<Rightarrow> byte list list" where
  "connection_lines m = [utf8 (''Active TCP: '' @ show_nat (unat (active_tcp_connections m))), utf8 ''Active UDP: 0'']"

datatype Color = Red | Yellow | White | DarkGray

definition level_color :: "byte list \<Rightarrow> Color" where
  "level_color level =
     (if level = utf8 ''ERROR'' then Red else if level = utf8 ''WARN'' then Yellow
      else if level = utf8 ''INFO'' then White else if level = utf8 ''DEBUG'' then DarkGray else White)"

definition log_lines :: "u16 \<Rightarrow> LogMessage list \<Rightarrow> (byte list \<times> Color \<times> byte list \<times> byte list) list" where
  "log_lines height ls =
     map (\<lambda>l. (lm_timestamp l @ utf8 '' '', level_color (lm_level l), utf8 ''['' @ lm_level l @ utf8 ''] '', lm_message l))
       (take (unat (ucast height - 2 :: u64)) (rev ls))"

text \<open>The loop never panics, whatever the keys and the ticks.\<close>

lemma on_tick_length:
  "length (tx_history app) = 100 \<Longrightarrow> length (rx_history app) = 100 \<Longrightarrow>
   \<exists>app'. on_tick m ws app = Inr app' \<and> length (tx_history app') = 100 \<and> length (rx_history app') = 100"
  by (auto simp: on_tick_def shift_in_def Let_def)

lemma run_tui_never_panics:
  "length (tx_history app) = 100 \<Longrightarrow> length (rx_history app) = 100 \<Longrightarrow> \<exists>r. run_tui ts app = Inr r"
proof (induction ts arbitrary: app)
  case (Cons t ts)
  obtain app' where "on_tick (tt_metrics t) (tt_waiting t) app = Inr app'" "length (tx_history app') = 100" "length (rx_history app') = 100"
    using on_tick_length [OF Cons.prems] by blast
  then show ?case using Cons by (auto)
qed auto

text \<open>A message that is one quotation mark panics the thread that logs it.\<close>

lemma quote_message_panics: "logger_on_event now level target [(utf8 ''message'', [0x22])] chan = Inl Panic"
  by (simp add: logger_on_event_def record_debug_def)

text \<open>The percentage is right for as long as a hundred times the chunks fit into 32 bits; beyond, the bar of a complete
  transfer can be empty.\<close>

lemma transfer_percent_exact:
  assumes "unat (tp_completed_chunks t) * 100 < 2 ^ 32"
  shows "unat (transfer_percent t) = unat (tp_completed_chunks t) * 100 div unat (tp_total_chunks t)"
  using assms by (simp add: transfer_percent_def unat_div unat_word_ariths)

lemma transfer_percent_wraps:
  "tp_completed_chunks t = 42949673 \<Longrightarrow> tp_total_chunks t = 42949673 \<Longrightarrow> transfer_percent t = 0"
  by (simp add: transfer_percent_def)

end
