(* ===== verification/Node.thy ===== *)
theory Node
  imports Noise Routing Dht_Msg Transfer_Manager Tcp Telemetry "HOL-Library.Sublist"
begin

text \<open>
  \<open>ceky-node/src/node.rs\<close>: the event loop of a node.  Its state is a record of what the loop owns: the
  states of the peers, the routing table, the transfer manager, the pending lookups, the TCP transport,
  the metrics, the events sent to the API and the commands in its queue.  Every branch of
  the \<open>select!\<close> is a function: \<open>on_command\<close>, \<open>on_event\<close> (with \<open>on_frame\<close>) and \<open>on_transfer_frame\<close>.

  A step that never returns is \<open>None\<close>; a panic, which ends the task, is \<open>Some (Inl Panic)\<close>.  The record
  \<open>node_env\<close> holds what the loop calls outside the modelled code: the cryptographic libraries, the
  operating system, the \<open>hex\<close> crate, and which addresses a TCP connection can be made to.
\<close>

subsection \<open>State\<close>

datatype NodePeerState =
    InitiatorWaitMsg2 NoiseHandshake
  | ResponderWaitMsg1 NoiseHandshake
  | ResponderWaitMsg3 NoiseHandshake
  | Secure SecureSession

datatype ApiCommand =
    CmdConnect SocketAddr
  | CmdConnectPeerId "byte list"
  | CmdSendFile SocketAddr path
  | CmdSendMessage SocketAddr "byte list"
  | CmdSendMessagePeerId "byte list" "byte list"

datatype ApiEvent =
    PeerConnected SocketAddr
  | PeerDisconnected SocketAddr string
  | FileOfferReceived SocketAddr "byte list" u64
  | MessageReceived SocketAddr "byte list"

record Node =
  nd_identity :: Identity
  nd_tcp_addr :: SocketAddr
  peer_states :: "SocketAddr \<rightharpoonup> NodePeerState"
  routing_table :: RoutingTable
  transfer_manager :: TransferManager
  pending_dht_connects :: "PeerId set"
  nd_tcp :: TcpTransport
  metrics :: GlobalMetrics
  api_events :: "ApiEvent list"
  api_commands :: "ApiCommand list"

record node_env =
  env_crypto :: crypto_impl
  env_aead :: aead_impl
  env_os :: os_impl
  hex_crate_encode :: "byte list \<Rightarrow> byte list"
  hex_crate_decode :: "byte list \<Rightarrow> byte list option"
  connect_ok :: "SocketAddr \<Rightarrow> bool"

type_synonym node_step = "(unit, Node) res option"

definition ret :: "Node \<Rightarrow> node_step" where
  "ret n = Some (Inr n)"

definition then_step :: "node_step \<Rightarrow> (Node \<Rightarrow> node_step) \<Rightarrow> node_step" where
  "then_step s f = (case s of None \<Rightarrow> None | Some (Inl e) \<Rightarrow> Some (Inl e) | Some (Inr n) \<Rightarrow> f n)"

lemma ret_then [simp]: "then_step (ret n) f = f n"
  by (simp add: then_step_def ret_def)

subsection \<open>Sending\<close>

text \<open>\<open>tcp_transport.send_to\<close> where the result is ignored.\<close>

definition send_to :: "time \<Rightarrow> SocketAddr \<Rightarrow> Frame \<Rightarrow> Node \<Rightarrow> Node" where
  "send_to now a f n = n\<lparr>nd_tcp := snd (tcp_send_to now a f (nd_tcp n))\<rparr>"

definition set_peer :: "SocketAddr \<Rightarrow> NodePeerState \<Rightarrow> Node \<Rightarrow> Node" where
  "set_peer a st n = n\<lparr>peer_states := (peer_states n)(a \<mapsto> st)\<rparr>"

text \<open>Encrypting under the session of a peer and sending, if the peer is secure.\<close>

definition send_secure :: "node_env \<Rightarrow> time \<Rightarrow> SocketAddr \<Rightarrow> MessageType \<Rightarrow> byte list \<Rightarrow> Node \<Rightarrow> Node" where
  "send_secure E now a mt dat n =
     (case peer_states n a of
        Some (Secure s) \<Rightarrow>
          (case encrypt (env_aead E) s dat of
             (Inr (enc_nonce, ciphertext), s') \<Rightarrow>
               send_to now a (Frame_new mt (with_encrypted Flags_empty) enc_nonce ciphertext) (set_peer a (Secure s') n)
           | (Inl _, s') \<Rightarrow> set_peer a (Secure s') n)
      | _ \<Rightarrow> n)"

text \<open>A chat message: the bytes of an encrypted message are added to the metrics, sent or not.\<close>

definition send_chat :: "node_env \<Rightarrow> time \<Rightarrow> SocketAddr \<Rightarrow> byte list \<Rightarrow> Node \<Rightarrow> Node" where
  "send_chat E now a msg n =
     (case peer_states n a of
        Some (Secure s) \<Rightarrow>
          let n = send_secure E now a Data msg n
          in (case fst (encrypt (env_aead E) s msg) of
                Inr _ \<Rightarrow> n\<lparr>metrics := (metrics n)\<lparr>tx_bytes := tx_bytes (metrics n) + of_nat (length msg)\<rparr>\<rparr>
              | Inl _ \<Rightarrow> n)
      | _ \<Rightarrow> n)"

subsection \<open>API commands\<close>

text \<open>Connecting, for the seeds and for the API: message 1 is created with the ephemeral secret \<open>rnd\<close>.\<close>

definition connect_to :: "node_env \<Rightarrow> time \<Rightarrow> byte list \<Rightarrow> SocketAddr \<Rightarrow> Node \<Rightarrow> Node" where
  "connect_to E now rnd a n =
     (case tcp_connect now (connect_ok E a) a (nd_tcp n) of
        (Inl _, t) \<Rightarrow> n\<lparr>nd_tcp := t\<rparr>
      | (Inr _, t) \<Rightarrow>
          (case create_message1 (env_crypto E) rnd (new_initiator (env_crypto E) (nd_identity n)) of
             (Inr msg1, hs) \<Rightarrow>
               (case tcp_send_to now a (Frame_new Handshake Flags_empty 0 msg1) t of
                  (Inr _, t) \<Rightarrow> set_peer a (InitiatorWaitMsg2 hs) (n\<lparr>nd_tcp := t\<rparr>)
                | (Inl _, t) \<Rightarrow> n\<lparr>nd_tcp := t\<rparr>)
           | (Inl _, hs) \<Rightarrow> n\<lparr>nd_tcp := t\<rparr>))"

definition connect_peer_id :: "node_env \<Rightarrow> time \<Rightarrow> SocketAddr list \<Rightarrow> byte list \<Rightarrow> Node \<Rightarrow> Node" where
  "connect_peer_id E now order peer_id_hex n =
     (case hex_crate_decode E peer_id_hex of
        None \<Rightarrow> n
      | Some bytes \<Rightarrow>
          if length bytes \<noteq> 32 then n
          else
            (case get_peer (PeerId bytes) (routing_table n) of
               Some info \<Rightarrow> n\<lparr>api_commands := api_commands n @ [CmdConnect (pi_addr info)]\<rparr>
             | None \<Rightarrow>
                 let n = foldl (\<lambda>n a. send_secure E now a FindNode (FindNode_encode \<lparr>target = bytes\<rparr>) n) n order
                 in n\<lparr>pending_dht_connects := insert (PeerId bytes) (pending_dht_connects n)\<rparr>))"

definition send_message_peer_id :: "node_env \<Rightarrow> time \<Rightarrow> byte list \<Rightarrow> byte list \<Rightarrow> Node \<Rightarrow> node_step" where
  "send_message_peer_id E now tgt msg n =
     (case hex_crate_decode E tgt of
        None \<Rightarrow> ret n
      | Some bytes \<Rightarrow>
          if length bytes \<noteq> 32 then Some (Inl Panic)
          else
            (case get_peer (PeerId bytes) (routing_table n) of
               Some info \<Rightarrow> ret (send_chat E now (pi_addr info) msg n)
             | None \<Rightarrow> ret n))"

text \<open>\<open>rnd\<close>: the random bytes a command may need; \<open>order\<close>: the order in which the map of peers is
  iterated.\<close>

definition on_command :: "node_env \<Rightarrow> time \<Rightarrow> byte list \<Rightarrow> SocketAddr list \<Rightarrow> ApiCommand \<Rightarrow> Node \<Rightarrow> node_step" where
  "on_command E now rnd order cmd n =
     (case cmd of
        CmdConnect a \<Rightarrow> ret (connect_to E now rnd a n)
      | CmdConnectPeerId h \<Rightarrow> ret (connect_peer_id E now order h n)
      | CmdSendFile a file_path \<Rightarrow>
          if peer_states n a \<noteq> None
          then ret (n\<lparr>transfer_manager :=
                 snd (offer_file (env_crypto E) (env_os E) rnd a file_path 1000 (transfer_manager n))\<rparr>)
          else ret n
      | CmdSendMessage a msg \<Rightarrow> ret (send_chat E now a msg n)
      | CmdSendMessagePeerId h msg \<Rightarrow> send_message_peer_id E now h msg n)"

definition on_api_command :: "node_env \<Rightarrow> time \<Rightarrow> byte list \<Rightarrow> SocketAddr list \<Rightarrow> Node \<Rightarrow> node_step" where
  "on_api_command E now rnd order n =
     (case api_commands n of
        [] \<Rightarrow> ret n
      | cmd # cmds \<Rightarrow> on_command E now rnd order cmd (n\<lparr>api_commands := cmds\<rparr>))"

subsection \<open>Handshake frames\<close>

text \<open>The end of a handshake on either side: the session is opened, and a ping with the own
  identifier is sent through it.\<close>

definition open_session :: "node_env \<Rightarrow> time \<Rightarrow> SocketAddr \<Rightarrow> NoiseHandshake \<Rightarrow> Node \<Rightarrow> node_step" where
  "open_session E now a hs n =
     (case into_session_keys hs of
        Inl Panic \<Rightarrow> Some (Inl Panic)
      | Inl (Err _) \<Rightarrow> ret n
      | Inr keys \<Rightarrow>
          (case from_keys (env_aead E) keys of
             Inl Panic \<Rightarrow> Some (Inl Panic)
           | Inl (Err _) \<Rightarrow> ret n
           | Inr s \<Rightarrow>
               (case encrypt (env_aead E) s (as_bytes (peer_id (nd_identity n))) of
                  (Inr (enc_nonce, ciphertext), s') \<Rightarrow>
                    ret (set_peer a (Secure s')
                      (send_to now a (Frame_new Ping (with_encrypted Flags_empty) enc_nonce ciphertext) n))
                | (Inl _, s') \<Rightarrow> ret (set_peer a (Secure s') n))))"

definition on_handshake :: "node_env \<Rightarrow> time \<Rightarrow> byte list \<Rightarrow> SocketAddr \<Rightarrow> byte list \<Rightarrow> Node \<Rightarrow> node_step" where
  "on_handshake E now rnd a msg n =
     (case peer_states n a of
        None \<Rightarrow> ret n
      | Some st \<Rightarrow>
          let n' = n\<lparr>peer_states := (peer_states n)(a := None)\<rparr>
          in case st of
               InitiatorWaitMsg2 hs \<Rightarrow>
                 (case process_message2_create_message3 (env_crypto E) (env_aead E) msg hs of
                    (Inr msg3, hs') \<Rightarrow> open_session E now a hs' (send_to now a (Frame_new Handshake Flags_empty 0 msg3) n')
                  | (Inl Panic, _) \<Rightarrow> Some (Inl Panic)
                  | (Inl (Err _), _) \<Rightarrow> ret n')
             | ResponderWaitMsg1 hs \<Rightarrow>
                 (case process_message1_create_message2 (env_crypto E) (env_aead E) rnd msg hs of
                    (Inr msg2, hs') \<Rightarrow>
                      ret (set_peer a (ResponderWaitMsg3 hs') (send_to now a (Frame_new Handshake Flags_empty 0 msg2) n'))
                  | (Inl Panic, _) \<Rightarrow> Some (Inl Panic)
                  | (Inl (Err _), _) \<Rightarrow> ret n')
             | ResponderWaitMsg3 hs \<Rightarrow>
                 (case process_message3 (env_crypto E) (env_aead E) msg hs of
                    (Inr _, hs') \<Rightarrow> open_session E now a hs' n'
                  | (Inl Panic, _) \<Rightarrow> Some (Inl Panic)
                  | (Inl (Err _), _) \<Rightarrow> ret n')
             | Secure s \<Rightarrow> ret (set_peer a (Secure s) n'))"

subsection \<open>Frames of a secure peer\<close>

definition learn_peer :: "time \<Rightarrow> PeerId \<Rightarrow> SocketAddr \<Rightarrow> Node \<Rightarrow> Node" where
  "learn_peer now pid a n = n\<lparr>routing_table := snd (insert_peer now pid a (routing_table n))\<rparr>"

definition lift_tm :: "(TmError, TransferManager) res option \<Rightarrow> Node \<Rightarrow> node_step" where
  "lift_tm r n =
     (case r of
        None \<Rightarrow> None
      | Some (Inl Panic) \<Rightarrow> Some (Inl Panic)
      | Some (Inl (Err _)) \<Rightarrow> ret n
      | Some (Inr tm) \<Rightarrow> ret (n\<lparr>transfer_manager := tm\<rparr>))"

text \<open>The peers a node names for a target: itself, if it is the target, or the closest in its table.\<close>

definition find_node_answer :: "PeerId \<Rightarrow> Node \<Rightarrow> (byte list \<times> SocketAddr) list" where
  "find_node_answer tgt n =
     (if tgt = peer_id (nd_identity n) then [(as_bytes (peer_id (nd_identity n)), nd_tcp_addr n)]
      else map (\<lambda>p. (as_bytes (pi_peer_id p), pi_addr p)) (find_closest tgt 20 (routing_table n)))"

definition on_find_node :: "node_env \<Rightarrow> time \<Rightarrow> SocketAddr \<Rightarrow> byte list \<Rightarrow> Node \<Rightarrow> Node" where
  "on_find_node E now a dat n =
     (case FindNode_decode dat of
        Inl _ \<Rightarrow> n
      | Inr req \<Rightarrow>
          send_secure E now a FindNodeResp
            (FindNodeResp_encode \<lparr>resp_peers = find_node_answer (PeerId (target req)) n\<rparr>) n)"

definition learn_found :: "time \<Rightarrow> byte list \<times> SocketAddr \<Rightarrow> Node \<Rightarrow> Node" where
  "learn_found now p n =
     (case p of (id_bytes, a) \<Rightarrow>
        let n = learn_peer now (PeerId id_bytes) a n
        in if PeerId id_bytes \<in> pending_dht_connects n then
             n\<lparr>pending_dht_connects := pending_dht_connects n - {PeerId id_bytes},
               api_commands := api_commands n @ [CmdConnect a]\<rparr>
           else n)"

definition on_credit_update :: "node_env \<Rightarrow> byte list \<Rightarrow> Node \<Rightarrow> node_step" where
  "on_credit_update E dat n =
     (if length dat \<ge> 20 then
        lift_tm (handle_credit_update (env_crypto E) (TransferId (take 16 dat)) (of_le (take 4 (drop 16 dat)))
          (transfer_manager n)) n
      else ret n)"

definition on_secure_frame :: "node_env \<Rightarrow> time \<Rightarrow> SocketAddr \<Rightarrow> MessageType \<Rightarrow> byte list \<Rightarrow> Node \<Rightarrow> node_step" where
  "on_secure_frame E now a mt dat n =
     (case mt of
        FileOffer \<Rightarrow>
          (case FileOffer_decode dat of
             Inr offer \<Rightarrow>
               ret (n\<lparr>api_events := api_events n @ [FileOfferReceived a (fo_file_name offer) (fo_file_size offer)],
                      transfer_manager := snd (handle_offer (env_os E) a offer (transfer_manager n))\<rparr>)
           | Inl _ \<Rightarrow> ret n)
      | FileAccept \<Rightarrow>
          (case FileAccept_decode dat of
             Inr accept \<Rightarrow> ret (n\<lparr>transfer_manager := snd (handle_accept accept (transfer_manager n))\<rparr>)
           | Inl _ \<Rightarrow> ret n)
      | FileChunk \<Rightarrow>
          (case FileChunk_decode dat of
             Inr chunk \<Rightarrow> ret (n\<lparr>transfer_manager := snd (handle_chunk (env_crypto E) chunk (transfer_manager n))\<rparr>)
           | Inl _ \<Rightarrow> ret n)
      | FileChunkAck \<Rightarrow>
          (case FileChunkAck_decode dat of
             Inr ack \<Rightarrow> lift_tm (handle_chunk_ack (env_crypto E) ack (transfer_manager n)) n
           | Inl _ \<Rightarrow> ret n)
      | CreditUpdate \<Rightarrow> on_credit_update E dat n
      | Data \<Rightarrow> if utf8_valid dat then ret (n\<lparr>api_events := api_events n @ [MessageReceived a dat]\<rparr>) else ret n
      | Ping \<Rightarrow>
          if length dat = 32
          then ret (send_secure E now a Pong (as_bytes (peer_id (nd_identity n))) (learn_peer now (PeerId dat) a n))
          else ret n
      | Pong \<Rightarrow> if length dat = 32 then ret (learn_peer now (PeerId dat) a n) else ret n
      | FindNode \<Rightarrow> ret (on_find_node E now a dat n)
      | FindNodeResp \<Rightarrow>
          (case FindNodeResp_decode dat of
             Inr resp \<Rightarrow> ret (fold (learn_found now) (resp_peers resp) n)
           | Inl _ \<Rightarrow> ret n)
      | _ \<Rightarrow> ret n)"

definition on_frame :: "node_env \<Rightarrow> time \<Rightarrow> byte list \<Rightarrow> SocketAddr \<Rightarrow> Frame \<Rightarrow> Node \<Rightarrow> node_step" where
  "on_frame E now rnd a f n =
     (if msg_type (header f) = Handshake then on_handshake E now rnd a (payload f) n
      else
        (case peer_states n a of
           Some (Secure s) \<Rightarrow>
             if is_encrypted (flags (header f)) then
               (case decrypt (env_aead E) s (request_id (header f)) (payload f) of
                  (Inr dat, s') \<Rightarrow> on_secure_frame E now a (msg_type (header f)) dat (set_peer a (Secure s') n)
                | (Inl _, s') \<Rightarrow> ret (set_peer a (Secure s') n))
             else ret n
         | _ \<Rightarrow> ret n))"

definition on_event :: "node_env \<Rightarrow> time \<Rightarrow> byte list \<Rightarrow> TransportEvent \<Rightarrow> Node \<Rightarrow> node_step" where
  "on_event E now rnd ev n =
     (case ev of
        Connected a \<Rightarrow>
          let n = n\<lparr>api_events := api_events n @ [PeerConnected a]\<rparr>
          in ret (if peer_states n a = None
                  then set_peer a (ResponderWaitMsg1 (new_responder (env_crypto E) (nd_identity n))) n else n)
      | Disconnected a reason \<Rightarrow>
          ret (n\<lparr>api_events := api_events n @ [PeerDisconnected a reason],
                 peer_states := (peer_states n)(a := None)\<rparr>)
      | FrameReceived a f \<Rightarrow> on_frame E now rnd a f n
      | TransportErr (Some a) e \<Rightarrow> ret (n\<lparr>peer_states := (peer_states n)(a := None)\<rparr>)
      | TransportErr None e \<Rightarrow> ret n)"

text \<open>The branch that drains the frames of the transfer manager, one at a time.\<close>

definition on_transfer_frame :: "node_env \<Rightarrow> time \<Rightarrow> Node \<Rightarrow> node_step" where
  "on_transfer_frame E now n =
     (case frame_tx (transfer_manager n) of
        [] \<Rightarrow> ret n
      | (a, f) # fs \<Rightarrow>
          ret (send_secure E now a (msg_type (header f)) (payload f)
            (n\<lparr>transfer_manager := (transfer_manager n)\<lparr>frame_tx := fs\<rparr>\<rparr>)))"

text \<open>The branch that takes the next event of the transport.\<close>

definition on_tcp_event :: "node_env \<Rightarrow> time \<Rightarrow> byte list \<Rightarrow> Node \<Rightarrow> node_step" where
  "on_tcp_event E now rnd n =
     (case tcp_events (nd_tcp n) of
        [] \<Rightarrow> ret n
      | ev # evs \<Rightarrow> on_event E now rnd ev (n\<lparr>nd_tcp := (nd_tcp n)\<lparr>tcp_events := evs\<rparr>\<rparr>))"

subsection \<open>Start and telemetry\<close>

text \<open>The identity a node starts with: the one in its key file, or a new one that is saved there.\<close>

definition start_identity :: "crypto_impl \<Rightarrow> string \<Rightarrow> byte list \<Rightarrow> byte list \<Rightarrow> string option \<Rightarrow> fs \<Rightarrow>
    (CryptoError, Identity \<times> fs) res" where
  "start_identity cr key_file ed_rnd x_rnd wr fs =
     (if fs key_file \<noteq> None then bindR (load_from_file cr fs key_file) (\<lambda>me. Inr (me, fs))
      else
        let me = Identity_generate cr ed_rnd x_rnd
        in bindR (save_to_file me key_file wr fs) (\<lambda>fs. Inr (me, fs)))"

text \<open>The parts of a node, and the connections to its seeds, with the random bytes each handshake uses.\<close>

definition node_init :: "time \<Rightarrow> Identity \<Rightarrow> SocketAddr \<Rightarrow> nat \<Rightarrow> (path \<rightharpoonup> byte list) \<Rightarrow> Node" where
  "node_init now me a max_conns files =
     \<lparr>nd_identity = me, nd_tcp_addr = a, peer_states = Map.empty, routing_table = RoutingTable_new now (peer_id me),
      transfer_manager = TransferManager_new (map (\<lambda>c. of_nat (of_char c)) ''downloads'') files,
      pending_dht_connects = {}, nd_tcp = TcpTransport_bind a (ConnectionPool_new max_conns ConnectionConfig_default),
      metrics = GlobalMetrics_new, api_events = [], api_commands = []\<rparr>"

definition connect_seeds :: "node_env \<Rightarrow> time \<Rightarrow> (SocketAddr \<times> byte list) list \<Rightarrow> Node \<Rightarrow> Node" where
  "connect_seeds E now seeds n = fold (\<lambda>(a, rnd). connect_to E now rnd a) seeds n"

text \<open>The telemetry task, once a second.\<close>

definition telemetry_tick :: "node_env \<Rightarrow> TransferId list \<Rightarrow> Node \<Rightarrow> Node" where
  "telemetry_tick E order n =
     (let p_stats = pool_stats (tcp_pool (nd_tcp n));
          m = metrics n;
          prev_tx = tx_bytes m;
          prev_rx = rx_bytes m;
          m = m\<lparr>active_tcp_connections := of_nat (ps_active p_stats),
                tx_bytes := ps_total_bytes_sent p_stats,
                rx_bytes := ps_total_bytes_recv p_stats,
                tx_rate := saturating_sub (ps_total_bytes_sent p_stats) prev_tx,
                rx_rate := saturating_sub (ps_total_bytes_recv p_stats) prev_rx,
                transfers := map (\<lambda>(tid, name, total, completed, sending).
                  \<lparr>tp_transfer_id = hex_crate_encode E (TransferId_as_bytes tid), tp_file_name = name,
                   tp_total_chunks = total, tp_completed_chunks = completed, tp_is_sending = sending\<rparr>)
                  (snapshot_transfers order (transfer_manager n))\<rparr>
      in n\<lparr>metrics := m\<rparr>)"

end
