(* ===== verification/Node_Correct.thy ===== *)
theory Node_Correct
  imports Node
begin

text \<open>
  The event loop of the node is safe: an invariant of everything a node does (\<open>node_invariant\<close>), and
  where the events it reports come from (\<open>node_events_authentic\<close>).  \<open>node_input\<close> lists what can
  happen to a node, in any order: a branch of its loop is taken, or one of its connection tasks moves.
\<close>

subsection \<open>What handling a frame leaves alone\<close>

lemma send_to_frame [simp]:
  "peer_states (send_to now a f n) = peer_states n" "api_events (send_to now a f n) = api_events n"
  "nd_identity (send_to now a f n) = nd_identity n" "transfer_manager (send_to now a f n) = transfer_manager n"
  "routing_table (send_to now a f n) = routing_table n"
  by (simp_all add: send_to_def)

lemma set_peer_frame [simp]:
  "peer_states (set_peer a st n) = (peer_states n)(a \<mapsto> st)" "api_events (set_peer a st n) = api_events n"
  "nd_identity (set_peer a st n) = nd_identity n" "nd_tcp (set_peer a st n) = nd_tcp n"
  "transfer_manager (set_peer a st n) = transfer_manager n" "routing_table (set_peer a st n) = routing_table n"
  by (simp_all add: set_peer_def)

text \<open>\<open>same_receiving s s'\<close>: the two sessions accept the same messages.\<close>

definition same_receiving :: "SecureSession \<Rightarrow> SecureSession \<Rightarrow> bool" where
  "same_receiving s s' \<longleftrightarrow> replay_window s' = replay_window s \<and> recv_cipher s' = recv_cipher s"

lemma encrypt_same_receiving: "same_receiving s (snd (encrypt ae s dat))"
  by (simp add: encrypt_def Let_def same_receiving_def split: option.splits)

lemma send_secure_frame:
  "api_events (send_secure E now a mt dat n) = api_events n"
  "peer_states n b = Some (Secure s) \<Longrightarrow>
     \<exists>s'. peer_states (send_secure E now a mt dat n) b = Some (Secure s') \<and> same_receiving s s'"
proof -
  show "api_events (send_secure E now a mt dat n) = api_events n"
    by (auto simp: send_secure_def split: option.splits NodePeerState.splits prod.splits sum.splits)
  assume s: "peer_states n b = Some (Secure s)"
  show "\<exists>s'. peer_states (send_secure E now a mt dat n) b = Some (Secure s') \<and> same_receiving s s'"
  proof (cases "a = b")
    case True
    then show ?thesis
      using s encrypt_same_receiving [of s "env_aead E" dat]
      by (auto simp: send_secure_def split: prod.splits sum.splits)
  next
    case False
    then have "peer_states (send_secure E now a mt dat n) b = peer_states n b"
      by (auto simp: send_secure_def split: option.splits NodePeerState.splits prod.splits sum.splits)
    then show ?thesis using s by (simp add: same_receiving_def)
  qed
qed

lemma learn_frame [simp]:
  "api_events (learn_peer now pid a n) = api_events n" "peer_states (learn_peer now pid a n) = peer_states n"
  "api_events (fold (learn_found now) ps n) = api_events n" "peer_states (fold (learn_found now) ps n) = peer_states n"
proof -
  show l: "api_events (learn_peer now pid a n) = api_events n" "peer_states (learn_peer now pid a n) = peer_states n" for pid a n
    by (simp_all add: learn_peer_def)
  have "api_events (learn_found now p n) = api_events n \<and> peer_states (learn_found now p n) = peer_states n" for p n
    using l by (simp add: learn_found_def Let_def split: prod.splits)
  then show "api_events (fold (learn_found now) ps n) = api_events n" "peer_states (fold (learn_found now) ps n) = peer_states n"
    by (induction ps arbitrary: n) simp_all
qed

lemma lift_tm_frame:
  "lift_tm r n = Some (Inr n') \<Longrightarrow> api_events n' = api_events n \<and> peer_states n' = peer_states n"
  by (auto simp: lift_tm_def ret_def split: option.splits sum.splits fault.splits)

text \<open>The events a decrypted frame causes.\<close>

definition plain_events :: "SocketAddr \<Rightarrow> MessageType \<Rightarrow> byte list \<Rightarrow> ApiEvent list" where
  "plain_events a mt p =
     (if mt = Data then if utf8_valid p then [MessageReceived a p] else []
      else if mt = FileOffer then
        (case FileOffer_decode p of
           Inr offer \<Rightarrow> [FileOfferReceived a (fo_file_name offer) (fo_file_size offer)] | Inl _ \<Rightarrow> [])
      else [])"

lemma on_secure_frame_frame:
  assumes "on_secure_frame E now a mt dat n = Some (Inr n')"
  shows "api_events n' = api_events n @ plain_events a mt dat"
    "peer_states n b = Some (Secure s) \<Longrightarrow> \<exists>s'. peer_states n' b = Some (Secure s') \<and> same_receiving s s'"
proof -
  have refl: "same_receiving s s" for s by (simp add: same_receiving_def)
  show "api_events n' = api_events n @ plain_events a mt dat"
    using assms
    by (cases mt) (auto simp: on_secure_frame_def on_credit_update_def on_find_node_def plain_events_def ret_def Let_def
        send_secure_frame(1) dest!: lift_tm_frame split: sum.splits if_splits)
  assume "peer_states n b = Some (Secure s)"
  then show "\<exists>s'. peer_states n' b = Some (Secure s') \<and> same_receiving s s'"
    using assms refl
    by (cases mt) (auto simp: on_secure_frame_def on_credit_update_def on_find_node_def ret_def Let_def
        intro!: send_secure_frame(2) dest!: lift_tm_frame split: sum.splits if_splits)
qed


subsection \<open>Everything that can happen to a node\<close>

datatype node_input =
    Command time "byte list" "SocketAddr list" ApiCommand
  | Event time "byte list" TransportEvent
  | TransferFrame time
  | Tick "TransferId list"
  | Accept time SocketAddr
  | Receive time SocketAddr Frame
  | StreamEnd SocketAddr "string option"
  | Write time SocketAddr nat bool

fun node_do :: "node_env \<Rightarrow> node_input \<Rightarrow> Node \<Rightarrow> node_step" where
  "node_do E (Command now rnd order cmd) n = on_command E now rnd order cmd n"
| "node_do E (Event now rnd ev) n = on_event E now rnd ev n"
| "node_do E (TransferFrame now) n = on_transfer_frame E now n"
| "node_do E (Tick order) n = ret (telemetry_tick E order n)"
| "node_do E (Accept now a) n = ret (n\<lparr>nd_tcp := tcp_accept now a (nd_tcp n)\<rparr>)"
| "node_do E (Receive now a f) n = ret (n\<lparr>nd_tcp := reader_frame now a f (nd_tcp n)\<rparr>)"
| "node_do E (StreamEnd a err) n = ret (n\<lparr>nd_tcp := reader_end a err (nd_tcp n)\<rparr>)"
| "node_do E (Write now a i ok) n = ret (n\<lparr>nd_tcp := snd (writer_step now ok a i (nd_tcp n))\<rparr>)"

fun node_run :: "node_env \<Rightarrow> node_input list \<Rightarrow> Node \<Rightarrow> node_step" where
  "node_run E [] n = ret n"
| "node_run E (x # xs) n = then_step (node_do E x n) (node_run E xs)"

text \<open>The loop takes its commands and events from queues; taking the next one is an input.\<close>

lemma queues_are_inputs:
  "api_commands n = cmd # cmds \<Longrightarrow>
     on_api_command E now rnd order n = node_do E (Command now rnd order cmd) (n\<lparr>api_commands := cmds\<rparr>)"
  "tcp_events (nd_tcp n) = ev # evs \<Longrightarrow>
     on_tcp_event E now rnd n = node_do E (Event now rnd ev) (n\<lparr>nd_tcp := (nd_tcp n)\<lparr>tcp_events := evs\<rparr>\<rparr>)"
  by (simp_all add: on_api_command_def on_tcp_event_def)

subsection \<open>An invariant of the node\<close>

definition sessions_ok :: "(SocketAddr \<rightharpoonup> NodePeerState) \<Rightarrow> bool" where
  "sessions_ok ps \<longleftrightarrow> (\<forall>a s. ps a = Some (Secure s) \<longrightarrow> (\<exists>H. represents (replay_window s) H))"

definition node_inv :: "Identity \<Rightarrow> nat \<Rightarrow> Node \<Rightarrow> bool" where
  "node_inv me k n \<longleftrightarrow> nd_identity n = me \<and> rt_inv (routing_table n) \<and> local_id (routing_table n) = peer_id me \<and>
     tcp_inv k (nd_tcp n) \<and> sessions_ok (peer_states n)"

lemma node_inv_tcp: "node_inv me k n \<Longrightarrow> tcp_inv k t \<Longrightarrow> node_inv me k (n\<lparr>nd_tcp := t\<rparr>)"
  by (simp add: node_inv_def)

lemma node_inv_send_to: "node_inv me k n \<Longrightarrow> node_inv me k (send_to now a f n)"
  by (simp add: send_to_def node_inv_tcp node_inv_def)

lemma node_inv_peer:
  "node_inv me k n \<Longrightarrow> (\<And>s. st = Secure s \<Longrightarrow> \<exists>H. represents (replay_window s) H) \<Longrightarrow> node_inv me k (set_peer a st n)"
  by (simp add: set_peer_def node_inv_def sessions_ok_def)

lemma node_inv_forget:
  "node_inv me k n \<Longrightarrow> node_inv me k (n\<lparr>peer_states := (peer_states n)(a := None)\<rparr>)"
  "node_inv me k n \<Longrightarrow> node_inv me k (n\<lparr>api_events := evs, peer_states := (peer_states n)(a := None)\<rparr>)"
  by (simp_all add: node_inv_def sessions_ok_def)

lemma node_inv_other [simp]:
  "node_inv me k (n\<lparr>transfer_manager := tm\<rparr>) = node_inv me k n" "node_inv me k (n\<lparr>api_events := evs\<rparr>) = node_inv me k n"
  "node_inv me k (n\<lparr>api_commands := cs\<rparr>) = node_inv me k n" "node_inv me k (n\<lparr>pending_dht_connects := P\<rparr>) = node_inv me k n"
  "node_inv me k (n\<lparr>metrics := m\<rparr>) = node_inv me k n"
  by (simp_all add: node_inv_def)

lemma node_inv_session:
  assumes "node_inv me k n" "peer_states n a = Some (Secure s)" "same_receiving s s'"
  shows "node_inv me k (set_peer a (Secure s') n)"
proof (rule node_inv_peer [OF assms(1)])
  fix u assume "Secure s' = Secure u"
  then show "\<exists>H. represents (replay_window u) H"
    using assms by (auto simp: node_inv_def sessions_ok_def same_receiving_def)
qed

lemma node_inv_send_secure: "node_inv me k n \<Longrightarrow> node_inv me k (send_secure E now a mt dat n)"
proof (cases "peer_states n a")
  case (Some st)
  assume n: "node_inv me k n"
  show ?thesis
  proof (cases st)
    case (Secure s)
    obtain r s' where e: "encrypt (env_aead E) s dat = (r, s')" by (cases "encrypt (env_aead E) s dat")
    then have "same_receiving s s'" using encrypt_same_receiving [of s "env_aead E" dat] by simp
    then have "node_inv me k (set_peer a (Secure s') n)" using n Some Secure by (simp add: node_inv_session)
    then show ?thesis using Some Secure e by (simp add: send_secure_def node_inv_send_to split: sum.splits prod.splits)
  qed (use n Some in \<open>simp_all add: send_secure_def\<close>)
qed (simp add: send_secure_def)

lemma node_inv_send_chat: "node_inv me k n \<Longrightarrow> node_inv me k (send_chat E now a msg n)"
  by (simp add: send_chat_def Let_def node_inv_send_secure split: option.splits NodePeerState.splits sum.splits)

lemma local_id_insert [simp]: "local_id (snd (insert_peer now pid a t)) = local_id t"
  by (simp add: insert_peer_def split: option.splits prod.splits InsertOutcome.splits)

lemma node_inv_learn: "node_inv me k n \<Longrightarrow> pid_ok pid \<Longrightarrow> node_inv me k (learn_peer now pid a n)"
  by (simp add: learn_peer_def node_inv_def rt_inv_insert)

lemma node_inv_learn_found:
  "node_inv me k n \<Longrightarrow> (\<forall>(i, a) \<in> set ps. length i = 32) \<Longrightarrow> node_inv me k (fold (learn_found now) ps n)"
proof (induction ps arbitrary: n)
  case (Cons p ps)
  then have "node_inv me k (learn_found now p n)"
    by (auto simp: learn_found_def Let_def node_inv_learn pid_ok_def split: prod.splits)
  then show ?case using Cons by simp
qed simp

lemma node_inv_connect: "node_inv me k n \<Longrightarrow> node_inv me k (connect_to E now rnd a n)"
proof -
  assume n: "node_inv me k n"
  obtain r t where t: "tcp_connect now (connect_ok E a) a (nd_tcp n) = (r, t)"
    by (cases "tcp_connect now (connect_ok E a) a (nd_tcp n)")
  have tinv: "tcp_inv k t" using tcp_inv_connect [of k "nd_tcp n" now "connect_ok E a" a] n t by (simp add: node_inv_def)
  have sent: "tcp_inv k u" if "tcp_send_to now a f t = (r', u)" for f r' u
    using tcp_inv_send_to [OF tinv, of now a f] that by simp
  show ?thesis
    using n tinv sent t
    by (auto simp: connect_to_def node_inv_tcp intro!: node_inv_peer node_inv_tcp split: sum.splits prod.splits)
qed

lemma node_inv_fold:
  "node_inv me k n \<Longrightarrow> (\<And>x n. node_inv me k n \<Longrightarrow> node_inv me k (g n x)) \<Longrightarrow> node_inv me k (foldl g n xs)"
  by (induction xs arbitrary: n) simp_all

lemma node_inv_command:
  "node_inv me k n \<Longrightarrow> on_command E now rnd order cmd n = Some (Inr n') \<Longrightarrow> node_inv me k n'"
  by (cases cmd)
    (auto simp: on_command_def ret_def node_inv_connect node_inv_send_chat connect_peer_id_def send_message_peer_id_def
      Let_def intro!: node_inv_fold node_inv_send_secure split: option.splits if_splits)

lemma node_inv_open_session:
  "node_inv me k n \<Longrightarrow> open_session E now a hs n = Some (Inr n') \<Longrightarrow> node_inv me k n'"
proof -
  assume n: "node_inv me k n" and step: "open_session E now a hs n = Some (Inr n')"
  have fresh: "\<exists>H. represents (replay_window s') H"
    if "from_keys (env_aead E) keys = Inr s" "encrypt (env_aead E) s dat = (r, s')" for keys s dat r s'
  proof -
    have "replay_window s = ReplayWindow_new" using that(1) by (auto simp: from_keys_def split: option.splits)
    then have "replay_window s' = ReplayWindow_new"
      using encrypt_same_receiving [of s "env_aead E" dat] that(2) by (simp add: same_receiving_def)
    then show ?thesis using represents_new by auto
  qed
  show ?thesis
    using step fresh n
    by (auto simp: open_session_def ret_def intro!: node_inv_peer node_inv_send_to
        split: sum.splits fault.splits prod.splits)
qed

lemma node_inv_handshake:
  "node_inv me k n \<Longrightarrow> on_handshake E now rnd a msg n = Some (Inr n') \<Longrightarrow> node_inv me k n'"
proof (cases "peer_states n a")
  case (Some st)
  assume n: "node_inv me k n" and step: "on_handshake E now rnd a msg n = Some (Inr n')"
  note forget = node_inv_forget(1) [OF n, of a]
  show ?thesis
  proof (cases st)
    case (Secure s)
    have "\<exists>H. represents (replay_window s) H" using n Some Secure by (auto simp: node_inv_def sessions_ok_def)
    then show ?thesis using step Some Secure forget by (auto simp: on_handshake_def ret_def intro!: node_inv_peer)
  qed (use step Some forget in \<open>auto simp: on_handshake_def ret_def Let_def intro!: node_inv_peer node_inv_send_to
      dest: node_inv_open_session [rotated] intro: node_inv_open_session split: sum.splits fault.splits prod.splits\<close>)
qed (simp add: on_handshake_def ret_def)

lemma node_inv_lift_tm: "node_inv me k n \<Longrightarrow> lift_tm r n = Some (Inr n') \<Longrightarrow> node_inv me k n'"
  by (auto simp: lift_tm_def ret_def split: option.splits sum.splits fault.splits)

lemma node_inv_secure_frame:
  "node_inv me k n \<Longrightarrow> on_secure_frame E now a mt dat n = Some (Inr n') \<Longrightarrow> node_inv me k n'"
proof -
  assume n: "node_inv me k n" and step: "on_secure_frame E now a mt dat n = Some (Inr n')"
  have found: "\<forall>(i, a) \<in> set (resp_peers r). length i = 32" if "FindNodeResp_decode dat = Inr r" for r
    using find_node_resp.dec_ok [OF that] by (auto simp: FindNodeResp_ok_def list_all_iff peer_ok_def)
  show ?thesis
    using n step node_inv_learn_found [OF n found]
    by (cases mt) (auto simp: on_secure_frame_def on_credit_update_def on_find_node_def ret_def Let_def pid_ok_def
        intro: node_inv_lift_tm intro!: node_inv_send_secure node_inv_learn split: sum.splits if_splits)
qed

lemma node_inv_frame: "node_inv me k n \<Longrightarrow> on_frame E now rnd a f n = Some (Inr n') \<Longrightarrow> node_inv me k n'"
proof (cases "\<exists>s. peer_states n a = Some (Secure s) \<and> msg_type (header f) \<noteq> Handshake \<and> is_encrypted (flags (header f))")
  case True
  assume n: "node_inv me k n" and step: "on_frame E now rnd a f n = Some (Inr n')"
  from True obtain s where s: "peer_states n a = Some (Secure s)" "msg_type (header f) \<noteq> Handshake"
    "is_encrypted (flags (header f))" by blast
  obtain r s' where d: "decrypt (env_aead E) s (request_id (header f)) (payload f) = (r, s')"
    by (cases "decrypt (env_aead E) s (request_id (header f)) (payload f)")
  have "replay_window s' = snd (check_and_mark (replay_window s) (request_id (header f)))"
    using d by (auto simp: decrypt_def Let_def split: prod.splits if_splits option.splits)
  moreover obtain H where "represents (replay_window s) H" using n s(1) by (auto simp: node_inv_def sessions_ok_def)
  ultimately have "\<exists>H. represents (replay_window s') H"
    using check_and_mark_represents [of "replay_window s" H "request_id (header f)"] by metis
  then have m: "node_inv me k (set_peer a (Secure s') n)" using n by (auto intro!: node_inv_peer)
  show ?thesis
    using step s d m node_inv_secure_frame [OF m] by (auto simp: on_frame_def ret_def split: sum.splits)
next
  case False
  assume n: "node_inv me k n" and step: "on_frame E now rnd a f n = Some (Inr n')"
  show ?thesis
    using False n step node_inv_handshake [OF n]
    by (auto simp: on_frame_def ret_def split: if_splits option.splits NodePeerState.splits)
qed

lemma node_inv_event: "node_inv me k n \<Longrightarrow> on_event E now rnd ev n = Some (Inr n') \<Longrightarrow> node_inv me k n'"
  by (cases ev) (auto simp: on_event_def ret_def Let_def node_inv_forget intro: node_inv_frame
      intro!: node_inv_peer split: if_splits option.splits)

lemma node_inv_do: "node_inv me k n \<Longrightarrow> node_do E x n = Some (Inr n') \<Longrightarrow> node_inv me k n'"
proof -
  assume n: "node_inv me k n" and step: "node_do E x n = Some (Inr n')"
  then have tcp: "tcp_inv k (nd_tcp n)" by (simp add: node_inv_def)
  show ?thesis
  proof (cases x)
    case (Command now rnd order cmd)
    then show ?thesis using node_inv_command [OF n] step by simp
  next
    case (Event now rnd ev)
    then show ?thesis using node_inv_event [OF n] step by simp
  next
    case (TransferFrame now)
    then show ?thesis
      using n step by (auto simp: on_transfer_frame_def ret_def intro!: node_inv_send_secure split: list.splits prod.splits)
  qed (use n step tcp in \<open>auto simp: ret_def telemetry_tick_def Let_def intro!: node_inv_tcp
      tcp_inv_accept tcp_inv_reader_frame tcp_inv_reader_end tcp_inv_writer_step\<close>)
qed

lemma node_inv_run: "node_inv me k n \<Longrightarrow> node_run E xs n = Some (Inr n') \<Longrightarrow> node_inv me k n'"
proof (induction xs arbitrary: n)
  case (Cons x xs)
  then obtain m where "node_do E x n = Some (Inr m)" "node_run E xs m = Some (Inr n')"
    by (auto simp: then_step_def split: option.splits sum.splits)
  then show ?case using Cons node_inv_do by blast
qed (simp add: ret_def)

lemma node_inv_init: "pid_ok (peer_id me) \<Longrightarrow> node_inv me k (node_init now me a k files)"
  using rt_inv_new [of "peer_id me" now] by (simp add: node_inv_def node_init_def tcp_inv_bind sessions_ok_def RoutingTable_new_def)

lemma node_inv_seeds: "node_inv me k n \<Longrightarrow> node_inv me k (connect_seeds E now seeds n)"
  by (induction seeds arbitrary: n) (auto simp: connect_seeds_def node_inv_connect)

subsection \<open>Frames from a secure peer\<close>

text \<open>The events of an authentic frame under the receiving key \<open>k\<close>.\<close>

definition frame_events :: "aead_impl \<Rightarrow> byte list \<Rightarrow> SocketAddr \<Rightarrow> Frame \<Rightarrow> ApiEvent list" where
  "frame_events ae k a f =
     (case aead_decrypt ae k (build_nonce (request_id (header f))) [] (payload f) of
        Some p \<Rightarrow> plain_events a (msg_type (header f)) p | None \<Rightarrow> [])"

text \<open>One frame: it is dropped without an event, or it is encrypted, authentic and new.\<close>

lemma on_frame_secure_cases:
  assumes s: "peer_states n a = Some (Secure s)" "represents (replay_window s) H"
    and f: "msg_type (header f) \<noteq> Handshake" "on_frame E now rnd a f n = Some (Inr n')"
  obtains (dropped) s' H' where "api_events n' = api_events n" "peer_states n' a = Some (Secure s')" "H \<subseteq> H'"
      "represents (replay_window s') H'" "recv_cipher s' = recv_cipher s"
  | (accepted) s' p where "api_events n' = api_events n @ plain_events a (msg_type (header f)) p"
      "is_encrypted (flags (header f))" "request_id (header f) \<notin> H"
      "aead_decrypt (env_aead E) (recv_cipher s) (build_nonce (request_id (header f))) [] (payload f) = Some p"
      "peer_states n' a = Some (Secure s')" "represents (replay_window s') (insert (request_id (header f)) H)"
      "recv_cipher s' = recv_cipher s"
proof (cases "is_encrypted (flags (header f))")
  case False
  then have "n' = n" using s f by (simp add: on_frame_def ret_def)
  then show ?thesis using dropped [of s H] s by simp
next
  case True
  let ?i = "request_id (header f)"
  obtain r s1 where d: "decrypt (env_aead E) s ?i (payload f) = (r, s1)" by (cases "decrypt (env_aead E) s ?i (payload f)")
  have s1: "replay_window s1 = snd (check_and_mark (replay_window s) ?i)" "recv_cipher s1 = recv_cipher s"
    using d by (auto simp: decrypt_def Let_def split: prod.splits if_splits option.splits)
  show ?thesis
  proof (cases r)
    case (Inl e)
    then have "n' = set_peer a (Secure s1) n" using s f d True by (simp add: on_frame_def ret_def)
    moreover have "H \<subseteq> (if fst (check_and_mark (replay_window s) ?i) then insert ?i H else H)" by auto
    ultimately show ?thesis
      using dropped [of s1 "if fst (check_and_mark (replay_window s) ?i) then insert ?i H else H"]
        check_and_mark_represents [OF s(2), of ?i] s1 by simp
  next
    case (Inr p)
    then have ok: "fst (check_and_mark (replay_window s) ?i)"
      "aead_decrypt (env_aead E) (recv_cipher s) (build_nonce ?i) [] (payload f) = Some p"
      using d by (auto simp: decrypt_def Let_def split: prod.splits if_splits option.splits)
    have step: "on_secure_frame E now a (msg_type (header f)) p (set_peer a (Secure s1) n) = Some (Inr n')"
      using s f d True Inr by (simp add: on_frame_def)
    have "peer_states (set_peer a (Secure s1) n) a = Some (Secure s1)" by simp
    then obtain s' where s': "peer_states n' a = Some (Secure s')" "same_receiving s1 s'"
      using on_secure_frame_frame(2) [OF step] by blast
    have "represents (replay_window s') (insert ?i H)"
      using check_and_mark_represents [OF s(2), of ?i] ok(1) s'(2) s1(1) by (simp add: same_receiving_def)
    then show ?thesis
      using accepted [of p s'] on_secure_frame_frame(1) [OF step] True ok(2) s' s1(2)
        check_and_mark_never_twice [OF s(2) ok(1)] by (simp add: same_receiving_def)
  qed
qed

subsection \<open>Where events come from\<close>

text \<open>The events that carry what peer \<open>a\<close> said.\<close>

primrec said_by :: "SocketAddr \<Rightarrow> ApiEvent \<Rightarrow> bool" where
  "said_by a (PeerConnected b) = False"
| "said_by a (PeerDisconnected b r) = False"
| "said_by a (FileOfferReceived b f z) = (b = a)"
| "said_by a (MessageReceived b m) = (b = a)"

text \<open>The inputs that end the session with peer \<open>a\<close>, and the frames among the inputs that came from \<open>a\<close>.\<close>

fun resets :: "SocketAddr \<Rightarrow> node_input \<Rightarrow> bool" where
  "resets a (Command now rnd order (CmdConnect b)) = (b = a)"
| "resets a (Event now rnd (Disconnected b r)) = (b = a)"
| "resets a (Event now rnd (TransportErr (Some b) e)) = (b = a)"
| "resets a x = False"

fun frame_from :: "SocketAddr \<Rightarrow> node_input \<Rightarrow> Frame option" where
  "frame_from a (Event now rnd (FrameReceived b f)) = (if b = a \<and> msg_type (header f) \<noteq> Handshake then Some f else None)"
| "frame_from a x = None"

lemma said_by_plain: "filter (said_by a) (plain_events b mt p) = (if a = b then plain_events b mt p else [])"
proof (cases "FileOffer_decode p")
  case (Inl e)
  then show ?thesis by (cases mt) (simp_all add: plain_events_def)
next
  case (Inr r)
  then show ?thesis by (cases mt) (simp_all add: plain_events_def)
qed

text \<open>\<open>keeps_session a n n'\<close>: going from \<open>n\<close> to \<open>n'\<close>, nothing is heard from \<open>a\<close> and the receiving side of
  its session stays as it is.\<close>

definition keeps_session :: "SocketAddr \<Rightarrow> Node \<Rightarrow> Node \<Rightarrow> bool" where
  "keeps_session a n n' \<longleftrightarrow> filter (said_by a) (api_events n') = filter (said_by a) (api_events n) \<and>
     (\<forall>s. peer_states n a = Some (Secure s) \<longrightarrow> (\<exists>s'. peer_states n' a = Some (Secure s') \<and> same_receiving s s'))"

lemma same_receiving_refl [simp]: "same_receiving s s"
  by (simp add: same_receiving_def)

lemma keeps_session_refl: "peer_states n' a = peer_states n a \<Longrightarrow>
  filter (said_by a) (api_events n') = filter (said_by a) (api_events n) \<Longrightarrow> keeps_session a n n'"
  by (auto simp: keeps_session_def)

lemma keeps_session_trans: "keeps_session a n m \<Longrightarrow> keeps_session a m n' \<Longrightarrow> keeps_session a n n'"
  unfolding keeps_session_def same_receiving_def by (metis (no_types, lifting))

lemma keeps_send_secure: "keeps_session a n (send_secure E now b mt dat n)"
  using send_secure_frame(2) by (simp add: keeps_session_def send_secure_frame(1))

lemma keeps_send_chat: "keeps_session a n (send_chat E now b msg n)"
proof -
  have "api_events (send_chat E now b msg n) = api_events (send_secure E now b Data msg n) \<and>
      peer_states (send_chat E now b msg n) = peer_states (send_secure E now b Data msg n) \<or> send_chat E now b msg n = n"
    by (simp add: send_chat_def Let_def split: option.splits NodePeerState.splits sum.splits)
  then show ?thesis
    using keeps_send_secure [of a n E now b Data msg] by (auto simp: keeps_session_def)
qed

lemma keeps_find_all: "keeps_session a n (foldl (\<lambda>n b. send_secure E now b FindNode dat n) n order)"
proof (induction order arbitrary: n)
  case (Cons b order)
  show ?case using keeps_session_trans [OF keeps_send_secure Cons.IH] by simp
qed (simp add: keeps_session_refl)

lemma keeps_command:
  assumes "\<not> resets a (Command now rnd order cmd)" "on_command E now rnd order cmd n = Some (Inr n')"
  shows "keeps_session a n n'"
proof (cases cmd)
  case (CmdConnect b)
  then have "peer_states n' a = peer_states n a" "api_events n' = api_events n"
    using assms by (auto simp: on_command_def ret_def connect_to_def split: sum.splits prod.splits)
  then show ?thesis by (simp add: keeps_session_refl)
next
  case (CmdConnectPeerId h)
  then show ?thesis
    using assms(2) keeps_find_all [of a n E now]
    by (auto simp: on_command_def ret_def connect_peer_id_def Let_def keeps_session_def split: option.splits if_splits)
next
  case (CmdSendMessage b msg)
  then show ?thesis using assms(2) keeps_send_chat by (auto simp: on_command_def ret_def)
next
  case (CmdSendMessagePeerId h msg)
  then show ?thesis
    using assms(2) keeps_send_chat
    by (auto simp: on_command_def ret_def send_message_peer_id_def intro: keeps_session_refl split: option.splits if_splits)
qed (use assms(2) in \<open>auto simp: on_command_def ret_def intro!: keeps_session_refl split: if_splits\<close>)

text \<open>Frames of other peers, and handshake frames, which a secure peer cannot restart.\<close>

lemma open_session_other:
  "open_session E now b hs n = Some (Inr n') \<Longrightarrow> a \<noteq> b \<Longrightarrow>
     peer_states n' a = peer_states n a \<and> api_events n' = api_events n"
  by (auto simp: open_session_def ret_def split: sum.splits fault.splits prod.splits)

lemma handshake_other:
  "on_handshake E now rnd b msg n = Some (Inr n') \<Longrightarrow> a \<noteq> b \<Longrightarrow>
     peer_states n' a = peer_states n a \<and> api_events n' = api_events n"
  by (auto simp: on_handshake_def ret_def Let_def dest!: open_session_other [of E now b _ _ n' a]
      split: option.splits NodePeerState.splits sum.splits fault.splits prod.splits)

lemma handshake_secure:
  "on_handshake E now rnd a msg n = Some (Inr n') \<Longrightarrow> peer_states n a = Some (Secure s) \<Longrightarrow>
     peer_states n' a = Some (Secure s) \<and> api_events n' = api_events n"
  by (auto simp: on_handshake_def ret_def)

lemma secure_frame_other:
  assumes "on_secure_frame E now b mt dat n = Some (Inr n')" "a \<noteq> b"
  shows "keeps_session a n n'"
  using on_secure_frame_frame [OF assms(1)] assms(2) by (simp add: keeps_session_def said_by_plain)

lemma frame_other:
  assumes "on_frame E now rnd b f n = Some (Inr n')" "a \<noteq> b"
  shows "keeps_session a n n'"
proof -
  have "keeps_session a (set_peer b st n) n' \<Longrightarrow> keeps_session a n n'" for st
    using assms(2) by (simp add: keeps_session_def)
  then show ?thesis
    using assms handshake_other [of E now rnd b "payload f" n n' a] secure_frame_other [of E now b _ _ _ n' a]
    by (auto simp: on_frame_def ret_def intro: keeps_session_refl
        split: if_splits option.splits NodePeerState.splits sum.splits prod.splits)
qed

lemma keeps_do:
  assumes "node_do E x n = Some (Inr n')" "\<not> resets a x" "frame_from a x = None" "peer_states n a = Some (Secure s)"
  shows "keeps_session a n n'"
proof (cases x)
  case (Command now rnd order cmd)
  then show ?thesis using keeps_command assms(1,2) by simp
next
  case (Event now rnd ev)
  show ?thesis
  proof (cases ev)
    case (FrameReceived b f)
    show ?thesis
    proof (cases "b = a")
      case True
      then have "on_handshake E now rnd a (payload f) n = Some (Inr n')"
        using assms(1,3) Event FrameReceived by (auto simp: on_event_def on_frame_def split: if_splits)
      from handshake_secure [OF this assms(4)] show ?thesis using assms(4) by (simp add: keeps_session_refl)
    next
      case False
      then show ?thesis using frame_other [of E now rnd b f n n' a] assms(1) Event FrameReceived by (simp add: on_event_def)
    qed
  qed (use assms Event in \<open>auto simp: on_event_def ret_def Let_def intro!: keeps_session_refl split: if_splits option.splits\<close>)
next
  case (TransferFrame now)
  then show ?thesis
    using assms(1) keeps_send_secure [of a]
    by (auto simp: on_transfer_frame_def ret_def keeps_session_def split: list.splits prod.splits)
qed (use assms(1) in \<open>auto simp: ret_def telemetry_tick_def Let_def intro!: keeps_session_refl\<close>)

lemma node_run_authentic:
  assumes "peer_states n a = Some (Secure s)" "represents (replay_window s) H"
    and "\<forall>x \<in> set xs. \<not> resets a x" "node_run E xs n = Some (Inr n')"
  shows "\<exists>gs. subseq gs (List.map_filter (frame_from a) xs) \<and> distinct (map (\<lambda>f. request_id (header f)) gs) \<and>
    (\<forall>f \<in> set gs. is_encrypted (flags (header f)) \<and> request_id (header f) \<notin> H \<and>
       aead_decrypt (env_aead E) (recv_cipher s) (build_nonce (request_id (header f))) [] (payload f) \<noteq> None) \<and>
    filter (said_by a) (api_events n') =
      filter (said_by a) (api_events n) @ concat (map (frame_events (env_aead E) (recv_cipher s) a) gs)"
  using assms
proof (induction xs arbitrary: n s H)
  case Nil
  then show ?case by (intro exI [of _ "[]"]) (simp add: ret_def List.map_filter_simps)
next
  case (Cons x xs)
  let ?P = "\<lambda>k H f. is_encrypted (flags (header f)) \<and> request_id (header f) \<notin> H \<and>
    aead_decrypt (env_aead E) k (build_nonce (request_id (header f))) [] (payload f) \<noteq> None"
  let ?ev = "\<lambda>n. filter (said_by a) (api_events n)" and ?frames = "List.map_filter (frame_from a)"
  obtain m where m: "node_do E x n = Some (Inr m)" "node_run E xs m = Some (Inr n')"
    using Cons.prems(4) by (auto simp: then_step_def split: option.splits sum.splits)
  have xs: "\<forall>x \<in> set xs. \<not> resets a x" and x: "\<not> resets a x" using Cons.prems(3) by simp_all
  have step: "\<exists>gs. subseq gs (?frames (x # xs)) \<and> distinct (map (\<lambda>f. request_id (header f)) gs) \<and>
      (\<forall>f \<in> set gs. ?P (recv_cipher s) H f) \<and> ?ev n' = ?ev m @ concat (map (frame_events (env_aead E) (recv_cipher s) a) gs)"
    if s': "peer_states m a = Some (Secure s')" "represents (replay_window s') H'" "recv_cipher s' = recv_cipher s" "H \<subseteq> H'"
    for s' H'
  proof -
    from Cons.IH [OF s'(1,2) xs m(2)] obtain gs where gs: "subseq gs (?frames xs)"
      "distinct (map (\<lambda>f. request_id (header f)) gs)" "\<forall>f \<in> set gs. ?P (recv_cipher s') H' f"
      "?ev n' = ?ev m @ concat (map (frame_events (env_aead E) (recv_cipher s') a) gs)" by blast
    have "subseq gs (?frames (x # xs))" using gs(1) by (auto simp: List.map_filter_simps intro: list_emb_Cons split: option.splits)
    then show ?thesis using gs(2-4) s'(3,4) by (intro exI [of _ gs]) auto
  qed
  show ?case
  proof (cases "frame_from a x")
    case None
    then have k: "keeps_session a n m" using keeps_do m(1) x Cons.prems(1) by blast
    then obtain s' where "peer_states m a = Some (Secure s')" "same_receiving s s'"
      using Cons.prems(1) by (auto simp: keeps_session_def)
    then show ?thesis
      using step [of s' H] Cons.prems(2) k by (simp add: same_receiving_def keeps_session_def)
  next
    case (Some f)
    then obtain now rnd where f: "on_frame E now rnd a f n = Some (Inr m)" "msg_type (header f) \<noteq> Handshake"
      using m(1) by (cases "(a, x)" rule: frame_from.cases) (auto simp: on_event_def split: if_splits)
    from Cons.prems(1,2) f(2,1) show ?thesis
    proof (cases rule: on_frame_secure_cases)
      case (dropped s' H')
      then show ?thesis using step [of s' H'] by simp
    next
      case (accepted s' p)
      from Cons.IH [OF accepted(5,6) xs m(2)] obtain gs where gs: "subseq gs (?frames xs)"
        "distinct (map (\<lambda>f. request_id (header f)) gs)" "\<forall>g \<in> set gs. ?P (recv_cipher s') (insert (request_id (header f)) H) g"
        "?ev n' = ?ev m @ concat (map (frame_events (env_aead E) (recv_cipher s') a) gs)" by blast
      moreover have "frame_events (env_aead E) (recv_cipher s) a f = plain_events a (msg_type (header f)) p"
        using accepted(4) by (simp add: frame_events_def)
      ultimately show ?thesis
        using accepted(1-4,7) Some
        by (intro exI [of _ "f # gs"]) (auto simp: List.map_filter_simps said_by_plain)
    qed
  qed
qed

lemma data_frame_returns:
  assumes "msg_type (header f) = Data"
  shows "\<exists>n'. on_frame E now rnd a f n = ret n'"
  using assms by (auto simp: on_frame_def on_secure_frame_def split: option.splits NodePeerState.splits sum.splits prod.splits)

subsection \<open>Safety of the event loop\<close>

lemma node_run_invariant:
  assumes "pid_ok (peer_id me)"
    and "node_run E xs (connect_seeds E now seeds (node_init now me a k files)) = Some (Inr n)"
  shows "nd_identity n = me \<and> rt_inv (routing_table n) \<and> local_id (routing_table n) = peer_id me \<and>
    pool_len (tcp_pool (nd_tcp n)) \<le> k \<and> senders_ok (nd_tcp n) \<and> sessions_ok (peer_states n)"
  using node_inv_run [OF node_inv_seeds [OF node_inv_init [OF assms(1)]] assms(2)]
  by (auto simp: node_inv_def tcp_inv_def pool_inv_def)

text \<open>A node to run examples on.\<close>

definition example_env :: node_env where
  "example_env = \<lparr>env_crypto = toy_crypto, env_aead = toy_aead,
     env_os = \<lparr>open_err = \<lambda>q. False, create_err = \<lambda>q. False, read_err = \<lambda>q. False, set_len_err = \<lambda>q n. False,
       mmap_err = \<lambda>q. False, short_read = \<lambda>n. n\<rparr>,
     hex_crate_encode = hex_encode, hex_crate_decode = (\<lambda>s. None), connect_ok = (\<lambda>a. True)\<rparr>"

definition example_node :: Node where
  "example_node = node_init 0 (Identity_generate toy_crypto (replicate 32 1) (replicate 32 2)) example_addr 4 Map.empty"

text \<open>C3. What a node reports as said by a secure peer - chat messages and file offers - is what the peer
  sealed for this session: as long as the session lasts, whatever else happens to the node, the events it
  emits for that peer are those of a subsequence of the frames received from it, all of them encrypted and
  authentic under the receiving key of the session and no two with the same nonce.  Plain, forged and
  replayed frames, and frames of other peers, cause none.\<close>

theorem node_events_authentic:
  assumes "peer_states n a = Some (Secure s)" "replay_window s = ReplayWindow_new"
    and "\<forall>x \<in> set xs. \<not> resets a x" "node_run E xs n = Some (Inr n')"
  shows "\<exists>gs. subseq gs (List.map_filter (frame_from a) xs) \<and> distinct (map (\<lambda>f. request_id (header f)) gs) \<and>
    (\<forall>f \<in> set gs. is_encrypted (flags (header f)) \<and>
       aead_decrypt (env_aead E) (recv_cipher s) (build_nonce (request_id (header f))) [] (payload f) \<noteq> None) \<and>
    filter (said_by a) (api_events n') =
      filter (said_by a) (api_events n) @ concat (map (frame_events (env_aead E) (recv_cipher s) a) gs)"
proof -
  have "represents (replay_window s) {}" using assms(2) represents_new by simp
  from node_run_authentic [OF assms(1) this assms(3,4)] show ?thesis by simp
qed

definition example_session :: SecureSession where
  "example_session = \<lparr>send_cipher = [1], recv_cipher = [2], send_nonce = 0, recv_nonce_max = 0,
     replay_window = ReplayWindow_new, sess_remote_static = []\<rparr>"

lemma example_session_simps [simp]:
  "recv_cipher example_session = [2]" "replay_window example_session = ReplayWindow_new"
  by (simp_all add: example_session_def)

theorem node_events_authentic_witness:
  "let f = Frame_new Data (with_encrypted Flags_empty) 5 ([104] @ toy_tag [2] (build_nonce 5) [] [104]);
       g = Frame_new Data Flags_empty 6 [105];
       n = set_peer example_addr (Secure example_session) example_node
   in \<exists>n' gs. node_run example_env (map (\<lambda>f. Event 0 [] (FrameReceived example_addr f)) [f, f, g]) n = Some (Inr n') \<and>
     subseq gs [f, f, g] \<and> distinct (map (\<lambda>f. request_id (header f)) gs) \<and> (\<forall>f \<in> set gs. is_encrypted (flags (header f))) \<and>
     filter (said_by example_addr) (api_events n') = concat (map (frame_events toy_aead [2] example_addr) gs)"
proof -
  define f where "f = Frame_new Data (with_encrypted Flags_empty) 5 ([104] @ toy_tag [2] (build_nonce 5) [] [104])"
  define g where "g = Frame_new Data Flags_empty 6 [105]"
  let ?n = "set_peer example_addr (Secure example_session) example_node"
  let ?xs = "map (\<lambda>f. Event 0 [] (FrameReceived example_addr f)) [f, f, g]"
  have t: "msg_type (header f) = Data" "msg_type (header g) = Data" by (simp_all add: f_def g_def Frame_new_def)
  obtain n1 n2 n' where "on_frame example_env 0 [] example_addr f ?n = ret n1"
    "on_frame example_env 0 [] example_addr f n1 = ret n2" "on_frame example_env 0 [] example_addr g n2 = ret n'"
    using data_frame_returns t by metis
  then have n': "node_run example_env ?xs ?n = Some (Inr n')" by (simp add: on_event_def) (simp add: ret_def)
  have m: "List.map_filter (frame_from example_addr) ?xs = [f, f, g]" by (simp add: List.map_filter_simps t)
  have e: "api_events ?n = []" "env_aead example_env = toy_aead"
    by (simp_all add: example_node_def node_init_def example_env_def)
  show ?thesis
    using node_events_authentic [of ?n example_addr example_session ?xs example_env n'] n' m e
    unfolding Let_def f_def [symmetric] g_def [symmetric] by auto
qed

lemma lift_tm_None [simp]: "lift_tm r n = None \<longleftrightarrow> r = None"
  by (simp add: lift_tm_def ret_def split: option.splits sum.splits fault.splits)

lemma pump_send_returns: "pump_send C False tid tm \<noteq> None"
  by (simp add: pump_send_def)

lemma credit_update_returns: "\<exists>r. on_credit_update E dat n = Some r"
proof -
  let ?r = "handle_credit_update (env_crypto E) (TransferId (take 16 dat)) (of_le (take 4 (drop 16 dat))) (transfer_manager n)"
  have "?r \<noteq> None" unfolding handle_credit_update_def Let_def by (rule pump_send_returns)
  then have "\<exists>r. lift_tm ?r n = Some r" using lift_tm_None [of ?r n] by (cases "lift_tm ?r n") auto
  then show ?thesis by (simp add: on_credit_update_def ret_def)
qed

lemma open_session_returns: "\<exists>r. open_session E now a hs n = Some r"
  by (simp add: open_session_def ret_def split: sum.splits fault.splits prod.splits)

lemma handshake_returns: "\<exists>r. on_handshake E now rnd a msg n = Some r"
  by (simp add: on_handshake_def ret_def Let_def open_session_returns
        split: option.splits NodePeerState.splits sum.splits fault.splits prod.splits)

lemma secure_frame_None:
  "on_secure_frame E now a mt dat n = None \<longleftrightarrow> mt = FileChunkAck \<and>
     (\<exists>ack st. FileChunkAck_decode dat = Inr ack \<and> active_transfers (transfer_manager n) (ack_transfer_id ack) = Some (Sending st))"
  using credit_update_returns [of E dat n]
  by (cases mt) (auto simp: on_secure_frame_def ret_def handle_chunk_ack_None split: sum.splits)

text \<open>C26. When the event loop stops for ever.  Handling an event of the transport returns, whatever the event and the
  state of the node, with one exception: an encrypted acknowledgement of a chunk, from a secure peer, that
  names a transfer this node is sending, to whomever.  Then it does not return:
  \<open>handle_chunk_ack\<close> calls \<open>pump_send\<close> while it holds the guard of the transfer, and \<open>pump_send\<close> waits for it.\<close>

theorem node_hangs_iff:
  "on_event E now rnd ev n = None \<longleftrightarrow>
     (\<exists>a f s s' dat ack st. ev = FrameReceived a f \<and> msg_type (header f) = FileChunkAck \<and>
        is_encrypted (flags (header f)) \<and> peer_states n a = Some (Secure s) \<and>
        decrypt (env_aead E) s (request_id (header f)) (payload f) = (Inr dat, s') \<and>
        FileChunkAck_decode dat = Inr ack \<and>
        active_transfers (transfer_manager n) (ack_transfer_id ack) = Some (Sending st))"
proof (cases ev)
  case (FrameReceived a f)
  then show ?thesis using handshake_returns [of E now rnd a "payload f" n]
    by (auto simp: on_event_def on_frame_def secure_frame_None ret_def
          split: option.splits NodePeerState.splits sum.splits prod.splits)
next
  case (TransportErr x e)
  then show ?thesis by (cases x) (simp_all add: on_event_def ret_def)
qed (simp_all add: on_event_def ret_def Let_def)

end
