(* ===== verification/Node_Chat.thy ===== *)
theory Node_Chat
  imports Node_Correct
begin

text \<open>
  Two nodes end to end: one connects to the other, they run the handshake through their event loops and
  transports, and chat messages sent through the API of the one come out at the API of the other.
\<close>

subsection \<open>An open connection\<close>

text \<open>\<open>linked a n fs\<close>: node \<open>n\<close> has an open connection to \<open>a\<close>, and \<open>fs\<close> are the frames it queued for it.\<close>

definition linked :: "SocketAddr \<Rightarrow> Node \<Rightarrow> Frame list \<Rightarrow> bool" where
  "linked a n fs \<longleftrightarrow> (\<exists>i. peer_senders (nd_tcp n) a = Some i \<and> i < length (channels (nd_tcp n)) \<and>
     channels (nd_tcp n) ! i = \<lparr>running = True, queue = fs\<rparr>)"

lemma linked_frame [simp]:
  "linked a (set_peer b st n) fs = linked a n fs" "linked a (n\<lparr>api_events := evs\<rparr>) fs = linked a n fs"
  "linked a (n\<lparr>peer_states := ps\<rparr>) fs = linked a n fs" "linked a (n\<lparr>metrics := m\<rparr>) fs = linked a n fs"
  by (simp_all add: linked_def set_peer_def)

lemma linked_tcp_send:
  assumes "linked a n fs"
  shows "fst (tcp_send_to now a f (nd_tcp n)) = Inr ()"
    "linked a (n\<lparr>nd_tcp := snd (tcp_send_to now a f (nd_tcp n))\<rparr>) (fs @ [f])"
proof -
  obtain i where i: "peer_senders (nd_tcp n) a = Some i" "i < length (channels (nd_tcp n))"
    "channels (nd_tcp n) ! i = \<lparr>running = True, queue = fs\<rparr>" using assms by (auto simp: linked_def)
  then have run: "running (channels (nd_tcp n) ! i)" by simp
  show "fst (tcp_send_to now a f (nd_tcp n)) = Inr ()" using tcp_send_to_channel(1) [OF i(1) run] .
  show "linked a (n\<lparr>nd_tcp := snd (tcp_send_to now a f (nd_tcp n))\<rparr>) (fs @ [f])"
    using tcp_send_to_channel(2,3) [OF i(1) run, of now f] i by (simp add: linked_def)
qed

lemma linked_send_to: "linked a n fs \<Longrightarrow> linked a (send_to now a f n) (fs @ [f])"
  using linked_tcp_send(2) by (simp add: send_to_def)

lemma linked_spawn: "linked a (n\<lparr>nd_tcp := spawn_connection a t\<rparr>) []"
  by (simp add: linked_def)

lemma pool_insert_ok: "pool_len p < max_connections p \<Longrightarrow> fst (pool_insert now a p) = Inr ()"
  by (simp add: pool_insert_def insert_check_def)

subsection \<open>The handshake, step by step\<close>

lemma run_handshake_steps:
  assumes "noise_laws cr ae" "a = Identity_generate cr ed_a x_a" "b = Identity_generate cr ed_b x_b"
  obtains m1 i1 m2 p1 m3 i2 p2 k k' where
    "create_message1 cr ea (new_initiator cr a) = (Inr m1, i1)"
    "process_message1_create_message2 cr ae eb m1 (new_responder cr b) = (Inr m2, p1)"
    "process_message2_create_message3 cr ae m2 i1 = (Inr m3, i2)"
    "process_message3 cr ae m3 p1 = (Inr (), p2)"
    "hs_state i2 = Complete k k' (x25519_public_key b)" "hs_state p2 = Complete k' k (x25519_public_key a)"
    "length k = 32" "length k' = 32"
proof -
  obtain i p k k' where run: "run_handshake cr ae a b ea eb = Inr (i, p)"
    "hs_state i = Complete k k' (x25519_public_key b)" "hs_state p = Complete k' k (x25519_public_key a)"
    "length k = 32" "length k' = 32"
    using run_handshake_ok [OF assms] by blast
  obtain r1 i1 where 1: "create_message1 cr ea (new_initiator cr a) = (r1, i1)" by (cases "create_message1 cr ea (new_initiator cr a)")
  from run(1) obtain m1 where m1: "r1 = Inr m1" by (auto simp: run_handshake_def 1 bindR_Inr_iff)
  obtain r2 p1 where 2: "process_message1_create_message2 cr ae eb m1 (new_responder cr b) = (r2, p1)"
    by (cases "process_message1_create_message2 cr ae eb m1 (new_responder cr b)")
  from run(1) obtain m2 where m2: "r2 = Inr m2" by (auto simp: run_handshake_def 1 2 m1 bindR_Inr_iff)
  obtain r3 i2 where 3: "process_message2_create_message3 cr ae m2 i1 = (r3, i2)"
    by (cases "process_message2_create_message3 cr ae m2 i1")
  from run(1) obtain m3 where m3: "r3 = Inr m3" by (auto simp: run_handshake_def 1 2 3 m1 m2 bindR_Inr_iff)
  obtain r4 p2 where 4: "process_message3 cr ae m3 p1 = (r4, p2)" by (cases "process_message3 cr ae m3 p1")
  from run(1) have "r4 = Inr ()" "i = i2" "p = p2"
    by (auto simp: run_handshake_def 1 2 3 4 m1 m2 m3 bindR_Inr_iff)
  with that [of m1 i1 m2 p1 m3 i2 p2 k k'] 1 2 3 4 m1 m2 m3 run show thesis by simp
qed

text \<open>The session a side opens once its handshake is complete, after the ping with its identifier.\<close>

definition opened :: "byte list \<Rightarrow> byte list \<Rightarrow> byte list \<Rightarrow> SecureSession" where
  "opened send recv remote = \<lparr>send_cipher = send, recv_cipher = recv, send_nonce = 1, recv_nonce_max = 0,
     replay_window = ReplayWindow_new, sess_remote_static = remote\<rparr>"

lemma open_session_ok:
  assumes laws: "noise_laws (env_crypto E) (env_aead E)" and id: "length (as_bytes (peer_id (nd_identity n))) = 32"
    and hs: "hs_state hs = Complete k k' r" "length k = 32" "length k' = 32" and link: "linked a n fs"
  shows "\<exists>n' ping. open_session E now a hs n = Some (Inr n') \<and> msg_type (header ping) = Ping \<and>
    linked a n' (fs @ [ping]) \<and> peer_states n' a = Some (Secure (opened k k' r)) \<and> api_events n' = api_events n \<and>
    nd_identity n' = nd_identity n"
proof -
  let ?s = "\<lparr>send_cipher = k, recv_cipher = k', send_nonce = 0, recv_nonce_max = 0,
    replay_window = ReplayWindow_new, sess_remote_static = r\<rparr>" and ?d = "as_bytes (peer_id (nd_identity n))"
  have new: "aead_new (env_aead E) k = None" "aead_new (env_aead E) k' = None"
    using laws hs by (simp_all add: noise_laws_def)
  obtain c where c: "aead_encrypt (env_aead E) k (build_nonce 0) [] ?d = Some c"
    using laws hs(2) id unfolding noise_laws_def by (metis order_refl)
  have "from_keys (env_aead E) \<lparr>send_key = k, recv_key = k', remote_static = r\<rparr> = Inr ?s"
    using new by (simp add: from_keys_def)
  moreover have "encrypt (env_aead E) ?s ?d = (Inr (0, c), opened k k' r)"
    using c by (simp add: encrypt_def opened_def MAX_NONCE_def)
  moreover define ping where "ping = Frame_new Ping (with_encrypted Flags_empty) 0 c"
  moreover define n' where "n' = set_peer a (Secure (opened k k' r)) (send_to now a ping n)"
  ultimately have "open_session E now a hs n = Some (Inr n')"
    using hs(1) by (simp add: open_session_def into_session_keys_def ret_def)
  moreover have "msg_type (header ping) = Ping" by (simp add: ping_def Frame_new_def)
  moreover have "linked a n' (fs @ [ping])" "peer_states n' a = Some (Secure (opened k k' r))"
    "api_events n' = api_events n" "nd_identity n' = nd_identity n"
    using linked_send_to [OF link] by (simp_all add: n'_def)
  ultimately show ?thesis by blast
qed

subsection \<open>Chat messages over a session\<close>

definition chat_frame :: "u64 \<Rightarrow> byte list \<Rightarrow> Frame" where
  "chat_frame i ct = Frame_new Data (with_encrypted Flags_empty) i ct"

lemma chat_frame_simps [simp]:
  "msg_type (header (chat_frame i ct)) = Data" "request_id (header (chat_frame i ct)) = i"
  "is_encrypted (flags (header (chat_frame i ct)))" "payload (chat_frame i ct) = ct"
  by (simp_all add: chat_frame_def Frame_new_def is_encrypted_def with_encrypted_def Flags_empty_def FLAG_ENCRYPTED_def)

definition can_seal :: "aead_impl \<Rightarrow> byte list \<Rightarrow> byte list \<Rightarrow> bool" where
  "can_seal ae k m \<longleftrightarrow> (\<forall>i. \<exists>c. aead_encrypt ae k (build_nonce i) [] m = Some c \<and>
     aead_decrypt ae k (build_nonce i) [] c = Some m)"

lemma send_chat_ok:
  assumes "peer_states n a = Some (Secure s)" "linked a n fs" "send_nonce s \<le> MAX_NONCE"
    and "can_seal (env_aead E) (send_cipher s) m"
  obtains ct n' where "on_command E now rnd order (CmdSendMessage a m) n = Some (Inr n')"
    "aead_decrypt (env_aead E) (send_cipher s) (build_nonce (send_nonce s)) [] ct = Some m"
    "linked a n' (fs @ [chat_frame (send_nonce s) ct])"
    "peer_states n' a = Some (Secure (s\<lparr>send_nonce := send_nonce s + 1\<rparr>))"
proof -
  obtain ct where ct: "aead_encrypt (env_aead E) (send_cipher s) (build_nonce (send_nonce s)) [] m = Some ct"
    "aead_decrypt (env_aead E) (send_cipher s) (build_nonce (send_nonce s)) [] ct = Some m"
    using assms(4) unfolding can_seal_def by blast
  let ?s = "s\<lparr>send_nonce := send_nonce s + 1\<rparr>"
  let ?n = "send_to now a (chat_frame (send_nonce s) ct) (set_peer a (Secure ?s) n)"
  have e: "encrypt (env_aead E) s m = (Inr (send_nonce s, ct), ?s)" using assms(3) ct(1) by (simp add: encrypt_def Let_def)
  then have "on_command E now rnd order (CmdSendMessage a m) n =
      ret (?n\<lparr>metrics := (metrics ?n)\<lparr>tx_bytes := tx_bytes (metrics ?n) + of_nat (length m)\<rparr>\<rparr>)"
    using assms(1) by (simp add: on_command_def send_chat_def send_secure_def chat_frame_def Let_def)
  moreover have "linked a ?n (fs @ [chat_frame (send_nonce s) ct])" using linked_send_to assms(2) by simp
  ultimately show thesis using that ct(2) by (simp add: ret_def)
qed

lemma receive_chat_ok:
  assumes "peer_states n a = Some (Secure s)" "represents (replay_window s) H" "max_nonce (replay_window s) < i"
    and "aead_decrypt (env_aead E) (recv_cipher s) (build_nonce i) [] ct = Some m" "utf8_valid m"
  obtains n' s' where "on_event E now rnd (FrameReceived a (chat_frame i ct)) n = Some (Inr n')"
    "api_events n' = api_events n @ [MessageReceived a m]" "peer_states n' a = Some (Secure s')"
    "recv_cipher s' = recv_cipher s" "represents (replay_window s') (insert i H)" "max_nonce (replay_window s') = i"
    "nd_tcp n' = nd_tcp n"
proof -
  obtain b w where c: "check_and_mark (replay_window s) i = (b, w)" by (cases "check_and_mark (replay_window s) i")
  have new: b "represents w (insert i H)" "max_nonce w = i"
    using check_and_mark_new [OF assms(2,3)] c by simp_all
  let ?s = "s\<lparr>replay_window := w, recv_nonce_max := max (recv_nonce_max s) i\<rparr>"
  have "decrypt (env_aead E) s i ct = (Inr m, ?s)" using c new(1) assms(4) by (simp add: decrypt_def)
  then have "on_event E now rnd (FrameReceived a (chat_frame i ct)) n =
      ret ((set_peer a (Secure ?s) n)\<lparr>api_events := api_events n @ [MessageReceived a m]\<rparr>)"
    using assms(1,5) by (simp add: on_event_def on_frame_def on_secure_frame_def)
  with that show thesis using new by (simp add: ret_def)
qed

text \<open>The frames that carry \<open>ms\<close> under key \<open>k\<close>, with consecutive nonces from \<open>i\<close> on.\<close>

fun carry :: "aead_impl \<Rightarrow> byte list \<Rightarrow> u64 \<Rightarrow> byte list list \<Rightarrow> Frame list \<Rightarrow> bool" where
  "carry ae k i [] [] = True"
| "carry ae k i (m # ms) (f # fs) =
     ((\<exists>ct. f = chat_frame i ct \<and> aead_decrypt ae k (build_nonce i) [] ct = Some m) \<and> carry ae k (i + 1) ms fs)"
| "carry ae k i _ _ = False"

lemma seal_fields [simp]:
  "msg_type (header (seal crc f)) = msg_type (header f)" "flags (header (seal crc f)) = flags (header f)"
  "request_id (header (seal crc f)) = request_id (header f)"
  by (simp_all add: seal_def)

lemma on_frame_seal [simp]: "on_frame E now rnd a (seal crc f) n = on_frame E now rnd a f n"
  by (simp only: on_frame_def seal_fields seal_simps)

lemma on_event_seal [simp]: "on_event E now rnd (FrameReceived a (seal crc f)) n = on_event E now rnd (FrameReceived a f) n"
  by (simp add: on_event_def)

lemma node_run_append: "node_run E (xs @ ys) n = then_step (node_run E xs n) (node_run E ys)"
  by (induction xs arbitrary: n) (simp_all add: then_step_def ret_def split: option.splits sum.splits)

lemma node_run_step: "node_do E x n = Some (Inr n') \<Longrightarrow> node_run E (x # xs) n = node_run E xs n'"
  by (simp add: then_step_def)

lemma unat_next: "unat (i :: u64) < 2 ^ 64 - 1 \<Longrightarrow> unat (i + 1) = Suc (unat i)"
  by (simp add: unat_word_ariths)

lemma send_all_ok:
  assumes "peer_states n a = Some (Secure s)" "linked a n fs" "unat (send_nonce s) + length ms \<le> 2 ^ 48"
    and "\<forall>m \<in> set ms. can_seal (env_aead E) (send_cipher s) m"
  obtains gs n' where "node_run E (map (\<lambda>m. Command now rnd order (CmdSendMessage a m)) ms) n = Some (Inr n')"
    "linked a n' (fs @ gs)" "carry (env_aead E) (send_cipher s) (send_nonce s) ms gs"
  using assms
proof (induction ms arbitrary: n s fs thesis)
  case Nil
  show ?case using Nil(1) [of n "[]"] Nil(3) by (simp add: ret_def)
next
  case (Cons m ms)
  have le: "send_nonce s \<le> MAX_NONCE" using Cons.prems(4) by (simp add: MAX_NONCE_def word_le_nat_alt)
  have "can_seal (env_aead E) (send_cipher s) m" using Cons.prems(5) by simp
  from send_chat_ok [OF Cons.prems(2,3) le this] obtain ct n1 where
    1: "on_command E now rnd order (CmdSendMessage a m) n = Some (Inr n1)"
      "aead_decrypt (env_aead E) (send_cipher s) (build_nonce (send_nonce s)) [] ct = Some m"
      "linked a n1 (fs @ [chat_frame (send_nonce s) ct])"
      "peer_states n1 a = Some (Secure (s\<lparr>send_nonce := send_nonce s + 1\<rparr>))" by metis
  have "unat (send_nonce s + 1) + length ms \<le> 2 ^ 48" using Cons.prems(4) unat_next [of "send_nonce s"] by simp
  with Cons.prems(5) obtain gs n' where
    2: "node_run E (map (\<lambda>m. Command now rnd order (CmdSendMessage a m)) ms) n1 = Some (Inr n')"
      "linked a n' ((fs @ [chat_frame (send_nonce s) ct]) @ gs)" "carry (env_aead E) (send_cipher s) (send_nonce s + 1) ms gs"
    using Cons.IH [OF _ 1(4,3)] by auto
  show ?case
    using Cons.prems(1) [of n' "chat_frame (send_nonce s) ct # gs"] 1(1,2) 2 by (auto simp: then_step_def)
qed

lemma receive_all_ok:
  assumes "peer_states n a = Some (Secure s)" "represents (replay_window s) H" "max_nonce (replay_window s) < i"
    and "carry (env_aead E) (recv_cipher s) i ms gs" "\<forall>m \<in> set ms. utf8_valid m" "unat i + length ms \<le> 2 ^ 48"
  obtains n' where "node_run E (map (\<lambda>f. Event now rnd (FrameReceived a (seal crc f))) gs) n = Some (Inr n')"
    "api_events n' = api_events n @ map (MessageReceived a) ms" "nd_tcp n' = nd_tcp n"
  using assms
proof (induction ms arbitrary: n s H i gs thesis)
  case Nil
  then have "gs = []" by (cases gs) simp_all
  then show ?case using Nil(1) [of n] by (simp add: ret_def)
next
  case (Cons m ms)
  obtain ct gs' where gs: "gs = chat_frame i ct # gs'" "aead_decrypt (env_aead E) (recv_cipher s) (build_nonce i) [] ct = Some m"
      "carry (env_aead E) (recv_cipher s) (i + 1) ms gs'"
    using Cons.prems(5) by (cases gs) auto
  have "utf8_valid m" using Cons.prems(6) by simp
  from receive_chat_ok [OF Cons.prems(2,3,4) gs(2) this] obtain n1 s1 where
    n1: "on_event E now rnd (FrameReceived a (chat_frame i ct)) n = Some (Inr n1)"
      "api_events n1 = api_events n @ [MessageReceived a m]" "peer_states n1 a = Some (Secure s1)"
      "recv_cipher s1 = recv_cipher s" "represents (replay_window s1) (insert i H)" "max_nonce (replay_window s1) = i"
      "nd_tcp n1 = nd_tcp n"
    by metis
  have i: "unat (i + 1) = Suc (unat i)" using unat_next [of i] Cons.prems(7) by simp
  then have "i < i + 1" by (simp add: word_less_nat_alt)
  then have "max_nonce (replay_window s1) < i + 1" using n1(6) by simp
  then obtain n' where "node_run E (map (\<lambda>f. Event now rnd (FrameReceived a (seal crc f))) gs') n1 = Some (Inr n')"
    "api_events n' = api_events n1 @ map (MessageReceived a) ms" "nd_tcp n' = nd_tcp n1"
    using Cons.IH [OF _ n1(3,5), where i = "i + 1" and gs = gs'] gs(3) n1(4) i Cons.prems(6,7) by auto
  then show ?case using Cons.prems(1) [of n'] n1 gs(1) by (simp add: then_step_def)
qed

subsection \<open>Connecting\<close>

abbreviation hello_frame :: "byte list \<Rightarrow> Frame" where
  "hello_frame m \<equiv> Frame_new Handshake Flags_empty 0 m"

lemma handshake_type [simp]: "msg_type (header (hello_frame m)) = Handshake" "payload (hello_frame m) = m"
  by (simp_all add: Frame_new_def)

lemma connect_ok_linked:
  assumes "connect_ok E b" "pool_len (tcp_pool (nd_tcp n)) < max_connections (tcp_pool (nd_tcp n))"
    and "create_message1 (env_crypto E) rnd (new_initiator (env_crypto E) (nd_identity n)) = (Inr m1, hs)"
  obtains n' where "on_command E now rnd order (CmdConnect b) n = Some (Inr n')" "linked b n' [hello_frame m1]"
    "peer_states n' b = Some (InitiatorWaitMsg2 hs)" "nd_identity n' = nd_identity n" "api_events n' = api_events n"
proof -
  obtain p where p: "pool_insert now b (tcp_pool (nd_tcp n)) = (Inr (), p)"
    using pool_insert_ok [OF assms(2), of now b] by (metis prod.collapse)
  define t where "t = spawn_connection b ((nd_tcp n)\<lparr>tcp_pool := p\<rparr>)"
  have conn: "tcp_connect now (connect_ok E b) b (nd_tcp n) = (Inr (), t)" using assms(1) p by (simp add: tcp_connect_def t_def)
  have "linked b (n\<lparr>nd_tcp := t\<rparr>) []" by (simp add: t_def linked_spawn)
  note send = linked_tcp_send [OF this, of now "hello_frame m1"]
  obtain t' where t': "tcp_send_to now b (hello_frame m1) t = (Inr (), t')" using send(1) by (cases "tcp_send_to now b (hello_frame m1) t") simp
  have "connect_to E now rnd b n = set_peer b (InitiatorWaitMsg2 hs) (n\<lparr>nd_tcp := t'\<rparr>)"
    using conn assms(3) t' by (simp add: connect_to_def)
  then show thesis
    using that [of "set_peer b (InitiatorWaitMsg2 hs) (n\<lparr>nd_tcp := t'\<rparr>)"] send(2) t' by (simp add: on_command_def ret_def)
qed

lemma accept_linked:
  assumes "pool_len (tcp_pool (nd_tcp n)) < max_connections (tcp_pool (nd_tcp n))"
  shows "linked c (n\<lparr>nd_tcp := tcp_accept now c (nd_tcp n)\<rparr>) []"
proof -
  obtain p where "pool_insert now c (tcp_pool (nd_tcp n)) = (Inr (), p)"
    using pool_insert_ok [OF assms, of now c] by (metis prod.collapse)
  then show ?thesis by (simp add: tcp_accept_def linked_spawn)
qed

text \<open>The three turns of the handshake in the event loops.\<close>

lemma responder_answers:
  assumes "peer_states n c = Some (ResponderWaitMsg1 hs)" "linked c n fs"
    and "process_message1_create_message2 (env_crypto E) (env_aead E) rnd m1 hs = (Inr m2, hs')"
  obtains n' where "on_event E now rnd (FrameReceived c (hello_frame m1)) n = Some (Inr n')"
    "linked c n' (fs @ [hello_frame m2])" "peer_states n' c = Some (ResponderWaitMsg3 hs')"
    "nd_identity n' = nd_identity n" "api_events n' = api_events n"
proof
  let ?n = "set_peer c (ResponderWaitMsg3 hs') (send_to now c (hello_frame m2) (n\<lparr>peer_states := (peer_states n)(c := None)\<rparr>))"
  show "on_event E now rnd (FrameReceived c (hello_frame m1)) n = Some (Inr ?n)"
    using assms(1,3) by (simp add: on_event_def on_frame_def on_handshake_def ret_def)
  show "linked c ?n (fs @ [hello_frame m2])" using linked_send_to assms(2) by simp
qed simp_all

lemma initiator_finishes:
  assumes "noise_laws (env_crypto E) (env_aead E)" "length (as_bytes (peer_id (nd_identity n))) = 32"
    and "peer_states n b = Some (InitiatorWaitMsg2 hs)" "linked b n fs"
    and "process_message2_create_message3 (env_crypto E) (env_aead E) m2 hs = (Inr m3, hs')"
    and "hs_state hs' = Complete k k' r" "length k = 32" "length k' = 32"
  obtains n' ping where "on_event E now rnd (FrameReceived b (hello_frame m2)) n = Some (Inr n')"
    "msg_type (header ping) = Ping" "linked b n' (fs @ [hello_frame m3, ping])"
    "peer_states n' b = Some (Secure (opened k k' r))"
proof -
  let ?n = "send_to now b (hello_frame m3) (n\<lparr>peer_states := (peer_states n)(b := None)\<rparr>)"
  have "linked b ?n (fs @ [hello_frame m3])" using linked_send_to assms(4) by simp
  from open_session_ok [where now = now, OF assms(1) _ assms(6-8) this] assms(2) obtain n' ping where
    "open_session E now b hs' ?n = Some (Inr n')" "msg_type (header ping) = Ping"
    "linked b n' ((fs @ [hello_frame m3]) @ [ping])" "peer_states n' b = Some (Secure (opened k k' r))" by auto
  with that show thesis
    using assms(3,5) by (simp add: on_event_def on_frame_def on_handshake_def)
qed

lemma responder_finishes:
  assumes "noise_laws (env_crypto E) (env_aead E)" "length (as_bytes (peer_id (nd_identity n))) = 32"
    and "peer_states n c = Some (ResponderWaitMsg3 hs)" "linked c n fs"
    and "process_message3 (env_crypto E) (env_aead E) m3 hs = (Inr (), hs')"
    and "hs_state hs' = Complete k k' r" "length k = 32" "length k' = 32"
  obtains n' ping where "on_event E now rnd (FrameReceived c (hello_frame m3)) n = Some (Inr n')"
    "msg_type (header ping) = Ping" "linked c n' (fs @ [ping])"
    "peer_states n' c = Some (Secure (opened k k' r))" "api_events n' = api_events n"
proof -
  let ?n = "n\<lparr>peer_states := (peer_states n)(c := None)\<rparr>"
  have "linked c ?n fs" using assms(4) by simp
  from open_session_ok [where now = now, OF assms(1) _ assms(6-8) this] assms(2) obtain n' ping where
    "open_session E now c hs' ?n = Some (Inr n')" "msg_type (header ping) = Ping"
    "linked c n' (fs @ [ping])" "peer_states n' c = Some (Secure (opened k k' r))" "api_events n' = api_events n" by auto
  with that show thesis
    using assms(3,5) by (simp add: on_event_def on_frame_def on_handshake_def)
qed

lemma initiator_run:
  assumes laws: "noise_laws (env_crypto E) (env_aead E)" and len: "length (as_bytes (peer_id (nd_identity A))) = 32"
    and room: "pool_len (tcp_pool (nd_tcp A)) < max_connections (tcp_pool (nd_tcp A))" and net: "connect_ok E b"
    and hs: "create_message1 (env_crypto E) ea (new_initiator (env_crypto E) (nd_identity A)) = (Inr m1, i1)"
      "process_message2_create_message3 (env_crypto E) (env_aead E) m2 i1 = (Inr m3, i2)"
    and keys: "hs_state i2 = Complete k k' r" "length k = 32" "length k' = 32"
    and ms: "\<forall>m \<in> set ms. can_seal (env_aead E) k m" "length ms < 2 ^ 48"
  obtains nA ping gs where
    "node_run E ([Command now ea [] (CmdConnect b), Event now [] (Connected b),
        Event now [] (FrameReceived b (seal crc (hello_frame m2)))] @
      map (\<lambda>m. Command now [] [] (CmdSendMessage b m)) ms) A = Some (Inr nA)"
    "linked b nA ([hello_frame m1, hello_frame m3, ping] @ gs)" "msg_type (header ping) = Ping"
    "carry (env_aead E) k 1 ms gs"
proof -
  obtain A1 where A1: "on_command E now ea [] (CmdConnect b) A = Some (Inr A1)" "linked b A1 [hello_frame m1]"
    "peer_states A1 b = Some (InitiatorWaitMsg2 i1)" "nd_identity A1 = nd_identity A" "api_events A1 = api_events A"
    by (rule connect_ok_linked [OF net room hs(1)])
  define A2 where "A2 = A1\<lparr>api_events := api_events A1 @ [PeerConnected b]\<rparr>"
  have A2: "on_event E now [] (Connected b) A1 = Some (Inr A2)" "linked b A2 [hello_frame m1]"
    "peer_states A2 b = Some (InitiatorWaitMsg2 i1)" "length (as_bytes (peer_id (nd_identity A2))) = 32"
    using A1 len by (simp_all add: on_event_def A2_def ret_def Let_def)
  obtain A3 ping where A3: "on_event E now [] (FrameReceived b (hello_frame m2)) A2 = Some (Inr A3)"
    "msg_type (header ping) = Ping" "linked b A3 ([hello_frame m1] @ [hello_frame m3, ping])"
    "peer_states A3 b = Some (Secure (opened k k' r))"
    by (rule initiator_finishes [OF laws A2(4,3,2) hs(2) keys])
  have "unat (send_nonce (opened k k' r)) + length ms \<le> 2 ^ 48"
    "\<forall>m \<in> set ms. can_seal (env_aead E) (send_cipher (opened k k' r)) m" using ms by (simp_all add: opened_def)
  then obtain gs nA where nA: "node_run E (map (\<lambda>m. Command now [] [] (CmdSendMessage b m)) ms) A3 = Some (Inr nA)"
    "linked b nA (([hello_frame m1] @ [hello_frame m3, ping]) @ gs)"
    "carry (env_aead E) (send_cipher (opened k k' r)) (send_nonce (opened k k' r)) ms gs"
    by (rule send_all_ok [OF A3(4,3)])
  show thesis
    using that [of nA ping gs] A1(1) A2(1) A3(1,2) nA by (simp add: then_step_def opened_def)
qed

lemma responder_run:
  assumes laws: "noise_laws (env_crypto E) (env_aead E)" and len: "length (as_bytes (peer_id (nd_identity B))) = 32"
    and room: "pool_len (tcp_pool (nd_tcp B)) < max_connections (tcp_pool (nd_tcp B))" and new: "peer_states B c = None"
    and hs: "process_message1_create_message2 (env_crypto E) (env_aead E) eb m1 (new_responder (env_crypto E) (nd_identity B)) = (Inr m2, p1)"
      "process_message3 (env_crypto E) (env_aead E) m3 p1 = (Inr (), p2)"
    and keys: "hs_state p2 = Complete k' k r" "length k' = 32" "length k = 32"
    and gs: "carry (env_aead E) k 1 ms gs" "\<forall>m \<in> set ms. utf8_valid m" "length ms < 2 ^ 48"
  obtains nB ping where
    "node_run E ([Accept now c, Event now [] (Connected c), Event now eb (FrameReceived c (seal crc (hello_frame m1))),
        Event now [] (FrameReceived c (seal crc (hello_frame m3)))] @
      map (\<lambda>f. Event now [] (FrameReceived c (seal crc f))) gs) B = Some (Inr nB)"
    "linked c nB [hello_frame m2, ping]" "msg_type (header ping) = Ping"
    "api_events nB = api_events B @ PeerConnected c # map (MessageReceived c) ms"
proof -
  define B1 where "B1 = B\<lparr>nd_tcp := tcp_accept now c (nd_tcp B)\<rparr>"
  define B2 where "B2 = set_peer c (ResponderWaitMsg1 (new_responder (env_crypto E) (nd_identity B)))
    (B1\<lparr>api_events := api_events B @ [PeerConnected c]\<rparr>)"
  have B2: "node_do E (Accept now c) B = Some (Inr B1)" "on_event E now [] (Connected c) B1 = Some (Inr B2)" "linked c B2 []"
    "peer_states B2 c = Some (ResponderWaitMsg1 (new_responder (env_crypto E) (nd_identity B)))"
    "nd_identity B2 = nd_identity B" "api_events B2 = api_events B @ [PeerConnected c]"
    using new accept_linked [OF room, of c now] by (simp_all add: B1_def B2_def ret_def on_event_def Let_def)
  obtain B3 where B3: "on_event E now eb (FrameReceived c (hello_frame m1)) B2 = Some (Inr B3)"
    "linked c B3 ([] @ [hello_frame m2])" "peer_states B3 c = Some (ResponderWaitMsg3 p1)"
    "nd_identity B3 = nd_identity B2" "api_events B3 = api_events B2"
    by (rule responder_answers [OF B2(4,3) hs(1)])
  have len3: "length (as_bytes (peer_id (nd_identity B3))) = 32" using len B3(4) B2(5) by simp
  obtain B4 ping where B4: "on_event E now [] (FrameReceived c (hello_frame m3)) B3 = Some (Inr B4)"
    "msg_type (header ping) = Ping" "linked c B4 (([] @ [hello_frame m2]) @ [ping])"
    "peer_states B4 c = Some (Secure (opened k' k r))" "api_events B4 = api_events B3"
    by (rule responder_finishes [OF laws len3 B3(3,2) hs(2) keys])
  have s: "represents (replay_window (opened k' k r)) {}" "max_nonce (replay_window (opened k' k r)) < 1"
    "carry (env_aead E) (recv_cipher (opened k' k r)) 1 ms gs" "unat (1 :: u64) + length ms \<le> 2 ^ 48"
    using represents_new gs(1,3) by (simp_all add: opened_def ReplayWindow_new_def)
  obtain nB where nB: "node_run E (map (\<lambda>f. Event now [] (FrameReceived c (seal crc f))) gs) B4 = Some (Inr nB)"
    "api_events nB = api_events B4 @ map (MessageReceived c) ms" "nd_tcp nB = nd_tcp B4"
    by (rule receive_all_ok [OF B4(4) s(1-3) gs(2) s(4)])
  have "linked c nB [hello_frame m2, ping]" using B4(3) nB(3) by (simp add: linked_def)
  then show thesis
    using that [of nB ping] B2(1,2,6) B3(1,5) B4(1,2,5) nB(1,2) by (simp add: then_step_def)
qed

subsection \<open>A conversation\<close>

text \<open>C1. Two nodes end to end.  Node \<open>A\<close> is told through its API to connect to \<open>b\<close>, where node \<open>B\<close>
  listens and sees it as \<open>c\<close>, and then to send the messages \<open>ms\<close>.  With room in both pools, the frames \<open>A\<close>
  queues for \<open>B\<close> are two handshake frames, a ping and one frame per message; \<open>B\<close> queues one handshake frame
  and a ping; and when each gets the frames of the other, less the pings, which the transport keeps, neither
  fails, and \<open>B\<close> reports to its API exactly the messages, in order.\<close>

theorem secure_chat:
  assumes laws: "noise_laws (env_crypto E) (env_aead E)"
    and ids: "nd_identity A = Identity_generate (env_crypto E) ed_a x_a" "nd_identity B = Identity_generate (env_crypto E) ed_b x_b"
    and room: "pool_len (tcp_pool (nd_tcp A)) < max_connections (tcp_pool (nd_tcp A))"
      "pool_len (tcp_pool (nd_tcp B)) < max_connections (tcp_pool (nd_tcp B))"
    and net: "connect_ok E b" "peer_states B c = None"
    and ms: "\<forall>m \<in> set ms. utf8_valid m \<and> (\<forall>k. length k = 32 \<longrightarrow> can_seal (env_aead E) k m)" "length ms < 2 ^ 48"
  shows "\<exists>hello answer finish ping ping' gs nA nB.
    node_run E ([Command now ea [] (CmdConnect b), Event now [] (Connected b),
        Event now [] (FrameReceived b (seal crc answer))] @
      map (\<lambda>m. Command now [] [] (CmdSendMessage b m)) ms) A = Some (Inr nA) \<and>
    linked b nA ([hello, finish, ping] @ gs) \<and> msg_type (header ping) = Ping \<and>
    node_run E ([Accept now c, Event now [] (Connected c), Event now eb (FrameReceived c (seal crc hello)),
        Event now [] (FrameReceived c (seal crc finish))] @
      map (\<lambda>f. Event now [] (FrameReceived c (seal crc f))) gs) B = Some (Inr nB) \<and>
    linked c nB [answer, ping'] \<and> msg_type (header ping') = Ping \<and>
    api_events nB = api_events B @ PeerConnected c # map (MessageReceived c) ms"
proof -
  have len: "length (as_bytes (peer_id (nd_identity A))) = 32" "length (as_bytes (peer_id (nd_identity B))) = 32"
    using laws by (simp_all add: ids Identity_generate_def from_public_key_def noise_laws_def Let_def)
  obtain m1 i1 m2 p1 m3 i2 p2 k k' where hs:
    "create_message1 (env_crypto E) ea (new_initiator (env_crypto E) (nd_identity A)) = (Inr m1, i1)"
    "process_message1_create_message2 (env_crypto E) (env_aead E) eb m1 (new_responder (env_crypto E) (nd_identity B)) = (Inr m2, p1)"
    "process_message2_create_message3 (env_crypto E) (env_aead E) m2 i1 = (Inr m3, i2)"
    "process_message3 (env_crypto E) (env_aead E) m3 p1 = (Inr (), p2)"
    and keys: "hs_state i2 = Complete k k' (x25519_public_key (nd_identity B))"
    "hs_state p2 = Complete k' k (x25519_public_key (nd_identity A))" "length k = 32" "length k' = 32"
    by (rule run_handshake_steps [OF laws ids])
  have seal: "\<forall>m \<in> set ms. can_seal (env_aead E) k m" and utf: "\<forall>m \<in> set ms. utf8_valid m" using ms(1) keys(3) by auto
  obtain nA ping gs where A: "node_run E ([Command now ea [] (CmdConnect b), Event now [] (Connected b),
        Event now [] (FrameReceived b (seal crc (hello_frame m2)))] @
      map (\<lambda>m. Command now [] [] (CmdSendMessage b m)) ms) A = Some (Inr nA)"
    "linked b nA ([hello_frame m1, hello_frame m3, ping] @ gs)" "msg_type (header ping) = Ping"
    "carry (env_aead E) k 1 ms gs"
    by (rule initiator_run [OF laws len(1) room(1) net(1) hs(1,3) keys(1,3,4) seal ms(2)])
  obtain nB ping' where "node_run E ([Accept now c, Event now [] (Connected c),
        Event now eb (FrameReceived c (seal crc (hello_frame m1))), Event now [] (FrameReceived c (seal crc (hello_frame m3)))] @
      map (\<lambda>f. Event now [] (FrameReceived c (seal crc f))) gs) B = Some (Inr nB)"
    "linked c nB [hello_frame m2, ping']" "msg_type (header ping') = Ping"
    "api_events nB = api_events B @ PeerConnected c # map (MessageReceived c) ms"
    by (rule responder_run [OF laws len(2) room(2) net(2) hs(2,4) keys(2,4,3) A(4) utf ms(2)])
  with A(1-3) show ?thesis by blast
qed

definition example_other :: Node where
  "example_other = node_init 0 (Identity_generate toy_crypto (replicate 32 3) (replicate 32 4)) example_addr 4 Map.empty"

theorem secure_chat_witness:
  "let b = SockV4 [10, 0, 0, 2] 9741; c = SockV4 [10, 0, 0, 1] 50000
   in \<exists>hello answer finish ping gs nA nB.
     node_run example_env ([Command 0 [5] [] (CmdConnect b), Event 0 [] (Connected b),
         Event 0 [] (FrameReceived b (seal sum_crc answer))] @
       map (\<lambda>m. Command 0 [] [] (CmdSendMessage b m)) [[104, 105], [111, 107]]) example_node = Some (Inr nA) \<and>
     linked b nA ([hello, finish, ping] @ gs) \<and>
     node_run example_env ([Accept 0 c, Event 0 [] (Connected c), Event 0 [6] (FrameReceived c (seal sum_crc hello)),
         Event 0 [] (FrameReceived c (seal sum_crc finish))] @
       map (\<lambda>f. Event 0 [] (FrameReceived c (seal sum_crc f))) gs) example_other = Some (Inr nB) \<and>
     api_events nB = [PeerConnected c, MessageReceived c [104, 105], MessageReceived c [111, 107]]"
proof -
  let ?b = "SockV4 [10, 0, 0, 2] 9741" and ?c = "SockV4 [10, 0, 0, 1] 50000"
  have env: "noise_laws (env_crypto example_env) (env_aead example_env)" "connect_ok example_env ?b"
    using noise_laws_toy by (simp_all add: example_env_def)
  have node: "nd_identity example_node = Identity_generate (env_crypto example_env) (replicate 32 1) (replicate 32 2)"
    "nd_identity example_other = Identity_generate (env_crypto example_env) (replicate 32 3) (replicate 32 4)"
    "pool_len (tcp_pool (nd_tcp example_node)) < max_connections (tcp_pool (nd_tcp example_node))"
    "pool_len (tcp_pool (nd_tcp example_other)) < max_connections (tcp_pool (nd_tcp example_other))"
    "peer_states example_other ?c = None"
    by (simp_all add: example_env_def example_node_def example_other_def node_init_def TcpTransport_bind_def
        ConnectionPool_new_def pool_len_def)
  have ms: "\<forall>m \<in> set [[104, 105], [111, 107]]. utf8_valid m \<and> (\<forall>k. length k = 32 \<longrightarrow> can_seal (env_aead example_env) k m)"
    by (simp add: example_env_def can_seal_def)
  have "api_events example_other @ PeerConnected ?c # map (MessageReceived ?c) [[104, 105], [111, 107]] =
      [PeerConnected ?c, MessageReceived ?c [104, 105], MessageReceived ?c [111, 107]]"
    by (simp add: example_other_def node_init_def)
  with secure_chat [OF env(1) node(1-4) env(2) node(5) ms, of 0 "[5]" sum_crc "[6]"] show ?thesis
    unfolding Let_def by (simp del: append.simps list.map) blast
qed

end
