(* ===== verification/Node_Transfer.thy ===== *)
theory Node_Transfer
  imports Node_Chat
begin

text \<open>
  A file transfer between two nodes, through their event loops, sessions and transfer managers: how far it
  gets, and where it stops.
\<close>

lemma Some_then [simp]: "then_step (Some (Inr n)) f = f n"
  by (simp add: then_step_def)

subsection \<open>Frames under a session\<close>

definition secure_frame :: "MessageType \<Rightarrow> u64 \<Rightarrow> byte list \<Rightarrow> Frame" where
  "secure_frame mt i ct = Frame_new mt (with_encrypted Flags_empty) i ct"

lemma secure_frame_simps [simp]:
  "msg_type (header (secure_frame mt i ct)) = mt" "request_id (header (secure_frame mt i ct)) = i"
  "is_encrypted (flags (header (secure_frame mt i ct)))" "payload (secure_frame mt i ct) = ct"
  by (simp_all add: secure_frame_def Frame_new_def is_encrypted_def with_encrypted_def Flags_empty_def FLAG_ENCRYPTED_def)

text \<open>\<open>ready a k k' i j n\<close>: node \<open>n\<close> has a session with \<open>a\<close> that sends under \<open>k\<close>, next with nonce \<open>i\<close>,
  receives under \<open>k'\<close>, and has seen only nonces below \<open>j\<close>.\<close>

definition ready :: "SocketAddr \<Rightarrow> byte list \<Rightarrow> byte list \<Rightarrow> u64 \<Rightarrow> u64 \<Rightarrow> Node \<Rightarrow> bool" where
  "ready a k k' i j n \<longleftrightarrow> (\<exists>s H. peer_states n a = Some (Secure s) \<and> send_cipher s = k \<and> recv_cipher s = k' \<and>
     send_nonce s = i \<and> represents (replay_window s) H \<and> max_nonce (replay_window s) < j)"

lemma ready_frame [simp]:
  "ready a k k' i j (n\<lparr>transfer_manager := tm\<rparr>) = ready a k k' i j n"
  "ready a k k' i j (n\<lparr>api_events := evs\<rparr>) = ready a k k' i j n"
  "ready a k k' i j (send_to now b f n) = ready a k k' i j n"
  "linked a (n\<lparr>transfer_manager := tm\<rparr>) fs = linked a n fs"
  by (simp_all add: ready_def linked_def send_to_def)

lemma ready_known: "ready a k k' i j n \<Longrightarrow> peer_states n a \<noteq> None"
  by (auto simp: ready_def)

text \<open>The frames of the transfer manager that hold the messages \<open>ms\<close>, and the frames that carry them.\<close>

definition queued :: "SocketAddr \<Rightarrow> (MessageType \<times> byte list) list \<Rightarrow> (SocketAddr \<times> Frame) list" where
  "queued a ms = map (\<lambda>(mt, m). (a, Frame_new mt Flags_empty 0 m)) ms"

fun carries :: "aead_impl \<Rightarrow> byte list \<Rightarrow> u64 \<Rightarrow> (MessageType \<times> byte list) list \<Rightarrow> Frame list \<Rightarrow> bool" where
  "carries ae k i [] [] = True"
| "carries ae k i ((mt, m) # ms) (f # fs) =
     ((\<exists>ct. f = secure_frame mt i ct \<and> aead_decrypt ae k (build_nonce i) [] ct = Some m) \<and> carries ae k (i + 1) ms fs)"
| "carries ae k i _ _ = False"

lemma carries_length: "carries ae k i ms gs \<Longrightarrow> length gs = length ms"
  by (induction ae k i ms gs rule: carries.induct) auto

lemma send_secure_ok:
  assumes "ready a k k' i j n" "linked a n fs" "unat i < 2 ^ 48" "can_seal (env_aead E) k m"
  obtains ct where "aead_decrypt (env_aead E) k (build_nonce i) [] ct = Some m"
    "linked a (send_secure E now a mt m n) (fs @ [secure_frame mt i ct])" "ready a k k' (i + 1) j (send_secure E now a mt m n)"
    "send_secure E now a mt m n = n\<lparr>peer_states := peer_states (send_secure E now a mt m n), nd_tcp := nd_tcp (send_secure E now a mt m n)\<rparr>"
proof -
  obtain s H where s: "peer_states n a = Some (Secure s)" "send_cipher s = k" "recv_cipher s = k'" "send_nonce s = i"
    "represents (replay_window s) H" "max_nonce (replay_window s) < j" using assms(1) by (auto simp: ready_def)
  obtain ct where ct: "aead_encrypt (env_aead E) k (build_nonce i) [] m = Some ct"
    "aead_decrypt (env_aead E) k (build_nonce i) [] ct = Some m"
    using assms(4) unfolding can_seal_def by blast
  let ?s = "s\<lparr>send_nonce := i + 1\<rparr>"
  have "i \<le> MAX_NONCE" using assms(3) by (simp add: MAX_NONCE_def word_le_nat_alt)
  then have "encrypt (env_aead E) s m = (Inr (i, ct), ?s)" using ct(1) s by (simp add: encrypt_def Let_def)
  then have send: "send_secure E now a mt m n = send_to now a (secure_frame mt i ct) (set_peer a (Secure ?s) n)"
    using s(1) by (simp add: send_secure_def secure_frame_def)
  show thesis
  proof (rule that [OF ct(2)])
    show "linked a (send_secure E now a mt m n) (fs @ [secure_frame mt i ct])"
      unfolding send using linked_send_to assms(2) by simp
    show "ready a k k' (i + 1) j (send_secure E now a mt m n)" unfolding send using s by (auto simp: ready_def set_peer_def)
    show "send_secure E now a mt m n = n\<lparr>peer_states := peer_states (send_secure E now a mt m n), nd_tcp := nd_tcp (send_secure E now a mt m n)\<rparr>"
      by (simp add: send send_to_def set_peer_def)
  qed
qed

lemma emit_one:
  assumes "ready a k k' i j n" "linked a n fs" "unat i < 2 ^ 48" "can_seal (env_aead E) k m"
    and tx: "frame_tx (transfer_manager n) = (a, Frame_new mt Flags_empty 0 m) # rest"
  obtains n' ct where "on_transfer_frame E now n = Some (Inr n')" "ready a k k' (i + 1) j n'"
    "linked a n' (fs @ [secure_frame mt i ct])" "aead_decrypt (env_aead E) k (build_nonce i) [] ct = Some m"
    "transfer_manager n' = (transfer_manager n)\<lparr>frame_tx := rest\<rparr>" "api_events n' = api_events n"
proof -
  let ?n = "n\<lparr>transfer_manager := (transfer_manager n)\<lparr>frame_tx := rest\<rparr>\<rparr>"
  have n: "ready a k k' i j ?n" "linked a ?n fs" using assms(1,2) by simp_all
  obtain ct where ct: "aead_decrypt (env_aead E) k (build_nonce i) [] ct = Some m"
    "linked a (send_secure E now a mt m ?n) (fs @ [secure_frame mt i ct])" "ready a k k' (i + 1) j (send_secure E now a mt m ?n)"
    "send_secure E now a mt m ?n = ?n\<lparr>peer_states := peer_states (send_secure E now a mt m ?n), nd_tcp := nd_tcp (send_secure E now a mt m ?n)\<rparr>"
    by (rule send_secure_ok [OF n assms(3,4)])
  have "on_transfer_frame E now n = Some (Inr (send_secure E now a mt m ?n))"
    by (simp add: on_transfer_frame_def tx ret_def Frame_new_def)
  moreover have "transfer_manager (send_secure E now a mt m ?n) = (transfer_manager n)\<lparr>frame_tx := rest\<rparr>"
    "api_events (send_secure E now a mt m ?n) = api_events n" by (subst ct(4), simp)+
  ultimately show thesis using that ct(1-3) by simp
qed

lemma emit_all:
  assumes "ready a k k' i j n" "linked a n fs" "unat i + length ms \<le> 2 ^ 48"
    and "\<forall>(mt, m) \<in> set ms. can_seal (env_aead E) k m"
    and "frame_tx (transfer_manager n) = queued a ms @ rest"
  obtains n' gs where "node_run E (replicate (length ms) (TransferFrame now)) n = Some (Inr n')"
    "ready a k k' (i + of_nat (length ms)) j n'" "linked a n' (fs @ gs)" "carries (env_aead E) k i ms gs"
    "transfer_manager n' = (transfer_manager n)\<lparr>frame_tx := rest\<rparr>" "api_events n' = api_events n"
  using assms
proof (induction ms arbitrary: n i fs thesis)
  case Nil
  show ?case using Nil(1) [of n "[]"] Nil(2,3,6) by (simp add: ret_def queued_def)
next
  case (Cons q ms)
  obtain mt m where q: "q = (mt, m)" by (cases q)
  have i: "unat i < 2 ^ 48" "unat (i + 1) = Suc (unat i)" using Cons.prems(4) unat_next [of i] by simp_all
  have m: "can_seal (env_aead E) k m" using Cons.prems(5) by (auto simp: q)
  have tx: "frame_tx (transfer_manager n) = (a, Frame_new mt Flags_empty 0 m) # (queued a ms @ rest)"
    using Cons.prems(6) by (simp add: q queued_def)
  obtain n1 ct where n1: "on_transfer_frame E now n = Some (Inr n1)" "ready a k k' (i + 1) j n1"
    "linked a n1 (fs @ [secure_frame mt i ct])" "aead_decrypt (env_aead E) k (build_nonce i) [] ct = Some m"
    "transfer_manager n1 = (transfer_manager n)\<lparr>frame_tx := queued a ms @ rest\<rparr>" "api_events n1 = api_events n"
    by (rule emit_one [OF Cons.prems(2,3) i(1) m tx])
  have len: "unat (i + 1) + length ms \<le> 2 ^ 48" using Cons.prems(4) i(2) by simp
  have seals: "\<forall>(mt, m) \<in> set ms. can_seal (env_aead E) k m" using Cons.prems(5) by simp
  have tx1: "frame_tx (transfer_manager n1) = queued a ms @ rest" using n1(5) by simp
  obtain n' gs where n': "node_run E (replicate (length ms) (TransferFrame now)) n1 = Some (Inr n')"
    "ready a k k' (i + 1 + of_nat (length ms)) j n'" "linked a n' ((fs @ [secure_frame mt i ct]) @ gs)"
    "carries (env_aead E) k (i + 1) ms gs"
    "transfer_manager n' = (transfer_manager n1)\<lparr>frame_tx := rest\<rparr>" "api_events n' = api_events n1"
    by (rule Cons.IH [OF _ n1(2,3) len seals tx1])
  show ?case
    using Cons.prems(1) [of n' "secure_frame mt i ct # gs"] n1 n' by (auto simp: q then_step_def add.assoc)
qed

lemma accept_secure:
  assumes "ready a k k' i j n" "aead_decrypt (env_aead E) k' (build_nonce j) [] ct = Some m" "unat j < 2 ^ 48"
    and "mt \<noteq> Handshake"
  obtains st where "on_event E now rnd (FrameReceived a (secure_frame mt j ct)) n = on_secure_frame E now a mt m (set_peer a st n)"
    "ready a k k' i (j + 1) (set_peer a st n)"
proof -
  obtain s H where s: "peer_states n a = Some (Secure s)" "send_cipher s = k" "recv_cipher s = k'" "send_nonce s = i"
    "represents (replay_window s) H" "max_nonce (replay_window s) < j" using assms(1) by (auto simp: ready_def)
  obtain b w where c: "check_and_mark (replay_window s) j = (b, w)" by (cases "check_and_mark (replay_window s) j")
  have new: b "represents w (insert j H)" "max_nonce w = j" using check_and_mark_new [OF s(5,6)] c by simp_all
  let ?s = "s\<lparr>replay_window := w, recv_nonce_max := max (recv_nonce_max s) j\<rparr>"
  have "decrypt (env_aead E) s j ct = (Inr m, ?s)" using c new(1) assms(2) s(3) by (simp add: decrypt_def)
  then have "on_event E now rnd (FrameReceived a (secure_frame mt j ct)) n =
      on_secure_frame E now a mt m (set_peer a (Secure ?s) n)"
    using s(1) assms(4) by (simp add: on_event_def on_frame_def)
  moreover have "j < j + 1" using unat_next [of j] assms(3) by (simp add: word_less_nat_alt)
  then have "ready a k k' i (j + 1) (set_peer a (Secure ?s) n)"
    using s(2-4) new by (auto simp: ready_def set_peer_def)
  ultimately show thesis by (rule that)
qed

lemma accept_one:
  assumes "ready a k k' i j n" "aead_decrypt (env_aead E) k' (build_nonce j) [] ct = Some m" "unat j < 2 ^ 48"
    and "mt \<noteq> Handshake"
  obtains n1 where "on_event E now rnd (FrameReceived a (secure_frame mt j ct)) n = on_secure_frame E now a mt m n1"
    "ready a k k' i (j + 1) n1" "transfer_manager n1 = transfer_manager n" "api_events n1 = api_events n"
    "nd_tcp n1 = nd_tcp n"
proof -
  obtain st where st: "on_event E now rnd (FrameReceived a (secure_frame mt j ct)) n = on_secure_frame E now a mt m (set_peer a st n)"
    "ready a k k' i (j + 1) (set_peer a st n)" by (rule accept_secure [OF assms])
  then show thesis using that by (simp add: set_peer_def)
qed

text \<open>Frames whose messages only change the transfer manager, each by \<open>eff\<close>.\<close>

lemma accept_all:
  assumes "ready a k k' i j n" "carries (env_aead E) k' j ms gs" "unat j + length ms \<le> 2 ^ 48"
    and "\<And>mt m n. (mt, m) \<in> set ms \<Longrightarrow> mt \<noteq> Handshake \<and>
      on_secure_frame E now a mt m n = Some (Inr (n\<lparr>transfer_manager := eff (mt, m) (transfer_manager n)\<rparr>))"
  obtains n' where "node_run E (map (\<lambda>f. Event now [] (FrameReceived a (seal crc f))) gs) n = Some (Inr n')"
    "ready a k k' i (j + of_nat (length ms)) n'" "transfer_manager n' = fold eff ms (transfer_manager n)"
    "api_events n' = api_events n" "nd_tcp n' = nd_tcp n"
  using assms
proof (induction ms arbitrary: n j gs thesis)
  case Nil
  then have "gs = []" by (cases gs) simp_all
  then show ?case using Nil(1) [of n] Nil(2) by (simp add: ret_def)
next
  case (Cons q ms)
  obtain mt m where q: "q = (mt, m)" by (cases q)
  obtain ct gs' where gs: "gs = secure_frame mt j ct # gs'" "aead_decrypt (env_aead E) k' (build_nonce j) [] ct = Some m"
      "carries (env_aead E) k' (j + 1) ms gs'"
    using Cons.prems(3) by (cases gs) (auto simp: q)
  have j: "unat j < 2 ^ 48" "unat (j + 1) = Suc (unat j)" using Cons.prems(4) unat_next [of j] by simp_all
  have eff: "mt \<noteq> Handshake" "\<And>n. on_secure_frame E now a mt m n = Some (Inr (n\<lparr>transfer_manager := eff (mt, m) (transfer_manager n)\<rparr>))"
    using Cons.prems(5) q by auto
  obtain n0 where n0: "on_event E now [] (FrameReceived a (secure_frame mt j ct)) n = on_secure_frame E now a mt m n0"
    "ready a k k' i (j + 1) n0" "transfer_manager n0 = transfer_manager n" "api_events n0 = api_events n" "nd_tcp n0 = nd_tcp n"
    by (rule accept_one [OF Cons.prems(2) gs(2) j(1) eff(1)])
  let ?n = "n0\<lparr>transfer_manager := eff (mt, m) (transfer_manager n)\<rparr>"
  have r: "ready a k k' i (j + 1) ?n" using n0(2) by simp
  have len: "unat (j + 1) + length ms \<le> 2 ^ 48" using Cons.prems(4) j(2) by simp
  obtain n' where "node_run E (map (\<lambda>f. Event now [] (FrameReceived a (seal crc f))) gs') ?n = Some (Inr n')"
    "ready a k k' i (j + 1 + of_nat (length ms)) n'" "transfer_manager n' = fold eff ms (transfer_manager ?n)"
    "api_events n' = api_events ?n" "nd_tcp n' = nd_tcp ?n"
    by (rule Cons.IH [OF _ r gs(3) len]) (use Cons.prems(5) in auto)
  then show ?case
    using Cons.prems(1) [of n'] n0 gs(1) eff(2) [of n0] by (simp add: q then_step_def add.assoc)
qed

subsection \<open>What the transfer managers exchange\<close>

lemma offer_frame:
  assumes "tm_files tm path = Some f" "\<not> open_err os path" "\<not> read_err os path" "\<not> mmap_err os path"
    and "length (path_file_name path) \<le> 255" "cs \<noteq> 0"
  obtains offer where "FileOffer_new (TransferId ids) (path_file_name path) (of_nat (length f)) cs
      (calculate_file_hash C (short_read os) f cs) = Inr offer"
    "offer_file C os ids p path cs tm = (Inr (TransferId ids),
       tm\<lparr>active_transfers := (active_transfers tm)(TransferId ids \<mapsto> Sending (initial_sender p f cs)),
          frame_tx := frame_tx tm @ queued p [(FileOffer, FileOffer_encode offer)]\<rparr>)"
  using that assms
  by (simp add: offer_file_def FileOffer_new_def MAX_FILE_NAME_LEN_def Let_def set_transfer_def send_frame_def queued_def
      initial_sender_def)

lemma answer_frames:
  assumes "handle_offer os q offer tm = (Inr (), tm')"
  shows "frame_tx tm' = frame_tx tm @ queued q [(FileAccept, FileAccept_encode (FileAccept_new (fo_transfer_id offer)
      (replicate (bitmap_len (fo_total_chunks offer)) 0xFF))), (CreditUpdate, credit_payload (fo_transfer_id offer) 50)]"
    "\<exists>st. active_transfers tm' (fo_transfer_id offer) = Some (Receiving st) \<and> rs_peer st = q"
  using assms by (auto simp: handle_offer_def Let_def send_frame_def set_transfer_def queued_def split: if_splits)

text \<open>The sender after the acceptance and a credit of \<open>c\<close>.\<close>

definition chunk_messages :: "crypto_impl \<Rightarrow> TransferId \<Rightarrow> byte list \<Rightarrow> nat \<Rightarrow> nat \<Rightarrow> (MessageType \<times> byte list) list" where
  "chunk_messages C tid f cs n = map (\<lambda>i. (FileChunk, FileChunk_encode (sent_chunk C tid f cs i))) [0 ..< n]"

lemma sender_pumps:
  assumes st: "active_transfers tm tid = Some (Sending (initial_sender p f cs))" "cs \<noteq> 0" "length f < 2 ^ 32"
  obtains tm' tm'' st' where "handle_accept (FileAccept_new tid
      (replicate (bitmap_len (compute_total_chunks (of_nat (length f)) cs)) 0xFF)) tm = (Inr (), tm')"
    "frame_tx tm' = frame_tx tm"
    "handle_credit_update C tid c tm' = Some (Inr tm'')" "active_transfers tm'' tid = Some (Sending st')"
    "frame_tx tm'' = frame_tx tm @ queued p (chunk_messages C tid f (unat cs) (min (unat c) (chunk_count f (unat cs))))"
proof -
  let ?n = "chunk_count f (unat cs)" and ?st = "(initial_sender p f cs)\<lparr>ss_credits := c\<rparr>"
  let ?out = "queued p (chunk_messages C tid f (unat cs) (min (unat c) ?n))"
  let ?tm' = "set_transfer tid (Sending (initial_sender p f cs)) tm"
  have tot: "unat (compute_total_chunks (of_nat (length f)) cs) = ?n" by (rule total_chunks_small [OF st(3,2)])
  then have "fresh_sender ?st" using st(2,3) by (simp add: fresh_sender_def initial_sender_def Let_def)
  from pump_loop_sends [OF this, of C tid "[]"] obtain st' where
    pump: "pump_loop C tid ?st [] = Inr (st', ?out)"
    using tot by (auto simp: initial_sender_def Let_def queued_def chunk_messages_def chunk_frame_def comp_def)
  show thesis
  proof (rule that)
    show "handle_accept (FileAccept_new tid
      (replicate (bitmap_len (compute_total_chunks (of_nat (length f)) cs)) 0xFF)) tm = (Inr (), ?tm')"
      using st(1) by (simp add: handle_accept_def FileAccept_new_def initial_sender_def Let_def)
    show "handle_credit_update C tid c ?tm' = Some (Inr ((set_transfer tid (Sending st')
        (set_transfer tid (Sending ?st) ?tm'))\<lparr>frame_tx := frame_tx tm @ ?out\<rparr>))"
      using pump by (simp add: handle_credit_update_def pump_send_def set_transfer_def initial_sender_def Let_def)
  qed (simp_all add: set_transfer_def)
qed

text \<open>The receiver after the first \<open>m\<close> chunks.\<close>

lemma receive_prefix:
  assumes "receiving tm tid path f cs {}" "cs \<noteq> 0" "length f < 2 ^ 32" "m \<le> chunk_count f (unat cs)"
  shows "let tm' = receive_all C (map (sent_chunk C tid f (unat cs)) [0 ..< m]) tm
    in if m = chunk_count f (unat cs) then active_transfers tm' tid = None \<and> tm_files tm' path = Some f
       else receiving tm' tid path f cs {..< m}"
  using assms(4)
proof (induction m)
  case 0
  then show ?case using assms(1) by (auto simp: receive_all_def receiving_def)
next
  case (Suc m)
  then have m: "m < chunk_count f (unat cs)" "m \<notin> {..< m}" by auto
  have ins: "insert m {..< m} = {..< Suc m}" by auto
  have "receiving (receive_all C (map (sent_chunk C tid f (unat cs)) [0 ..< m]) tm) tid path f cs {..< m}"
    using Suc.IH m(1) by (simp add: Let_def)
  from receiving_step [OF this m assms(2,3), of C] show ?case
    by (simp add: Let_def ins receive_all_def split: if_splits)
qed

lemma handle_chunk_appends: "\<exists>xs. frame_tx (snd (handle_chunk C c tm)) = frame_tx tm @ xs"
  by (simp add: handle_chunk_def Let_def send_frame_def set_transfer_def split: option.splits TransferState.splits)

lemma receive_all_appends: "\<exists>xs. frame_tx (receive_all C cs tm) = frame_tx tm @ xs"
proof (induction cs arbitrary: tm)
  case (Cons c cs)
  from Cons.IH [of "snd (handle_chunk C c tm)"] handle_chunk_appends [of C c tm] show ?case
    by (auto simp: receive_all_def)
qed (simp add: receive_all_def)

lemma first_ack:
  assumes "receiving tm tid path f cs {}" "active_transfers tm tid = Some (Receiving st)" "cs \<noteq> 0" "length f < 2 ^ 32" "0 < m"
    "m \<le> chunk_count f (unat cs)"
  shows "\<exists>xs. frame_tx (receive_all C (map (sent_chunk C tid f (unat cs)) [0 ..< m]) tm) = frame_tx tm @
    queued (rs_peer st) [(FileChunkAck, FileChunkAck_encode \<lparr>ack_transfer_id = tid, ack_chunk_index = 0, ack_status = AckOk\<rparr>)] @ xs"
proof -
  let ?c = "sent_chunk C tid f (unat cs) 0"
  have "rs_map_len st = length f" using assms(1,2) by (auto simp: receiving_def)
  moreover have "0 < unat cs" using assms(3) by (simp add: unat_gt_0)
  then have "length (file_chunk f (unat cs) 0) \<le> length f" using chunk_fits [of 0 f "unat cs"] assms(5,6) by simp
  ultimately have "\<exists>xs. frame_tx (snd (handle_chunk C ?c tm)) = frame_tx tm @ queued (rs_peer st)
      [(FileChunkAck, FileChunkAck_encode \<lparr>ack_transfer_id = tid, ack_chunk_index = 0, ack_status = AckOk\<rparr>)] @ xs"
    using assms(2) by (simp add: handle_chunk_def Let_def sent_chunk_def send_frame_def set_transfer_def queued_def)
  moreover have "[0 ..< m] = 0 # [1 ..< m]" using assms(5) by (simp add: upt_conv_Cons)
  ultimately show ?thesis
    using receive_all_appends [of C "map (sent_chunk C tid f (unat cs)) [1 ..< m]" "snd (handle_chunk C ?c tm)"]
    by (auto simp: receive_all_def)
qed

subsection \<open>The two nodes, step by step\<close>

text \<open>An AEAD key under which every message below 4 GiB can be sealed and opened.\<close>

definition seals :: "node_env \<Rightarrow> byte list \<Rightarrow> bool" where
  "seals E k \<longleftrightarrow> (\<forall>m. length m < 2 ^ 32 \<longrightarrow> can_seal (env_aead E) k m)"

lemma bitmap_len_small: "bitmap_len n < 2 ^ 30"
  using unsigned_less [of n, where 'a = nat] by (simp add: bitmap_len_def)

lemma message_lengths:
  assumes "tid_ok tid"
  shows "FileOffer_new tid name fs cs h = Inr offer \<Longrightarrow> length h = 32 \<Longrightarrow> length (FileOffer_encode offer) < 2 ^ 32"
    "length (FileAccept_encode (FileAccept_new tid (replicate (bitmap_len n) 0xFF))) < 2 ^ 32"
    "length (credit_payload tid c) = 20"
    "length (sha256 C (file_chunk f 1000 i)) = 32 \<Longrightarrow> length (FileChunk_encode (sent_chunk C tid f 1000 i)) < 2 ^ 32"
    "length (FileChunkAck_encode \<lparr>ack_transfer_id = tid, ack_chunk_index = x, ack_status = AckOk\<rparr>) < 2 ^ 32"
  using assms bitmap_len_small [of n]
  by (auto simp: tid_ok_def TRANSFER_ID_LEN_def FileOffer_new_def FileOffer_encode_def FileAccept_encode_def FileAccept_new_def
      credit_payload_def FileChunk_encode_def sent_chunk_def hash_chunk_def file_chunk_def FileChunkAck_encode_def
      MAX_FILE_NAME_LEN_def split: if_splits)

definition io_ok :: "os_impl \<Rightarrow> bool" where
  "io_ok os \<longleftrightarrow> (\<forall>q. \<not> open_err os q \<and> \<not> read_err os q \<and> \<not> create_err os q \<and> \<not> mmap_err os q \<and> (\<forall>n. \<not> set_len_err os q n))"

text \<open>The offer of the file \<open>f\<close> at \<open>path\<close>.\<close>

definition offers :: "node_env \<Rightarrow> byte list \<Rightarrow> path \<Rightarrow> byte list \<Rightarrow> FileOffer \<Rightarrow> bool" where
  "offers E rnd path f offer \<longleftrightarrow> FileOffer_new (TransferId rnd) (path_file_name path) (of_nat (length f)) 1000
     (calculate_file_hash (env_crypto E) (short_read (env_os E)) f 1000) = Inr offer"

lemma offer_fields:
  assumes "offers E rnd path f offer"
  shows "fo_transfer_id offer = TransferId rnd" "fo_file_name offer = path_file_name path"
    "fo_file_size offer = of_nat (length f)" "fo_chunk_size offer = 1000"
    "fo_total_chunks offer = compute_total_chunks (of_nat (length f)) 1000"
  using assms by (auto simp: offers_def FileOffer_new_def split: if_splits)

lemma file_hash_length: "(\<And>d. length (sha256 C d) = 32) \<Longrightarrow> length (calculate_file_hash C short f cs) = 32"
  by (simp add: calculate_file_hash_def FILE_HASH_LEN_def)

lemma sender_offers:
  assumes r: "ready b k k' i j A" "linked b A fs" "frame_tx (transfer_manager A) = []" "unat i < 2 ^ 48" "seals E k"
    and sha: "\<And>d. length (sha256 (env_crypto E) d) = 32" and io: "io_ok (env_os E)"
    and src: "tm_files (transfer_manager A) path = Some f" "length (path_file_name path) \<le> 255" "length rnd = 16"
  obtains A1 offer ct where "node_run E [Command now rnd [] (CmdSendFile b path), TransferFrame now] A = Some (Inr A1)"
    "ready b k k' (i + 1) j A1" "linked b A1 (fs @ [secure_frame FileOffer i ct])"
    "aead_decrypt (env_aead E) k (build_nonce i) [] ct = Some (FileOffer_encode offer)"
    "offers E rnd path f offer" "frame_tx (transfer_manager A1) = []"
    "active_transfers (transfer_manager A1) (TransferId rnd) = Some (Sending (initial_sender b f 1000))"
proof -
  have os: "\<not> open_err (env_os E) path" "\<not> read_err (env_os E) path" "\<not> mmap_err (env_os E) path"
    using io by (auto simp: io_ok_def)
  have cs: "(1000 :: u32) \<noteq> 0" by simp
  let ?at = "(active_transfers (transfer_manager A))(TransferId rnd \<mapsto> Sending (initial_sender b f 1000))"
  obtain offer where o: "FileOffer_new (TransferId rnd) (path_file_name path) (of_nat (length f)) 1000
      (calculate_file_hash (env_crypto E) (short_read (env_os E)) f 1000) = Inr offer"
    "offer_file (env_crypto E) (env_os E) rnd b path 1000 (transfer_manager A) = (Inr (TransferId rnd), (transfer_manager A)\<lparr>
       active_transfers := ?at, frame_tx := frame_tx (transfer_manager A) @ queued b [(FileOffer, FileOffer_encode offer)]\<rparr>)"
    by (rule offer_frame [OF src(1) os src(2) cs])
  define A0 where "A0 = A\<lparr>transfer_manager := (transfer_manager A)\<lparr>active_transfers := ?at,
    frame_tx := queued b [(FileOffer, FileOffer_encode offer)]\<rparr>\<rparr>"
  have cmd: "on_command E now rnd [] (CmdSendFile b path) A = Some (Inr A0)"
    using ready_known [OF r(1)] r(3) o(2) by (simp add: on_command_def ret_def A0_def)
  have "tid_ok (TransferId rnd)" using src(3) by (simp add: tid_ok_def TRANSFER_ID_LEN_def)
  then have seal: "can_seal (env_aead E) k (FileOffer_encode offer)"
    using r(5) message_lengths(1) [OF _ o(1) file_hash_length [OF sha]] by (simp add: seals_def)
  have A0: "ready b k k' i j A0" "linked b A0 fs"
    "frame_tx (transfer_manager A0) = (b, Frame_new FileOffer Flags_empty 0 (FileOffer_encode offer)) # []"
    using r(1,2) by (simp_all add: A0_def queued_def)
  obtain A1 ct where A1: "on_transfer_frame E now A0 = Some (Inr A1)" "ready b k k' (i + 1) j A1"
    "linked b A1 (fs @ [secure_frame FileOffer i ct])"
    "aead_decrypt (env_aead E) k (build_nonce i) [] ct = Some (FileOffer_encode offer)"
    "transfer_manager A1 = (transfer_manager A0)\<lparr>frame_tx := []\<rparr>" "api_events A1 = api_events A0"
    by (rule emit_one [OF A0(1,2) r(4) seal A0(3)])
  show thesis
    using that [of A1 ct offer] cmd A1 o(1) by (simp add: offers_def then_step_def ret_def) (simp add: A0_def)
qed

lemma receiver_accepts:
  assumes r: "ready a k' k j i B" "linked a B gs" "frame_tx (transfer_manager B) = []" "unat i < 2 ^ 48" "unat j + 2 \<le> 2 ^ 48"
      "seals E k'"
    and sha: "\<And>d. length (sha256 (env_crypto E) d) = 32" and io: "io_ok (env_os E)"
    and src: "offers E rnd path f offer" "f \<noteq> []" "length f < 2 ^ 32" "length rnd = 16" "utf8_valid (path_file_name path)"
    and ct: "aead_decrypt (env_aead E) k (build_nonce i) [] ct = Some (FileOffer_encode offer)"
  obtains B1 as st where "node_run E ([Event now [] (FrameReceived a (seal crc (secure_frame FileOffer i ct)))] @
      replicate 2 (TransferFrame now)) B = Some (Inr B1)"
    "ready a k' k (j + 2) (i + 1) B1" "linked a B1 (gs @ as)" "frame_tx (transfer_manager B1) = []"
    "carries (env_aead E) k' j [(FileAccept, FileAccept_encode (FileAccept_new (TransferId rnd)
      (replicate (bitmap_len (compute_total_chunks (of_nat (length f)) 1000)) 0xFF))), (CreditUpdate, credit_payload (TransferId rnd) 50)] as"
    "receiving (transfer_manager B1) (TransferId rnd) (path_join (download_dir (transfer_manager B)) (path_file_name path)) f 1000 {}"
    "active_transfers (transfer_manager B1) (TransferId rnd) = Some (Receiving st)" "rs_peer st = a"
    "api_events B1 = api_events B @ [FileOfferReceived a (path_file_name path) (of_nat (length f))]"
proof -
  note fo = offer_fields [OF src(1)]
  have tid: "tid_ok (TransferId rnd)" using src(4) by (simp add: tid_ok_def TRANSFER_ID_LEN_def)
  have "FileOffer_ok offer"
    using FileOffer_new_ok [OF src(1) [unfolded offers_def] tid src(5)] file_hash_length [OF sha] by (simp add: FILE_HASH_LEN_def)
  then have dec: "FileOffer_decode (FileOffer_encode offer) = Inr offer" by (rule file_offer.dec_enc)
  obtain n0 where n0: "on_event E now [] (FrameReceived a (secure_frame FileOffer i ct)) B =
      on_secure_frame E now a FileOffer (FileOffer_encode offer) n0"
    "ready a k' k j (i + 1) n0" "transfer_manager n0 = transfer_manager B" "api_events n0 = api_events B" "nd_tcp n0 = nd_tcp B"
    by (rule accept_one [OF r(1) ct r(4), of FileOffer]) simp_all
  have io': "\<And>q. \<not> create_err (env_os E) q \<and> \<not> mmap_err (env_os E) q" "\<And>q n. \<not> set_len_err (env_os E) q n"
    using io by (auto simp: io_ok_def)
  obtain tm where tm: "handle_offer (env_os E) a offer (transfer_manager B) = (Inr (), tm)"
    "receiving tm (TransferId rnd) (path_join (download_dir (transfer_manager B)) (path_file_name path)) f 1000 {}"
    using offer_accepted [OF io' fo(3) src(2,3), of a "transfer_manager B"] unfolding fo by auto
  note ans = answer_frames [OF tm(1), unfolded fo]
  obtain st where st: "active_transfers tm (TransferId rnd) = Some (Receiving st)" "rs_peer st = a" using ans(2) by blast
  define n1 where "n1 = n0\<lparr>api_events := api_events B @ [FileOfferReceived a (path_file_name path) (of_nat (length f))],
    transfer_manager := tm\<rparr>"
  have ev: "on_event E now [] (FrameReceived a (secure_frame FileOffer i ct)) B = Some (Inr n1)"
    using n0 dec tm(1) fo by (simp add: on_secure_frame_def ret_def n1_def)
  have n1: "ready a k' k j (i + 1) n1" "linked a n1 gs" using n0(2,5) r(2) by (simp_all add: n1_def linked_def)
  let ?ms = "[(FileAccept, FileAccept_encode (FileAccept_new (TransferId rnd)
      (replicate (bitmap_len (compute_total_chunks (of_nat (length f)) 1000)) 0xFF))), (CreditUpdate, credit_payload (TransferId rnd) 50)]"
  have tx: "frame_tx (transfer_manager n1) = queued a ?ms @ []" using ans(1) r(3) by (simp add: n1_def)
  have seal: "\<forall>(mt, m) \<in> set ?ms. can_seal (env_aead E) k' m"
    using r(6) message_lengths(2,3) [OF tid] by (simp add: seals_def)
  have len: "unat j + length ?ms \<le> 2 ^ 48" using r(5) by simp
  obtain B1 as where B1: "node_run E (replicate (length ?ms) (TransferFrame now)) n1 = Some (Inr B1)"
    "ready a k' k (j + of_nat (length ?ms)) (i + 1) B1" "linked a B1 (gs @ as)" "carries (env_aead E) k' j ?ms as"
    "transfer_manager B1 = (transfer_manager n1)\<lparr>frame_tx := []\<rparr>" "api_events B1 = api_events n1"
    by (rule emit_all [OF n1 len seal tx])
  have run: "node_run E ([Event now [] (FrameReceived a (seal crc (secure_frame FileOffer i ct)))] @
      replicate 2 (TransferFrame now)) B = Some (Inr B1)"
    using ev B1(1) by (simp add: numeral_2_eq_2)
  have "receiving (transfer_manager B1) = receiving tm" by (intro ext) (simp add: receiving_def B1(5) n1_def)
  then show thesis
    using that [of B1 as st] run B1 tm(2) st by (simp add: n1_def)
qed

lemma credit_reaches_manager:
  assumes "length rnd = 16"
  shows "on_secure_frame E now a CreditUpdate (credit_payload (TransferId rnd) c) n =
    lift_tm (handle_credit_update (env_crypto E) (TransferId rnd) c (transfer_manager n)) n"
  using assms by (simp add: on_secure_frame_def on_credit_update_def credit_payload_def of_le_le_bytes)

lemma sender_sends_chunks:
  assumes r: "ready b k k' i j A" "linked b A fs" "frame_tx (transfer_manager A) = []" "unat i + 50 \<le> 2 ^ 48" "unat j + 2 \<le> 2 ^ 48"
      "seals E k"
    and sha: "\<And>d. length (sha256 (env_crypto E) d) = 32"
    and src: "active_transfers (transfer_manager A) (TransferId rnd) = Some (Sending (initial_sender b f 1000))"
      "length f < 2 ^ 32" "length rnd = 16" and m: "m = min 50 (chunk_count f 1000)"
    and ans: "carries (env_aead E) k' j [(FileAccept, FileAccept_encode (FileAccept_new (TransferId rnd)
      (replicate (bitmap_len (compute_total_chunks (of_nat (length f)) 1000)) 0xFF))), (CreditUpdate, credit_payload (TransferId rnd) 50)] as"
  obtains A2 cs st where "node_run E (map (\<lambda>g. Event now [] (FrameReceived b (seal crc g))) as @ replicate m (TransferFrame now)) A =
      Some (Inr A2)"
    "linked b A2 (fs @ cs)" "carries (env_aead E) k i (chunk_messages (env_crypto E) (TransferId rnd) f 1000 m) cs"
    "ready b k k' (i + of_nat m) (j + 2) A2" "active_transfers (transfer_manager A2) (TransferId rnd) = Some (Sending st)"
proof -
  let ?acc = "FileAccept_new (TransferId rnd) (replicate (bitmap_len (compute_total_chunks (of_nat (length f)) 1000)) 0xFF)"
  let ?ms = "chunk_messages (env_crypto E) (TransferId rnd) f 1000 m"
  have tid: "tid_ok (TransferId rnd)" using src(3) by (simp add: tid_ok_def TRANSFER_ID_LEN_def)
  obtain c1 c2 where as: "as = [secure_frame FileAccept j c1, secure_frame CreditUpdate (j + 1) c2]"
    and c: "aead_decrypt (env_aead E) k' (build_nonce j) [] c1 = Some (FileAccept_encode ?acc)"
    "aead_decrypt (env_aead E) k' (build_nonce (j + 1)) [] c2 = Some (credit_payload (TransferId rnd) 50)"
    using ans by (cases as rule: list.exhaust; cases "tl as" rule: list.exhaust; cases "tl (tl as)" rule: list.exhaust) auto
  have j: "unat j < 2 ^ 48" "unat (j + 1) < 2 ^ 48" "j + 1 + 1 = j + 2" using r(5) unat_next [of j] by simp_all
  have ne: "(1000 :: u32) \<noteq> 0" by simp
  obtain t1 t2 st where t: "handle_accept ?acc (transfer_manager A) = (Inr (), t1)"
    "frame_tx t1 = frame_tx (transfer_manager A)"
    "handle_credit_update (env_crypto E) (TransferId rnd) 50 t1 = Some (Inr t2)"
    "active_transfers t2 (TransferId rnd) = Some (Sending st)"
    "frame_tx t2 = frame_tx (transfer_manager A) @ queued b (chunk_messages (env_crypto E) (TransferId rnd) f (unat (1000 :: u32))
       (min (unat (50 :: u32)) (chunk_count f (unat (1000 :: u32)))))"
    by (rule sender_pumps [OF src(1) ne src(2)])
  have dec: "FileAccept_decode (FileAccept_encode ?acc) = Inr ?acc"
    using FileAccept_new_ok [OF tid] bitmap_len_small [of "compute_total_chunks (of_nat (length f)) 1000"]
    by (intro file_accept.dec_enc) simp
  obtain n0 where n0: "on_event E now [] (FrameReceived b (secure_frame FileAccept j c1)) A =
      on_secure_frame E now b FileAccept (FileAccept_encode ?acc) n0" "ready b k k' i (j + 1) n0"
    "transfer_manager n0 = transfer_manager A" "api_events n0 = api_events A" "nd_tcp n0 = nd_tcp A"
    by (rule accept_one [OF r(1) c(1) j(1), of FileAccept]) simp_all
  define n1 where "n1 = n0\<lparr>transfer_manager := t1\<rparr>"
  have n1: "on_event E now [] (FrameReceived b (secure_frame FileAccept j c1)) A = Some (Inr n1)" "ready b k k' i (j + 1) n1"
    using n0 dec t(1) by (simp_all add: on_secure_frame_def ret_def n1_def)
  obtain n2 where n2: "on_event E now [] (FrameReceived b (secure_frame CreditUpdate (j + 1) c2)) n1 =
      on_secure_frame E now b CreditUpdate (credit_payload (TransferId rnd) 50) n2" "ready b k k' i (j + 1 + 1) n2"
    "transfer_manager n2 = transfer_manager n1" "api_events n2 = api_events n1" "nd_tcp n2 = nd_tcp n1"
    by (rule accept_one [OF n1(2) c(2) j(2), of CreditUpdate]) simp_all
  define n3 where "n3 = n2\<lparr>transfer_manager := t2\<rparr>"
  have ev: "on_event E now [] (FrameReceived b (secure_frame CreditUpdate (j + 1) c2)) n1 = Some (Inr n3)"
    using n2(1,3) t(3) credit_reaches_manager [OF src(3)] by (simp add: lift_tm_def ret_def n3_def n1_def)
  have "nd_tcp n3 = nd_tcp A" using n2(5) n0(5) by (simp add: n3_def n1_def)
  then have n3: "ready b k k' i (j + 2) n3" "linked b n3 fs" "frame_tx (transfer_manager n3) = queued b ?ms @ []"
    using n2(2) r(2,3) j(3) t(5) by (simp_all add: n3_def linked_def m)
  have len: "unat i + length ?ms \<le> 2 ^ 48" using r(4) by (simp add: chunk_messages_def m)
  have seal: "\<forall>(mt, x) \<in> set ?ms. can_seal (env_aead E) k x"
    using r(6) message_lengths(4) [OF tid sha] by (auto simp: seals_def chunk_messages_def)
  have lm: "length ?ms = m" by (simp add: chunk_messages_def)
  obtain A2 cs where A2: "node_run E (replicate (length ?ms) (TransferFrame now)) n3 = Some (Inr A2)"
    "ready b k k' (i + of_nat (length ?ms)) (j + 2) A2" "linked b A2 (fs @ cs)" "carries (env_aead E) k i ?ms cs"
    "transfer_manager A2 = (transfer_manager n3)\<lparr>frame_tx := []\<rparr>" "api_events A2 = api_events n3"
    by (rule emit_all [OF n3(1,2) len seal n3(3)])
  show thesis
    using that [of A2 cs st] A2 t(4) n1(1) ev lm by (simp add: as n3_def)
qed

lemma fold_chunks:
  assumes "tid_ok tid" "\<And>d. length (sha256 C d) = 32"
  shows "fold (\<lambda>(mt, m) tm. snd (handle_chunk C (projr (FileChunk_decode m)) tm)) (chunk_messages C tid f cs m) tm =
    receive_all C (map (sent_chunk C tid f cs) [0 ..< m]) tm"
    and "(mt, x) \<in> set (chunk_messages C tid f cs m) \<Longrightarrow> mt = FileChunk \<and> (\<exists>c. FileChunk_decode x = Inr c)"
proof -
  have "FileChunk_decode (FileChunk_encode (sent_chunk C tid f cs i)) = Inr (sent_chunk C tid f cs i)" for i
    using assms by (intro file_chunk.dec_enc) (simp add: FileChunk_ok_def sent_chunk_def hash_chunk_def FILE_HASH_LEN_def)
  then show "fold (\<lambda>(mt, m) tm. snd (handle_chunk C (projr (FileChunk_decode m)) tm)) (chunk_messages C tid f cs m) tm =
      receive_all C (map (sent_chunk C tid f cs) [0 ..< m]) tm"
    "(mt, x) \<in> set (chunk_messages C tid f cs m) \<Longrightarrow> mt = FileChunk \<and> (\<exists>c. FileChunk_decode x = Inr c)"
    by (auto simp: chunk_messages_def receive_all_def fold_map comp_def)
qed

lemma receiver_stores:
  assumes r: "ready a k' k j i B" "linked a B gs" "frame_tx (transfer_manager B) = []" "unat j < 2 ^ 48" "unat i + 50 \<le> 2 ^ 48"
      "seals E k'"
    and sha: "\<And>d. length (sha256 (env_crypto E) d) = 32" and tid: "tid_ok tid"
    and rcv: "receiving (transfer_manager B) tid path f 1000 {}"
      "active_transfers (transfer_manager B) tid = Some (Receiving st)" "rs_peer st = a"
    and f: "f \<noteq> []" "length f < 2 ^ 32" and m: "m = min 50 (chunk_count f 1000)"
    and cs: "carries (env_aead E) k i (chunk_messages (env_crypto E) tid f 1000 m) cs"
  obtains B2 ct where "node_run E (map (\<lambda>g. Event now [] (FrameReceived a (seal crc g))) cs @ [TransferFrame now]) B = Some (Inr B2)"
    "linked a B2 (gs @ [secure_frame FileChunkAck j ct])"
    "aead_decrypt (env_aead E) k' (build_nonce j) [] ct =
       Some (FileChunkAck_encode \<lparr>ack_transfer_id = tid, ack_chunk_index = 0, ack_status = AckOk\<rparr>)"
    "if m = chunk_count f 1000
     then active_transfers (transfer_manager B2) tid = None \<and> tm_files (transfer_manager B2) path = Some f
     else receiving (transfer_manager B2) tid path f 1000 {..< m}"
proof -
  let ?ms = "chunk_messages (env_crypto E) tid f 1000 m"
  let ?ack = "FileChunkAck_encode \<lparr>ack_transfer_id = tid, ack_chunk_index = 0, ack_status = AckOk\<rparr>"
  let ?tm = "receive_all (env_crypto E) (map (sent_chunk (env_crypto E) tid f 1000) [0 ..< m]) (transfer_manager B)"
  have lm: "length ?ms = m" by (simp add: chunk_messages_def)
  obtain B1 where B1: "node_run E (map (\<lambda>g. Event now [] (FrameReceived a (seal crc g))) cs) B = Some (Inr B1)"
    "ready a k' k j (i + of_nat (length ?ms)) B1"
    "transfer_manager B1 = fold (\<lambda>(mt, m) tm. snd (handle_chunk (env_crypto E) (projr (FileChunk_decode m)) tm)) ?ms (transfer_manager B)"
    "api_events B1 = api_events B" "nd_tcp B1 = nd_tcp B"
  proof (rule accept_all [OF r(1) cs])
    show "unat i + length ?ms \<le> 2 ^ 48" using r(5) m unfolding lm by simp
    fix mt x n assume "(mt, x) \<in> set ?ms"
    from fold_chunks(2) [OF tid sha this] show "mt \<noteq> Handshake \<and> on_secure_frame E now a mt x n = Some (Inr (n\<lparr>transfer_manager :=
        (\<lambda>(mt, m) tm. snd (handle_chunk (env_crypto E) (projr (FileChunk_decode m)) tm)) (mt, x) (transfer_manager n)\<rparr>))"
      by (auto simp: on_secure_frame_def ret_def)
  qed
  have tm1: "transfer_manager B1 = ?tm" using B1(3) by (simp add: fold_chunks [OF tid sha])
  have ne: "(1000 :: u32) \<noteq> 0" by simp
  have "0 < chunk_count f 1000" using chunk_count_le_iff [of 1000 f 0] f(1) by (cases "chunk_count f 1000 = 0") auto
  then have m0: "0 < m" "m \<le> chunk_count f (unat (1000 :: u32))" by (simp_all add: m)
  note res = receive_prefix [OF rcv(1) ne f(2) m0(2), of "env_crypto E", unfolded Let_def]
  obtain xs where xs: "frame_tx ?tm = (a, Frame_new FileChunkAck Flags_empty 0 ?ack) # xs"
    using first_ack [OF rcv(1,2) ne f(2) m0, of "env_crypto E"] r(3) rcv(3) by (auto simp: queued_def)
  have l: "linked a B1 gs" using r(2) B1(5) by (simp add: linked_def)
  have seal: "can_seal (env_aead E) k' ?ack" using r(6) message_lengths(5) [OF tid] by (simp add: seals_def)
  have tx: "frame_tx (transfer_manager B1) = (a, Frame_new FileChunkAck Flags_empty 0 ?ack) # xs" using tm1 xs by simp
  obtain B2 ct where B2: "on_transfer_frame E now B1 = Some (Inr B2)" "ready a k' k (j + 1) (i + of_nat (length ?ms)) B2"
    "linked a B2 (gs @ [secure_frame FileChunkAck j ct])" "aead_decrypt (env_aead E) k' (build_nonce j) [] ct = Some ?ack"
    "transfer_manager B2 = (transfer_manager B1)\<lparr>frame_tx := xs\<rparr>" "api_events B2 = api_events B1"
    by (rule emit_one [OF B1(2) l r(4) seal tx])
  have "receiving (transfer_manager B2) = receiving ?tm" by (intro ext) (simp add: receiving_def B2(5) tm1)
  then show thesis
    using that [of B2 ct] B1(1) B2 res tm1 by (simp add: node_run_append ret_def split: if_splits)
qed

lemma ack_hangs_node:
  assumes "ready b k k' i j A" "active_transfers (transfer_manager A) tid = Some (Sending st)" "unat j < 2 ^ 48" "tid_ok tid"
    and "aead_decrypt (env_aead E) k' (build_nonce j) [] ct =
      Some (FileChunkAck_encode \<lparr>ack_transfer_id = tid, ack_chunk_index = x, ack_status = status\<rparr>)"
  shows "node_run E [Event now [] (FrameReceived b (seal crc (secure_frame FileChunkAck j ct)))] A = None"
proof -
  let ?ack = "\<lparr>ack_transfer_id = tid, ack_chunk_index = x, ack_status = status\<rparr>"
  have dec: "FileChunkAck_decode (FileChunkAck_encode ?ack) = Inr ?ack"
    using assms(4) by (intro file_chunk_ack.dec_enc) (simp add: FileChunkAck_ok_def)
  obtain n where "on_event E now [] (FrameReceived b (secure_frame FileChunkAck j ct)) A =
      on_secure_frame E now b FileChunkAck (FileChunkAck_encode ?ack) n" "transfer_manager n = transfer_manager A"
    by (rule accept_one [OF assms(1,5,3), of FileChunkAck]) simp_all
  then show ?thesis
    using dec assms(2) by (simp add: on_secure_frame_def handle_chunk_ack_def pump_send_def Let_def lift_tm_def then_step_def)
qed

subsection \<open>A transfer\<close>


definition talking_node :: "SocketAddr \<Rightarrow> byte list \<Rightarrow> byte list \<Rightarrow> (path \<rightharpoonup> byte list) \<Rightarrow> Node" where
  "talking_node a k k' files = (let n = example_node\<lparr>transfer_manager := TransferManager_new [68] files\<rparr> in
     set_peer a (Secure (opened k k' [])) (n\<lparr>nd_tcp := spawn_connection a (nd_tcp n)\<rparr>))"

lemma talking_node_simps:
  "ready a k k' 1 1 (talking_node a k k' files)" "linked a (talking_node a k k' files) []"
  "transfer_manager (talking_node a k k' files) = TransferManager_new [68] files"
  using represents_new by (auto simp: talking_node_def ready_def set_peer_def opened_def linked_spawn Let_def)
    (simp_all add: ReplayWindow_new_def)


end
