(* ===== verification/Config.thy ===== *)
theory Config
  imports Wire_Types
begin

text \<open>
  \<open>ceky-node/src/config.rs\<close> and what \<open>main.rs\<close> does with it: the configuration a node starts with, merged
  from the command line, the configuration file and the defaults.  The \<open>clap\<close> and \<open>toml\<close> libraries parse
  the two; their results are arguments.  \<open>ConfigFile_load\<close> is a function of what the system calls return:
  whether the path exists, whether it is a file (\<open>None\<close> where canonicalising fails), and the parsed content
  (\<open>None\<close> where reading or parsing fails).
\<close>

subsection \<open>Configuration\<close>

record NetworkConfig =
  nc_tcp_addr :: "SocketAddr option"
  nc_udp_addr :: "SocketAddr option"
  nc_max_connections :: "nat option"
  nc_skip_nat :: "bool option"

record NodeInfoConfig =
  ni_key_file :: "string option"
  ni_log_level :: "string option"

record NodeBootstrapConfig =
  bc_seeds :: "SocketAddr list option"

record ApiConfig =
  api_cfg_port :: "u16 option"
  api_cfg_key :: "byte list option"

record ConfigFile =
  cf_network :: "NetworkConfig option"
  cf_bootstrap :: "NodeBootstrapConfig option"
  cf_node :: "NodeInfoConfig option"
  cf_api :: "ApiConfig option"

definition ConfigFile_default :: ConfigFile where
  "ConfigFile_default = \<lparr>cf_network = None, cf_bootstrap = None, cf_node = None, cf_api = None\<rparr>"

definition ConfigFile_load :: "bool \<Rightarrow> bool option \<Rightarrow> ConfigFile option \<Rightarrow> ConfigFile option" where
  "ConfigFile_load exists is_file parsed =
     (if exists then
        (case is_file of None \<Rightarrow> None | Some False \<Rightarrow> Some ConfigFile_default | Some True \<Rightarrow> parsed)
      else Some ConfigFile_default)"

record ResolvedConfig =
  rc_tcp_addr :: SocketAddr
  rc_udp_addr :: SocketAddr
  rc_key_file :: string
  rc_seeds :: "SocketAddr list"
  rc_max_connections :: nat
  rc_log_level :: string
  rc_skip_nat :: bool
  rc_api_port :: u16
  rc_api_key :: "byte list option"
  rc_daemon :: bool

definition or_else :: "'a option \<Rightarrow> 'a option \<Rightarrow> 'a option" where
  "or_else x y = (case x of Some a \<Rightarrow> Some a | None \<Rightarrow> y)"

definition unwrap_or :: "'a option \<Rightarrow> 'a \<Rightarrow> 'a" where
  "unwrap_or x d = (case x of Some a \<Rightarrow> a | None \<Rightarrow> d)"

record Cli =
  cli_tcp :: "SocketAddr option"
  cli_udp :: "SocketAddr option"
  cli_key :: "string option"
  cli_seeds :: "SocketAddr list option"
  cli_max_conn :: "nat option"
  cli_log :: "string option"
  cli_skip_nat :: bool
  cli_api_port :: "u16 option"
  cli_api_key :: "byte list option"
  cli_daemon :: bool

definition merge :: "Cli \<Rightarrow> ConfigFile \<Rightarrow> ResolvedConfig" where
  "merge c cfg =
     (let network = unwrap_or (cf_network cfg) \<lparr>nc_tcp_addr = None, nc_udp_addr = None, nc_max_connections = None, nc_skip_nat = None\<rparr>;
          bootstrap = unwrap_or (cf_bootstrap cfg) \<lparr>bc_seeds = None\<rparr>;
          node = unwrap_or (cf_node cfg) \<lparr>ni_key_file = None, ni_log_level = None\<rparr>;
          api = unwrap_or (cf_api cfg) \<lparr>api_cfg_port = None, api_cfg_key = None\<rparr>
      in \<lparr>rc_tcp_addr = unwrap_or (or_else (cli_tcp c) (nc_tcp_addr network)) (SockV4 [0, 0, 0, 0] 9741),
          rc_udp_addr = unwrap_or (or_else (cli_udp c) (nc_udp_addr network)) (SockV4 [0, 0, 0, 0] 9742),
          rc_key_file = unwrap_or (or_else (cli_key c) (ni_key_file node)) ''identity.key'',
          rc_seeds = unwrap_or (or_else (cli_seeds c) (bc_seeds bootstrap)) [],
          rc_max_connections = unwrap_or (or_else (cli_max_conn c) (nc_max_connections network)) 1024,
          rc_log_level = unwrap_or (or_else (cli_log c) (ni_log_level node)) ''info'',
          rc_skip_nat = (if cli_skip_nat c then True else unwrap_or (nc_skip_nat network) False),
          rc_api_port = unwrap_or (or_else (cli_api_port c) (api_cfg_port api)) 9743,
          rc_api_key = or_else (cli_api_key c) (api_cfg_key api),
          rc_daemon = cli_daemon c\<rparr>)"

definition ResolvedConfig_default :: ResolvedConfig where
  "ResolvedConfig_default = merge \<lparr>cli_tcp = None, cli_udp = None, cli_key = None, cli_seeds = None,
     cli_max_conn = None, cli_log = None, cli_skip_nat = False, cli_api_port = None, cli_api_key = None,
     cli_daemon = False\<rparr> ConfigFile_default"

text \<open>What \<open>main\<close> starts the node with: a file that cannot be read or parsed counts as an empty one.\<close>

definition main_config :: "Cli \<Rightarrow> bool \<Rightarrow> bool option \<Rightarrow> ConfigFile option \<Rightarrow> ResolvedConfig" where
  "main_config c exists is_file parsed = merge c (unwrap_or (ConfigFile_load exists is_file parsed) ConfigFile_default)"

text \<open>A setting of the file takes effect exactly where the command line is silent.\<close>

lemma merge_precedence:
  "cli_max_conn c = Some k \<Longrightarrow> rc_max_connections (merge c cfg) = k"
  "cli_max_conn c = None \<Longrightarrow> cf_network cfg = Some nw \<Longrightarrow> nc_max_connections nw = Some k \<Longrightarrow> rc_max_connections (merge c cfg) = k"
  "cli_max_conn c = None \<Longrightarrow> cf_network cfg = None \<Longrightarrow> rc_max_connections (merge c cfg) = 1024"
  "rc_skip_nat (merge c cfg) \<longleftrightarrow> cli_skip_nat c \<or> (\<exists>nw. cf_network cfg = Some nw \<and> nc_skip_nat nw = Some True)"
  by (auto simp: merge_def Let_def or_else_def unwrap_or_def split: option.splits)

text \<open>The broken file is silently an empty one: every setting it meant to make, an API key among them, is lost.\<close>

lemma broken_file_loses_api_key:
  "cli_api_key c = None \<Longrightarrow> rc_api_key (main_config c True (Some True) None) = None"
  by (simp add: main_config_def ConfigFile_load_def ConfigFile_default_def merge_def Let_def or_else_def unwrap_or_def)

end
