(* ===== verification/Api.thy ===== *)
theory Api
  imports Config Node
begin

text \<open>
  \<open>ceky-node/src/api.rs\<close>: the routes of the API with their handlers and the middleware before them.  The HTTP
  server is the \<open>axum\<close> library: a request is a value with its body already decoded and its addresses already
  parsed, if they parse.  \<open>ApiState\<close> shares the metrics, the identity and the two channels with the node; these
  are the parts of \<open>Node\<close>, and the record holds what is left.  Addresses in an answer are left unprinted.
  The lock around the transfers is never poisoned, because the one writer only assigns under it.
\<close>

subsection \<open>Handlers\<close>

record ApiState =
  as_tcp_addr :: SocketAddr
  as_udp_addr :: SocketAddr
  as_api_key :: "byte list option"

record StatusResponse =
  sr_peer_id :: "byte list"
  sr_tcp_addr :: SocketAddr
  sr_udp_addr :: SocketAddr
  sr_active_connections :: u64
  sr_dht_active_peers :: u64
  sr_dht_total_peers :: u64

record MetricsResponse =
  mr_tx_bytes :: u64
  mr_rx_bytes :: u64
  mr_tx_rate :: u64
  mr_rx_rate :: u64
  mr_transfers :: "TransferProgress list"

datatype StatusCode = ACCEPTED | BAD_REQUEST | UNAUTHORIZED

text \<open>The middleware: \<open>hdr\<close> is the \<open>Authorization\<close> header, if any, and \<open>to_str\<close> its text, if it is visible
  ASCII.  \<open>None\<close> passes the request on.\<close>

definition auth_middleware :: "('h \<Rightarrow> byte list option) \<Rightarrow> ApiState \<Rightarrow> 'h option \<Rightarrow> StatusCode option" where
  "auth_middleware to_str st hdr =
     (case as_api_key st of
        Some expected_key \<Rightarrow>
          let is_valid = (case hdr of
                Some v \<Rightarrow> unwrap_or (to_str v) [] = utf8 ''Bearer '' @ expected_key
              | None \<Rightarrow> False)
          in if is_valid then None else Some UNAUTHORIZED
      | None \<Rightarrow> None)"

definition get_status :: "ApiState \<Rightarrow> Node \<Rightarrow> StatusResponse" where
  "get_status st n = \<lparr>sr_peer_id = PeerId_fmt (peer_id (nd_identity n)),
     sr_tcp_addr = as_tcp_addr st, sr_udp_addr = as_udp_addr st,
     sr_active_connections = active_tcp_connections (metrics n),
     sr_dht_active_peers = dht_active_peers (metrics n), sr_dht_total_peers = dht_total_peers (metrics n)\<rparr>"

definition get_metrics :: "Node \<Rightarrow> MetricsResponse" where
  "get_metrics n = \<lparr>mr_tx_bytes = tx_bytes (metrics n), mr_rx_bytes = rx_bytes (metrics n),
     mr_tx_rate = tx_rate (metrics n), mr_rx_rate = rx_rate (metrics n), mr_transfers = transfers (metrics n)\<rparr>"

definition api_connect_peer :: "SocketAddr option \<Rightarrow> Node \<Rightarrow> StatusCode \<times> Node" where
  "api_connect_peer parsed n =
     (case parsed of
        Some a \<Rightarrow> (ACCEPTED, n\<lparr>api_commands := api_commands n @ [CmdConnect a]\<rparr>)
      | None \<Rightarrow> (BAD_REQUEST, n))"

definition api_send_file :: "SocketAddr option \<Rightarrow> path \<Rightarrow> Node \<Rightarrow> StatusCode \<times> Node" where
  "api_send_file parsed file_path n =
     (case parsed of
        Some a \<Rightarrow> (ACCEPTED, n\<lparr>api_commands := api_commands n @ [CmdSendFile a file_path]\<rparr>)
      | None \<Rightarrow> (BAD_REQUEST, n))"

text \<open>The routes, with the middleware as their layer.  A request carries the parsed address of its body.\<close>

datatype ApiRequest = GetStatus | GetMetrics | PostConnect "SocketAddr option" | PostSend "SocketAddr option" path

datatype ApiResponse = Status StatusResponse | Metrics MetricsResponse | Code StatusCode

fun route :: "ApiState \<Rightarrow> ApiRequest \<Rightarrow> Node \<Rightarrow> ApiResponse \<times> Node" where
  "route st GetStatus n = (Status (get_status st n), n)"
| "route st GetMetrics n = (Metrics (get_metrics n), n)"
| "route st (PostConnect peer_addr) n = map_prod Code id (api_connect_peer peer_addr n)"
| "route st (PostSend target_peer file_path) n = map_prod Code id (api_send_file target_peer file_path n)"

definition api_server :: "('h \<Rightarrow> byte list option) \<Rightarrow> ApiState \<Rightarrow> 'h option \<Rightarrow> ApiRequest \<Rightarrow> Node \<Rightarrow> ApiResponse \<times> Node" where
  "api_server to_str st hdr req n =
     (case auth_middleware to_str st hdr of Some code \<Rightarrow> (Code code, n) | None \<Rightarrow> route st req n)"

text \<open>The websocket: the welcome message, then the events in the order of the subscription.  A receive gives an
  event or an error, that the sender is gone or that this receiver fell behind the 100 events the channel
  keeps.  \<open>send_ok k\<close> is whether the \<open>k\<close>th send succeeds; the result is what was sent.\<close>

datatype 'e recv = Received 'e | Lagged nat | Closed

fun forward_events :: "(nat \<Rightarrow> bool) \<Rightarrow> nat \<Rightarrow> 'e recv list \<Rightarrow> 'e list" where
  "forward_events send_ok k (Received e # rs) = (if send_ok k then e # forward_events send_ok (Suc k) rs else [])"
| "forward_events send_ok k rs = []"

definition handle_socket :: "(nat \<Rightarrow> bool) \<Rightarrow> 'e \<Rightarrow> 'e recv list \<Rightarrow> 'e list" where
  "handle_socket send_ok welcome rs = (if send_ok 0 then welcome # forward_events send_ok 1 rs else [])"

subsection \<open>What the API can do\<close>

lemma auth_middleware_iff:
  "as_api_key st = Some key \<Longrightarrow>
   auth_middleware to_str st hdr = None \<longleftrightarrow> (\<exists>v. hdr = Some v \<and> to_str v = Some (utf8 ''Bearer '' @ key))"
  by (auto simp: auth_middleware_def Let_def unwrap_or_def utf8_def split: option.splits)

lemma auth_middleware_code: "auth_middleware to_str st hdr \<in> {None, Some UNAUTHORIZED}"
  by (simp add: auth_middleware_def Let_def split: option.splits)

lemma route_frame:
  "snd (route st req n) = n \<or> (\<exists>cmd. snd (route st req n) = n\<lparr>api_commands := api_commands n @ [cmd]\<rparr>)"
  by (cases req) (auto simp: api_connect_peer_def api_send_file_def split: option.splits)

text \<open>The telemetry task never reports the routing table: the two counters of the status stay as they were.\<close>

lemma tick_keeps_dht_counters:
  "sr_dht_active_peers (get_status st (telemetry_tick E order n)) = sr_dht_active_peers (get_status st n)"
  "sr_dht_total_peers (get_status st (telemetry_tick E order n)) = sr_dht_total_peers (get_status st n)"
  by (simp_all add: get_status_def telemetry_tick_def Let_def)

text \<open>A subscriber that falls behind gets nothing any more, whatever events follow.\<close>

lemma lagged_socket_ends:
  "handle_socket (\<lambda>_. True) welcome (map Received es @ Lagged k # rs) = welcome # es"
proof -
  have "forward_events (\<lambda>_. True) j (map Received es @ Lagged k # rs) = es" for j
    by (induction es arbitrary: j) auto
  then show ?thesis by (simp add: handle_socket_def)
qed

text \<open>The API as the gate of the event loop.  With a key configured, a request whose \<open>Authorization\<close> header is not
  the key as a bearer token is answered with 401 and changes nothing.  A request that carries it can change
  nothing but the queue of commands, by one command at its end; and a connect request on an empty queue makes
  the next turn of the event loop connect to exactly the requested address.\<close>

lemma api_gates_commands:
  assumes key: "as_api_key st = Some key"
  shows "((\<nexists>v. hdr = Some v \<and> to_str v = Some (utf8 ''Bearer '' @ key)) \<longrightarrow> api_server to_str st hdr req n = (Code UNAUTHORIZED, n)) \<and>
    (\<exists>cmds. length cmds \<le> 1 \<and> snd (api_server to_str st hdr req n) = n\<lparr>api_commands := api_commands n @ cmds\<rparr>) \<and>
    (to_str v = Some (utf8 ''Bearer '' @ key) \<and> api_commands n = [] \<longrightarrow>
       on_api_command E now rnd order (snd (api_server to_str st (Some v) (PostConnect (Some a)) n)) = ret (connect_to E now rnd a n))"
proof (intro conjI impI)
  show "api_server to_str st hdr req n = (Code UNAUTHORIZED, n)" if "\<nexists>v. hdr = Some v \<and> to_str v = Some (utf8 ''Bearer '' @ key)"
    using that auth_middleware_code [of to_str st hdr] by (auto simp: api_server_def auth_middleware_iff [OF key])
  have nil: "n = n\<lparr>api_commands := api_commands n @ []\<rparr>" by simp
  show "\<exists>cmds. length cmds \<le> 1 \<and> snd (api_server to_str st hdr req n) = n\<lparr>api_commands := api_commands n @ cmds\<rparr>"
  proof (cases "auth_middleware to_str st hdr")
    case None
    then show ?thesis using route_frame [of st req n] nil
      by (auto simp: api_server_def intro: exI [of _ "[]"] exI [of _ "[cmd]" for cmd])
  next
    case Some
    then show ?thesis using nil by (auto simp: api_server_def intro: exI [of _ "[]"])
  qed
  assume *: "to_str v = Some (utf8 ''Bearer '' @ key) \<and> api_commands n = []"
  have "auth_middleware to_str st (Some v) = None" using * by (simp add: auth_middleware_iff [OF key])
  moreover have upd: "n\<lparr>api_commands := []\<rparr> = n" using * by simp
  ultimately show "on_api_command E now rnd order (snd (api_server to_str st (Some v) (PostConnect (Some a)) n)) = ret (connect_to E now rnd a n)"
    using * by (simp add: api_server_def api_connect_peer_def on_api_command_def on_command_def upd)
qed

definition example_api :: ApiState where
  "example_api = \<lparr>as_tcp_addr = SockV4 [127, 0, 0, 1] 9841, as_udp_addr = SockV4 [127, 0, 0, 1] 9842,
     as_api_key = Some (utf8 ''secret'')\<rparr>"

end
