(* ===== verification/Relay.thy ===== *)
theory Relay
  imports Peer_Info
begin

text \<open>
  \<open>ceky-nat/src/relay.rs\<close>: relay sessions for peers behind symmetric NATs.  The service is a record, its
  operations are functions of the current time, and \<open>relay_step\<close> is the relation of all calls that change
  it.  \<open>NatError\<close> is the error type of \<open>ceky-nat/src/lib.rs\<close>.
\<close>

subsection \<open>The service\<close>

datatype NatError = StunFailed string | StunTimeout u64 | HolePunchFailed string | RelayRefused string
  | SymmetricNat | NoStunServers | NatIo

record RelayConfig =
  max_bandwidth_bps :: u64
  idle_timeout :: time
  max_duration :: time
  max_sessions :: nat

definition RelayConfig_default :: RelayConfig where
  "RelayConfig_default = \<lparr>max_bandwidth_bps = 512 * 1024, idle_timeout = 60 * NANOS,
     max_duration = 3600 * NANOS, max_sessions = 100\<rparr>"

datatype RelaySessionState = Pending | SActive | Closed

record RelayPeer =
  rp_peer_id :: PeerId
  rp_addr :: SocketAddr
  bytes_sent :: u64
  bytes_received :: u64

definition RelayPeer_new :: "PeerId \<Rightarrow> SocketAddr \<Rightarrow> RelayPeer" where
  "RelayPeer_new pid a = \<lparr>rp_peer_id = pid, rp_addr = a, bytes_sent = 0, bytes_received = 0\<rparr>"

record RelaySession =
  session_id :: u64
  peer_a :: RelayPeer
  peer_b :: RelayPeer
  created_at :: time
  last_activity :: time
  bytes_relayed :: u64
  rs_state :: RelaySessionState

record RelayService =
  relay_config :: RelayConfig
  sessions :: "u64 \<rightharpoonup> RelaySession"
  next_session_id :: u64

definition RelayService_new :: "RelayConfig \<Rightarrow> RelayService" where
  "RelayService_new cfg = \<lparr>relay_config = cfg, sessions = Map.empty, next_session_id = 1\<rparr>"

definition session_expired :: "RelayConfig \<Rightarrow> time \<Rightarrow> RelaySession \<Rightarrow> bool" where
  "session_expired cfg now s \<longleftrightarrow> rs_state s = Closed \<or> now - last_activity s > idle_timeout cfg \<or>
     now - created_at s > max_duration cfg"

definition cleanup_expired :: "time \<Rightarrow> RelayService \<Rightarrow> nat \<times> RelayService" where
  "cleanup_expired now r =
     (let expired = {i \<in> dom (sessions r). session_expired (relay_config r) now (the (sessions r i))}
      in (card expired, r\<lparr>sessions := sessions r |` (- expired)\<rparr>))"

definition create_session :: "time \<Rightarrow> PeerId \<Rightarrow> SocketAddr \<Rightarrow> PeerId \<Rightarrow> SocketAddr \<Rightarrow> RelayService \<Rightarrow>
    (NatError, u64) res \<times> RelayService" where
  "create_session now peer_a_id peer_a_addr peer_b_id peer_b_addr r =
     (let r = (if card (dom (sessions r)) \<ge> max_sessions (relay_config r) then snd (cleanup_expired now r) else r)
      in if card (dom (sessions r)) \<ge> max_sessions (relay_config r)
         then (Inl (Err (RelayRefused ''relay at capacity'')), r)
         else
           let sid = next_session_id r;
               session = \<lparr>session_id = sid, peer_a = RelayPeer_new peer_a_id peer_a_addr,
                 peer_b = RelayPeer_new peer_b_id peer_b_addr, created_at = now, last_activity = now,
                 bytes_relayed = 0, rs_state = Pending\<rparr>
           in (Inr sid, r\<lparr>next_session_id := next_session_id r + 1, sessions := (sessions r)(sid \<mapsto> session)\<rparr>))"

definition session_not_found :: "u64 \<Rightarrow> NatError" where
  "session_not_found sid = RelayRefused (''session '' @ show_nat (unat sid) @ '' not found'')"

definition activate_session :: "time \<Rightarrow> u64 \<Rightarrow> RelayService \<Rightarrow> (NatError, unit) res \<times> RelayService" where
  "activate_session now sid r =
     (case sessions r sid of
        None \<Rightarrow> (Inl (Err (session_not_found sid)), r)
      | Some s \<Rightarrow>
          if rs_state s \<noteq> Pending
          then (Inl (Err (RelayRefused (''session '' @ show_nat (unat sid) @ '' not in pending state''))), r)
          else (Inr (), r\<lparr>sessions := (sessions r)(sid \<mapsto> s\<lparr>rs_state := SActive, last_activity := now\<rparr>)\<rparr>))"

definition relay_record :: "time \<Rightarrow> u64 \<Rightarrow> u64 \<Rightarrow> bool \<Rightarrow> RelayService \<Rightarrow> (NatError, unit) res \<times> RelayService" where
  "relay_record now sid bytes from_a r =
     (case sessions r sid of
        None \<Rightarrow> (Inl (Err (session_not_found sid)), r)
      | Some s \<Rightarrow>
          if rs_state s \<noteq> SActive then (Inl (Err (RelayRefused ''session not active'')), r)
          else
            let elapsed = now - created_at s
            in if elapsed div NANOS \<ge> 1 \<and>
                  real (unat (bytes_relayed s)) / (real elapsed / real NANOS) > real (unat (max_bandwidth_bps (relay_config r)))
               then (Inl (Err (RelayRefused ''bandwidth limit exceeded'')), r)
               else
                 let s = s\<lparr>bytes_relayed := bytes_relayed s + bytes, last_activity := now\<rparr>;
                     s = (if from_a then
                            s\<lparr>peer_a := (peer_a s)\<lparr>bytes_sent := bytes_sent (peer_a s) + bytes\<rparr>,
                              peer_b := (peer_b s)\<lparr>bytes_received := bytes_received (peer_b s) + bytes\<rparr>\<rparr>
                          else
                            s\<lparr>peer_b := (peer_b s)\<lparr>bytes_sent := bytes_sent (peer_b s) + bytes\<rparr>,
                              peer_a := (peer_a s)\<lparr>bytes_received := bytes_received (peer_a s) + bytes\<rparr>\<rparr>)
                 in (Inr (), r\<lparr>sessions := (sessions r)(sid \<mapsto> s)\<rparr>))"

definition close_session :: "u64 \<Rightarrow> RelayService \<Rightarrow> RelayService" where
  "close_session sid r =
     (case sessions r sid of
        Some s \<Rightarrow> r\<lparr>sessions := (sessions r)(sid \<mapsto> s\<lparr>rs_state := Closed\<rparr>)\<rparr>
      | None \<Rightarrow> r)"

definition get_session :: "u64 \<Rightarrow> RelayService \<Rightarrow> RelaySession option" where
  "get_session sid r = sessions r sid"

definition get_forward_addr :: "u64 \<Rightarrow> PeerId \<Rightarrow> RelayService \<Rightarrow> SocketAddr option" where
  "get_forward_addr sid from_peer r =
     (case sessions r sid of
        None \<Rightarrow> None
      | Some s \<Rightarrow>
          if rs_state s \<noteq> SActive then None
          else if rp_peer_id (peer_a s) = from_peer then Some (rp_addr (peer_b s))
          else if rp_peer_id (peer_b s) = from_peer then Some (rp_addr (peer_a s))
          else None)"

definition active_sessions :: "RelayService \<Rightarrow> nat" where
  "active_sessions r = card {i. \<exists>s. sessions r i = Some s \<and> rs_state s = SActive}"

definition total_sessions :: "RelayService \<Rightarrow> nat" where
  "total_sessions r = card (dom (sessions r))"

subsection \<open>The step relation\<close>

inductive relay_step :: "RelayService \<Rightarrow> RelayService \<Rightarrow> bool" where
  Create: "relay_step r (snd (create_session now pa aa pb ab r))"
| Activate: "relay_step r (snd (activate_session now sid r))"
| Record: "relay_step r (snd (relay_record now sid n from_a r))"
| Close: "relay_step r (close_session sid r)"
| Cleanup: "relay_step r (snd (cleanup_expired now r))"

inductive_cases relay_stepE: "relay_step r r'"

text \<open>What a step does to one session: it may appear as a new pending one under the next identifier,
  disappear, or change by one of the three updates; no step makes a closed session anything else.\<close>

definition traffic_ok :: "RelaySession \<Rightarrow> bool" where
  "traffic_ok s \<longleftrightarrow> bytes_sent (peer_a s) = bytes_received (peer_b s) \<and>
     bytes_sent (peer_b s) = bytes_received (peer_a s) \<and>
     bytes_relayed s = bytes_sent (peer_a s) + bytes_sent (peer_b s)"

definition relay_inv :: "RelayService \<Rightarrow> bool" where
  "relay_inv r \<longleftrightarrow> finite (dom (sessions r)) \<and> card (dom (sessions r)) \<le> max_sessions (relay_config r) \<and>
     (\<forall>i s. sessions r i = Some s \<longrightarrow> session_id s = i \<and> traffic_ok s)"

lemma cleanup_sessions:
  "sessions (snd (cleanup_expired now r)) i = (case sessions r i of
     Some s \<Rightarrow> if session_expired (relay_config r) now s then None else Some s | None \<Rightarrow> None)"
  "relay_config (snd (cleanup_expired now r)) = relay_config r"
  "next_session_id (snd (cleanup_expired now r)) = next_session_id r"
  by (auto simp: cleanup_expired_def Let_def restrict_map_def split: option.splits)

lemma relay_inv_cleanup: "relay_inv r \<Longrightarrow> relay_inv (snd (cleanup_expired now r))"
proof -
  assume r: "relay_inv r"
  have "dom (sessions (snd (cleanup_expired now r))) \<subseteq> dom (sessions r)"
    by (auto simp: dom_def cleanup_sessions split: option.splits if_splits)
  then have "card (dom (sessions (snd (cleanup_expired now r)))) \<le> card (dom (sessions r))"
    "finite (dom (sessions (snd (cleanup_expired now r))))"
    using r by (auto simp: relay_inv_def intro: card_mono finite_subset)
  then show ?thesis
    using r by (auto simp: relay_inv_def cleanup_sessions split: option.splits if_splits)
qed

lemma create_session_cases:
  fixes r now
  defines "r0 \<equiv> if card (dom (sessions r)) \<ge> max_sessions (relay_config r) then snd (cleanup_expired now r) else r"
  obtains (refused) "snd (create_session now pa aa pb ab r) = r0"
  | (created) s where "snd (create_session now pa aa pb ab r) =
        r0\<lparr>next_session_id := next_session_id r0 + 1, sessions := (sessions r0)(next_session_id r0 \<mapsto> s)\<rparr>"
      "card (dom (sessions r0)) < max_sessions (relay_config r0)" "rs_state s = Pending"
      "session_id s = next_session_id r0" "traffic_ok s"
proof (cases "max_sessions (relay_config r0) \<le> card (dom (sessions r0))")
  case True
  then show ?thesis by (intro refused) (simp add: create_session_def Let_def r0_def)
next
  case False
  let ?s = "\<lparr>session_id = next_session_id r0, peer_a = RelayPeer_new pa aa, peer_b = RelayPeer_new pb ab,
    created_at = now, last_activity = now, bytes_relayed = 0, rs_state = Pending\<rparr>"
  show ?thesis
    using False by (intro created [of ?s]) (simp_all add: create_session_def Let_def r0_def traffic_ok_def RelayPeer_new_def)
qed

lemma relay_inv_update:
  assumes "relay_inv r" "sessions r i = Some s0" "session_id s = i" "traffic_ok s"
  shows "relay_inv (r\<lparr>sessions := (sessions r)(i \<mapsto> s)\<rparr>)"
proof -
  have "insert i (dom (sessions r)) = dom (sessions r)" using assms(2) by auto
  then show ?thesis using assms(1,3,4) by (auto simp: relay_inv_def)
qed

lemma relay_inv_step: "relay_step r r' \<Longrightarrow> relay_inv r \<Longrightarrow> relay_inv r'"
proof (induction rule: relay_step.induct)
  case (Create r now pa aa pb ab)
  let ?r0 = "if card (dom (sessions r)) \<ge> max_sessions (relay_config r) then snd (cleanup_expired now r) else r"
  have r0: "relay_inv ?r0" using Create by (simp add: relay_inv_cleanup)
  show ?case
  proof (cases rule: create_session_cases [where r = r and now = now and pa = pa and aa = aa and pb = pb and ab = ab])
    case refused
    then show ?thesis using r0 by simp
  next
    case (created s)
    have "card (insert (next_session_id ?r0) (dom (sessions ?r0))) \<le> Suc (card (dom (sessions ?r0)))"
      by (rule card_insert_le_m1) simp_all
    then show ?thesis
      using r0 created(2-5) unfolding created(1) by (auto simp: relay_inv_def)
  qed
next
  case (Activate r now sid)
  show ?case
  proof (cases "sessions r sid")
    case (Some s)
    then have "session_id s = sid" "traffic_ok s" using Activate by (auto simp: relay_inv_def)
    then show ?thesis
      using Activate Some by (auto simp: activate_session_def traffic_ok_def intro!: relay_inv_update)
  qed (use Activate in \<open>simp add: activate_session_def\<close>)
next
  case (Record r now sid n from_a)
  show ?case
  proof (cases "sessions r sid")
    case (Some s)
    then have s: "session_id s = sid" "traffic_ok s" using Record by (auto simp: relay_inv_def)
    show ?thesis
      using Record Some s by (auto simp: relay_record_def Let_def traffic_ok_def intro!: relay_inv_update)
  qed (use Record in \<open>simp add: relay_record_def\<close>)
next
  case (Close r sid)
  show ?case
  proof (cases "sessions r sid")
    case (Some s)
    then have "session_id s = sid" "traffic_ok s" using Close by (auto simp: relay_inv_def)
    then show ?thesis
      using Close Some by (auto simp: close_session_def traffic_ok_def intro!: relay_inv_update)
  qed (use Close in \<open>simp add: close_session_def\<close>)
next
  case (Cleanup r now)
  then show ?case by (rule relay_inv_cleanup)
qed

text \<open>A session that is gone or closed stays so, unless the identifiers wrap.\<close>

definition finished :: "u64 \<Rightarrow> RelayService \<Rightarrow> bool" where
  "finished i r \<longleftrightarrow> (\<forall>s. sessions r i = Some s \<longrightarrow> rs_state s = Closed)"

lemma finished_step:
  assumes "relay_step r r'" "finished i r" "unat i < unat (next_session_id r)" "Suc (unat (next_session_id r)) < 2 ^ 64"
  shows "finished i r' \<and> unat (next_session_id r) \<le> unat (next_session_id r') \<and>
    unat (next_session_id r') \<le> Suc (unat (next_session_id r))"
  using assms
proof (induction rule: relay_step.induct)
  case (Create r now pa aa pb ab)
  have inc: "unat (next_session_id r + 1) = Suc (unat (next_session_id r))"
    using Create.prems(3) by (simp add: unat_word_ariths)
  have ne: "i \<noteq> next_session_id r" using Create.prems(2) by auto
  have fin: "finished i (snd (cleanup_expired now r))"
    using Create.prems(1) by (auto simp: finished_def cleanup_sessions split: option.splits if_splits)
  show ?case
    using Create.prems(1) fin ne inc
    by (cases rule: create_session_cases [where r = r and now = now and pa = pa and aa = aa and pb = pb and ab = ab])
      (auto simp: finished_def cleanup_sessions split: if_splits)
next
  case (Activate r now sid)
  then show ?case by (auto simp: activate_session_def finished_def split: option.splits)
next
  case (Record r now sid n from_a)
  then show ?case by (auto simp: relay_record_def finished_def Let_def split: option.splits)
next
  case (Close r sid)
  then show ?case by (auto simp: close_session_def finished_def split: option.splits)
next
  case (Cleanup r now)
  then show ?case by (auto simp: finished_def cleanup_sessions split: option.splits if_splits)
qed

lemma finished_steps:
  assumes "(relay_step ^^ n) r r'" "finished i r" "unat i < unat (next_session_id r)"
    "unat (next_session_id r) + n < 2 ^ 64"
  shows "finished i r' \<and> unat i < unat (next_session_id r') \<and> unat (next_session_id r') \<le> unat (next_session_id r) + n"
  using assms
proof (induction n arbitrary: r')
  case (Suc n)
  then obtain m where m: "(relay_step ^^ n) r m" "relay_step m r'" by auto
  have ih: "finished i m \<and> unat i < unat (next_session_id m) \<and> unat (next_session_id m) \<le> unat (next_session_id r) + n"
    using Suc.IH [OF m(1) Suc.prems(2,3)] Suc.prems(4) by linarith
  have "Suc (unat (next_session_id m)) < 2 ^ 64" using ih Suc.prems(4) by linarith
  then show ?case using finished_step [OF m(2), of i] ih by auto
qed simp

subsection \<open>Correctness of the relay\<close>

text \<open>C32. In every reachable state the service holds at most \<open>max_sessions\<close> sessions, each under its own
  identifier, and the byte counts agree: what one peer sent is what the other received, and the total is
  the sum of the two directions, modulo the width of the counters.\<close>

theorem relay_invariant:
  assumes "relay_step\<^sup>*\<^sup>* (RelayService_new cfg) r"
  shows "total_sessions r \<le> max_sessions (relay_config r) \<and> (\<forall>i s. get_session i r = Some s \<longrightarrow>
    session_id s = i \<and> bytes_sent (peer_a s) = bytes_received (peer_b s) \<and>
    bytes_sent (peer_b s) = bytes_received (peer_a s) \<and>
    bytes_relayed s = bytes_sent (peer_a s) + bytes_sent (peer_b s))"
proof -
  have "relay_inv r"
    using assms
  proof (induction rule: rtranclp_induct)
    case base
    then show ?case by (simp add: relay_inv_def RelayService_new_def)
  next
    case (step y z)
    then show ?case using relay_inv_step by blast
  qed
  then show ?thesis by (simp add: relay_inv_def total_sessions_def get_session_def traffic_ok_def)
qed

theorem relay_invariant_witness:
  "total_sessions (snd (create_session 5 (PeerId [1]) (SockV4 [1, 2, 3, 4] 80) (PeerId [2]) (SockV4 [1, 2, 3, 5] 80)
     (RelayService_new RelayConfig_default))) \<le>
   max_sessions (relay_config (snd (create_session 5 (PeerId [1]) (SockV4 [1, 2, 3, 4] 80) (PeerId [2]) (SockV4 [1, 2, 3, 5] 80)
     (RelayService_new RelayConfig_default))))"
  using relay_invariant [OF r_into_rtranclp [of relay_step, OF relay_step.Create [of "RelayService_new RelayConfig_default" 5 "PeerId [1]"
      "SockV4 [1, 2, 3, 4] 80" "PeerId [2]" "SockV4 [1, 2, 3, 5] 80"]]] by blast

text \<open>Closing a session is final: whatever is called afterwards, as long as the 64 bit identifiers do not
  wrap, no packet is forwarded, no traffic is recorded and the session cannot be activated again.\<close>

lemma closed_session_final:
  assumes "(relay_step ^^ n) (close_session sid r) r'"
    and "unat sid < unat (next_session_id r)" "unat (next_session_id r) + n < 2 ^ 64"
  shows "get_forward_addr sid p r' = None \<and> fst (relay_record now sid k from_a r') \<noteq> Inr () \<and>
    fst (activate_session now sid r') \<noteq> Inr ()"
proof -
  have "finished sid (close_session sid r)" "next_session_id (close_session sid r) = next_session_id r"
    by (auto simp: finished_def close_session_def split: option.splits)
  then have "finished sid r'" using finished_steps [OF assms(1)] assms(2,3) by simp
  then show ?thesis
    by (auto simp: finished_def get_forward_addr_def relay_record_def activate_session_def split: option.splits)
qed

text \<open>A session that has outlived its maximal duration, or that has been idle for too long, still forwards
  and still records traffic: the limits only decide what \<open>cleanup_expired\<close> removes, and it is called only
  when the service is full.\<close>

lemma expired_session_still_relays:
  assumes "sessions r sid = Some s" "rs_state s = SActive" "bytes_relayed s = 0"
  shows "fst (relay_record now sid n from_a r) = Inr () \<and>
    get_forward_addr sid (rp_peer_id (peer_a s)) r = Some (rp_addr (peer_b s))"
  using assms unsigned_real_nonneg [of "max_bandwidth_bps (relay_config r)"]
  by (auto simp: relay_record_def get_forward_addr_def Let_def simp del: unsigned_real_nonneg)

end
