(* ===== verification/Stun.thy ===== *)
theory Stun
  imports Relay Buf
begin

text \<open>
  \<open>ceky-nat\<close>: the STUN client (\<open>stun.rs\<close>), the classification of NATs (\<open>detection.rs\<close>) and UDP hole
  punching (\<open>hole_punch.rs\<close>).  The sockets are parameters: functions from what is sent to what comes
  back.
\<close>

subsection \<open>STUN messages\<close>

definition MAGIC_COOKIE :: u32 where "MAGIC_COOKIE = 0x2112A442"
definition BINDING_REQUEST :: u16 where "BINDING_REQUEST = 0x0001"
definition BINDING_RESPONSE :: u16 where "BINDING_RESPONSE = 0x0101"
definition ATTR_MAPPED_ADDRESS :: u16 where "ATTR_MAPPED_ADDRESS = 0x0001"
definition ATTR_XOR_MAPPED_ADDRESS :: u16 where "ATTR_XOR_MAPPED_ADDRESS = 0x0020"
definition STUN_HEADER_SIZE :: nat where "STUN_HEADER_SIZE = 20"
definition DEFAULT_TIMEOUT :: time where "DEFAULT_TIMEOUT = 3 * NANOS"
definition MAX_RESPONSE_SIZE :: nat where "MAX_RESPONSE_SIZE = 576"

definition generate_transaction_id :: "u128 \<Rightarrow> byte list" where
  "generate_transaction_id seed = map (\<lambda>i. ucast (drop_bit (i * 8) seed AND 0xFF)) [0 ..< 12]"

definition build_binding_request :: "byte list \<Rightarrow> byte list" where
  "build_binding_request txn_id =
     be_bytes 2 BINDING_REQUEST @ be_bytes 2 (0 :: u16) @ be_bytes 4 MAGIC_COOKIE @ txn_id"

definition hex_str :: "nat \<Rightarrow> nat \<Rightarrow> string" where
  "hex_str w n = map (\<lambda>i. ''0123456789abcdef'' ! (n div 16 ^ i mod 16)) (rev [0 ..< w])"

definition parse_mapped_address :: "byte list \<Rightarrow> (NatError, SocketAddr) res" where
  "parse_mapped_address dat =
     (if length dat < 8 then Inl (Err (StunFailed ''MAPPED-ADDRESS too short''))
      else
        bindR (ix dat 1) (\<lambda>family.
        bindR (ixs dat [2, 3]) (\<lambda>p.
        if family = 0x01 then bindR (ixs dat [4, 5, 6, 7]) (\<lambda>ip. Inr (SockV4 ip (of_be p)))
        else Inl (Err (StunFailed (''unsupported address family: 0x'' @ hex_str 2 (unat family)))))))"

definition parse_xor_mapped_address :: "byte list \<Rightarrow> (NatError, SocketAddr) res" where
  "parse_xor_mapped_address dat =
     (if length dat < 8 then Inl (Err (StunFailed ''XOR-MAPPED-ADDRESS too short''))
      else
        bindR (ix dat 1) (\<lambda>family.
        bindR (ixs dat [2, 3]) (\<lambda>p.
        let port = of_be p XOR (ucast (drop_bit 16 MAGIC_COOKIE) :: u16)
        in if family = 0x01 then
             bindR (ixs dat [4, 5, 6, 7]) (\<lambda>ip. Inr (SockV4 (map2 (XOR) ip (be_bytes 4 MAGIC_COOKIE)) port))
           else Inl (Err (StunFailed (''unsupported address family: 0x'' @ hex_str 2 (unat family)))))))"

text \<open>The loop over the attributes of a response; \<open>(attr_len + 3) & !3\<close> is the next multiple of 4.\<close>

function parse_attributes :: "byte list \<Rightarrow> nat \<Rightarrow> nat \<Rightarrow> (NatError, SocketAddr) res" where
  "parse_attributes dat stop offset =
     (if offset + 4 \<le> stop then
        case ixs dat [offset, offset + 1] of Inl e \<Rightarrow> Inl e | Inr t \<Rightarrow>
        case ixs dat [offset + 2, offset + 3] of Inl e \<Rightarrow> Inl e | Inr l \<Rightarrow>
          let attr_type = of_be t :: u16; attr_len = unat (of_be l :: u16); off = offset + 4
          in if off + attr_len > stop then Inl (Err (StunFailed ''no mapped address in response''))
             else if attr_type = ATTR_XOR_MAPPED_ADDRESS then
               bindR (ixs dat [off ..< off + attr_len]) parse_xor_mapped_address
             else if attr_type = ATTR_MAPPED_ADDRESS then
               bindR (ixs dat [off ..< off + attr_len]) parse_mapped_address
             else parse_attributes dat stop (off + (attr_len + 3) div 4 * 4)
      else Inl (Err (StunFailed ''no mapped address in response'')))"
  by pat_completeness auto
termination by (relation "measure (\<lambda>(dat, stop, offset). stop - offset)") auto

declare parse_attributes.simps [simp del]

definition parse_binding_response :: "byte list \<Rightarrow> byte list \<Rightarrow> (NatError, SocketAddr) res" where
  "parse_binding_response dat expected_txn_id =
     (if length dat < STUN_HEADER_SIZE then
        Inl (Err (StunFailed (''response too short: '' @ show_nat (length dat) @ '' bytes'')))
      else
        bindR (ixs dat [0, 1]) (\<lambda>t.
        let msg_type = of_be t :: u16
        in if msg_type \<noteq> BINDING_RESPONSE then
             Inl (Err (StunFailed (''unexpected message type: 0x'' @ hex_str 4 (unat msg_type))))
           else
             bindR (ixs dat [4, 5, 6, 7]) (\<lambda>c.
             let cookie = of_be c :: u32
             in if cookie \<noteq> MAGIC_COOKIE then
                  Inl (Err (StunFailed (''invalid magic cookie: 0x'' @ hex_str 8 (unat cookie))))
                else
                  bindR (ixs dat [8 ..< 20]) (\<lambda>txn.
                  if txn \<noteq> expected_txn_id then Inl (Err (StunFailed ''transaction ID mismatch''))
                  else
                    bindR (ixs dat [2, 3]) (\<lambda>l.
                    let msg_len = unat (of_be l :: u16)
                    in if length dat < STUN_HEADER_SIZE + msg_len then
                         Inl (Err (StunFailed ''truncated response''))
                       else parse_attributes dat (STUN_HEADER_SIZE + msg_len) STUN_HEADER_SIZE)))))"

subsection \<open>The client\<close>

record StunResult =
  mapped_addr :: SocketAddr
  server_addr :: SocketAddr

record StunClient =
  servers :: "SocketAddr list"
  stun_timeout :: time

definition default_stun_servers :: "SocketAddr list" where
  "default_stun_servers = [SockV4 [74, 125, 250, 129] 19302, SockV4 [64, 233, 163, 127] 19302]"

definition StunClient_new :: StunClient where
  "StunClient_new = \<lparr>servers = default_stun_servers, stun_timeout = DEFAULT_TIMEOUT\<rparr>"

definition with_servers :: "SocketAddr list \<Rightarrow> StunClient" where
  "with_servers ss = \<lparr>servers = ss, stun_timeout = DEFAULT_TIMEOUT\<rparr>"

definition with_timeout :: "StunClient \<Rightarrow> time \<Rightarrow> StunClient" where
  "with_timeout c t = c\<lparr>stun_timeout := t\<rparr>"

text \<open>\<open>net server request\<close>: sending fails, or nothing arrives in time, or a datagram arrives.\<close>

datatype exchange = SendErr | RecvErr | NoReply | Reply "byte list" SocketAddr

definition probe :: "(SocketAddr \<Rightarrow> byte list \<Rightarrow> exchange) \<Rightarrow> StunClient \<Rightarrow> u128 \<Rightarrow> SocketAddr \<Rightarrow>
    (NatError, StunResult) res" where
  "probe net c seed server =
     (let txn_id = generate_transaction_id seed
      in case net server (build_binding_request txn_id) of
           SendErr \<Rightarrow> Inl (Err NatIo)
         | RecvErr \<Rightarrow> Inl (Err NatIo)
         | NoReply \<Rightarrow> Inl (Err (StunTimeout (of_nat (stun_timeout c div 1000000))))
         | Reply buf from \<Rightarrow>
             bindR (parse_binding_response (take MAX_RESPONSE_SIZE buf) txn_id) (\<lambda>a.
             Inr \<lparr>mapped_addr = a, server_addr = from\<rparr>))"

fun try_servers :: "(SocketAddr \<Rightarrow> byte list \<Rightarrow> exchange) \<Rightarrow> StunClient \<Rightarrow> (nat \<Rightarrow> u128) \<Rightarrow> nat \<Rightarrow>
    SocketAddr list \<Rightarrow> (NatError, StunResult) res" where
  "try_servers net c clock n [] = Inl (Err (StunFailed ''all STUN servers failed''))"
| "try_servers net c clock n (s # ss) =
     (case probe net c (clock n) s of
        Inr r \<Rightarrow> Inr r
      | Inl Panic \<Rightarrow> Inl Panic
      | Inl (Err _) \<Rightarrow> try_servers net c clock (n + 1) ss)"

text \<open>\<open>clock n\<close> is the time at the \<open>n\<close>-th probe.\<close>

definition discover :: "(SocketAddr \<Rightarrow> byte list \<Rightarrow> exchange) \<Rightarrow> StunClient \<Rightarrow> (nat \<Rightarrow> u128) \<Rightarrow>
    (NatError, StunResult) res" where
  "discover net c clock =
     (if servers c = [] then Inl (Err NoStunServers) else try_servers net c clock 0 (servers c))"

subsection \<open>NAT detection\<close>

datatype NatType = NoNat | FullCone | Restricted | PortRestricted | Symmetric | UnknownNat

definition supports_hole_punch :: "NatType \<Rightarrow> bool" where
  "supports_hole_punch t \<longleftrightarrow> t \<in> {NoNat, FullCone, Restricted, PortRestricted}"

primrec NatType_description :: "NatType \<Rightarrow> string" where
  "NatType_description NoNat = ''No NAT (public IP)''"
| "NatType_description FullCone = ''Full Cone NAT''"
| "NatType_description Restricted = ''Address-Restricted Cone NAT''"
| "NatType_description PortRestricted = ''Port-Restricted Cone NAT''"
| "NatType_description Symmetric = ''Symmetric NAT (relay required)''"
| "NatType_description UnknownNat = ''Unknown NAT type''"

record NatInfo =
  nat_type :: NatType
  external_addr :: "SocketAddr option"
  local_addr :: SocketAddr
  hole_punch_capable :: bool

definition sock_ip :: "SocketAddr \<Rightarrow> bool \<times> byte list" where
  "sock_ip a = (case a of SockV4 ip p \<Rightarrow> (True, ip) | SockV6 ip p fl sc \<Rightarrow> (False, ip))"

text \<open>\<open>detect\<close> and \<open>classify\<close> of \<open>NatDetector\<close>; the local address of the socket may be unknown.\<close>

definition detect :: "(SocketAddr \<Rightarrow> byte list \<Rightarrow> exchange) \<Rightarrow> StunClient \<Rightarrow> (nat \<Rightarrow> u128) \<Rightarrow> SocketAddr option \<Rightarrow>
    (NatError, NatInfo) res" where
  "detect net c clock socket_addr =
     (case socket_addr of
        None \<Rightarrow> Inl (Err NatIo)
      | Some a \<Rightarrow>
          (case discover net c clock of
             Inr r \<Rightarrow>
               let mapped = mapped_addr r
               in if sock_ip mapped = sock_ip a \<and> port mapped = port a then
                    Inr \<lparr>nat_type = NoNat, external_addr = Some mapped, local_addr = a, hole_punch_capable = True\<rparr>
                  else
                    Inr \<lparr>nat_type = Restricted, external_addr = Some mapped, local_addr = a,
                      hole_punch_capable = supports_hole_punch Restricted\<rparr>
           | Inl Panic \<Rightarrow> Inl Panic
           | Inl (Err _) \<Rightarrow>
               Inr \<lparr>nat_type = UnknownNat, external_addr = None, local_addr = a, hole_punch_capable = False\<rparr>))"

definition classify :: "SocketAddr \<Rightarrow> StunResult \<Rightarrow> StunResult option \<Rightarrow> NatType" where
  "classify a probe1 probe2 =
     (if sock_ip (mapped_addr probe1) = sock_ip a then NoNat
      else case probe2 of
             Some p2 \<Rightarrow>
               if mapped_addr probe1 = mapped_addr p2 then Restricted
               else if sock_ip (mapped_addr probe1) = sock_ip (mapped_addr p2) \<and>
                       port (mapped_addr probe1) \<noteq> port (mapped_addr p2) then PortRestricted
               else Symmetric
           | None \<Rightarrow> Restricted)"

subsection \<open>Hole punching\<close>

record HolePunchConfig =
  packets_per_round :: nat
  packet_interval :: time
  max_rounds :: nat
  round_timeout :: time
  punch_magic :: "byte list"

definition HolePunchConfig_default :: HolePunchConfig where
  "HolePunchConfig_default = \<lparr>packets_per_round = 3, packet_interval = 50 * 1000000, max_rounds = 10,
     round_timeout = 500 * 1000000, punch_magic = [0x43, 0x45, 0x4B, 0x59]\<rparr>"

record HolePunchResult =
  hp_peer_addr :: SocketAddr
  hp_duration :: time
  rounds :: nat

definition build_punch_packet :: "HolePunchConfig \<Rightarrow> u32 \<Rightarrow> u32 \<Rightarrow> byte list" where
  "build_punch_packet cfg rnd seqn = punch_magic cfg @ be_bytes 4 rnd @ be_bytes 4 seqn"

definition is_punch_packet :: "HolePunchConfig \<Rightarrow> byte list \<Rightarrow> bool" where
  "is_punch_packet cfg dat \<longleftrightarrow> length dat \<ge> 4 \<and> take 4 dat = punch_magic cfg"

text \<open>One rnd after the other: \<open>net\<close> answers what a rnd sent, \<open>clock\<close> is the time since the start.
  The packets sent are returned with the result.\<close>

fun punch_rounds :: "HolePunchConfig \<Rightarrow> (nat \<Rightarrow> exchange) \<Rightarrow> (nat \<Rightarrow> time) \<Rightarrow> nat \<Rightarrow> nat \<Rightarrow>
    byte list list \<times> HolePunchResult option" where
  "punch_rounds cfg net clock rnd 0 = ([], None)"
| "punch_rounds cfg net clock rnd (Suc togo) =
     (let sent = map (\<lambda>i. build_punch_packet cfg (of_nat rnd) (of_nat i)) [0 ..< packets_per_round cfg]
      in case net rnd of
           Reply buf from \<Rightarrow>
             if is_punch_packet cfg (take 64 buf) then
               (sent, Some \<lparr>hp_peer_addr = from, hp_duration = clock rnd, rounds = rnd + 1\<rparr>)
             else apfst ((@) sent) (punch_rounds cfg net clock (rnd + 1) togo)
         | _ \<Rightarrow> apfst ((@) sent) (punch_rounds cfg net clock (rnd + 1) togo))"

definition punch :: "HolePunchConfig \<Rightarrow> (nat \<Rightarrow> exchange) \<Rightarrow> (nat \<Rightarrow> time) \<Rightarrow> string \<Rightarrow>
    byte list list \<times> (NatError, HolePunchResult) res" where
  "punch cfg net clock remote_external =
     (case punch_rounds cfg net clock 0 (max_rounds cfg) of
        (sent, Some r) \<Rightarrow> (sent, Inr r)
      | (sent, None) \<Rightarrow> (sent, Inl (Err (HolePunchFailed
          (''no response after '' @ show_nat (max_rounds cfg) @ '' rounds to '' @ remote_external)))))"

subsection \<open>Responses of a server\<close>

text \<open>What a STUN server sends: attributes are padded to a multiple of four bytes.\<close>

definition stun_attr :: "u16 \<times> byte list \<Rightarrow> byte list" where
  "stun_attr a = (case a of (t, v) \<Rightarrow> be_bytes 2 t @ be_bytes 2 (of_nat (length v) :: u16) @ v @
     replicate ((length v + 3) div 4 * 4 - length v) 0)"

definition stun_response :: "byte list \<Rightarrow> (u16 \<times> byte list) list \<Rightarrow> byte list" where
  "stun_response txn attrs = (let body = concat (map stun_attr attrs) in
     be_bytes 2 BINDING_RESPONSE @ be_bytes 2 (of_nat (length body) :: u16) @ be_bytes 4 MAGIC_COOKIE @ txn @ body)"

definition xor_mapped :: "byte list \<Rightarrow> u16 \<Rightarrow> byte list" where
  "xor_mapped ip p = [0, 1] @ be_bytes 2 (p XOR (ucast (drop_bit 16 MAGIC_COOKIE) :: u16)) @
     map2 (XOR) ip (be_bytes 4 MAGIC_COOKIE)"

lemma ixs_mid:
  "length pre = a \<Longrightarrow> length xs = n \<Longrightarrow> ixs (pre @ xs @ rest) [a ..< a + n] = Inr xs"
  by (auto simp: ixs_def list_all_iff nth_append intro: nth_equalityI)

lemma ixs_mid2:
  "length pre = a \<Longrightarrow> ixs (pre @ be_bytes 2 x @ rest) [a, a + 1] = Inr (be_bytes 2 x)"
  using ixs_mid [of pre a "be_bytes 2 x" 2 rest] by (simp add: upt_rec)

lemma pad4: "n \<le> (n + 3) div 4 * (4 :: nat)"
  by presburger

lemma length_stun_attr:
  "length (stun_attr (t, v)) = 4 + (length v + 3) div 4 * 4"
  by (simp add: stun_attr_def)

text \<open>One iteration of the loop on an attribute that starts at the current offset.\<close>

lemma parse_attributes_at:
  assumes "length pre = offset" "length v < 2 ^ 16" "offset + length (stun_attr (t, v)) \<le> stop"
  shows "parse_attributes (pre @ stun_attr (t, v) @ rest) stop offset =
    (if t = ATTR_XOR_MAPPED_ADDRESS then parse_xor_mapped_address v
     else if t = ATTR_MAPPED_ADDRESS then parse_mapped_address v
     else parse_attributes (pre @ stun_attr (t, v) @ rest) stop (offset + length (stun_attr (t, v))))"
proof -
  let ?pad = "replicate ((length v + 3) div 4 * 4 - length v) 0 :: byte list"
  let ?l = "of_nat (length v) :: u16"
  have l: "unat ?l = length v" using assms(2) by (simp add: unat_of_nat take_bit_eq_mod)
  have d: "pre @ stun_attr (t, v) @ rest = pre @ be_bytes 2 t @ be_bytes 2 ?l @ v @ ?pad @ rest"
    by (simp add: stun_attr_def)
  have t: "ixs (pre @ be_bytes 2 t @ be_bytes 2 ?l @ v @ ?pad @ rest) [offset, offset + 1] =
      (Inr (be_bytes 2 t) :: (NatError, byte list) res)"
    by (rule ixs_mid2 [OF assms(1)])
  have ll: "ixs (pre @ be_bytes 2 t @ be_bytes 2 ?l @ v @ ?pad @ rest) [offset + 2, offset + 3] =
      (Inr (be_bytes 2 ?l) :: (NatError, byte list) res)"
  proof -
    have e: "offset + 2 + 1 = offset + 3" by simp
    show ?thesis
      using ixs_mid2 [of "pre @ be_bytes 2 t" "offset + 2" ?l "v @ ?pad @ rest"] assms(1)
      unfolding e append_assoc by (simp del: ixs_in)
  qed
  have v: "ixs (pre @ be_bytes 2 t @ be_bytes 2 ?l @ v @ ?pad @ rest) [offset + 4 ..< offset + 4 + length v] =
      (Inr v :: (NatError, byte list) res)"
    using ixs_mid [of "pre @ be_bytes 2 t @ be_bytes 2 ?l" "offset + 4" v "length v" "?pad @ rest"] assms(1) by simp
  have "length v \<le> (length v + 3) div 4 * 4" by (rule pad4)
  then have "offset + 4 \<le> stop" "offset + 4 + length v \<le> stop" using assms(3) by (simp_all add: length_stun_attr)
  then show ?thesis
    unfolding d parse_attributes.simps [of _ stop offset] t ll sum.case Let_def of_be_be_bytes_widths l v
    by (simp add: length_stun_attr add.assoc)
qed

lemma parse_attributes_skip:
  assumes "\<forall>(t, v) \<in> set attrs. t \<noteq> ATTR_XOR_MAPPED_ADDRESS \<and> t \<noteq> ATTR_MAPPED_ADDRESS \<and> length v < 2 ^ 16"
    and "length pre = offset" "offset + length (concat (map stun_attr attrs)) \<le> stop"
  shows "parse_attributes (pre @ concat (map stun_attr attrs) @ rest) stop offset =
    parse_attributes (pre @ concat (map stun_attr attrs) @ rest) stop (offset + length (concat (map stun_attr attrs)))"
  using assms
proof (induction attrs arbitrary: pre offset)
  case (Cons a attrs)
  obtain t v where a: "a = (t, v)" by (cases a)
  have "parse_attributes (pre @ stun_attr a @ concat (map stun_attr attrs) @ rest) stop offset =
      parse_attributes (pre @ stun_attr a @ concat (map stun_attr attrs) @ rest) stop (offset + length (stun_attr a))"
    using parse_attributes_at [OF Cons.prems(2), of v t stop "concat (map stun_attr attrs) @ rest"] Cons.prems(1,3)
    by (simp add: a)
  moreover have "parse_attributes ((pre @ stun_attr a) @ concat (map stun_attr attrs) @ rest) stop (offset + length (stun_attr a)) =
      parse_attributes ((pre @ stun_attr a) @ concat (map stun_attr attrs) @ rest) stop
        (offset + length (stun_attr a) + length (concat (map stun_attr attrs)))"
    using Cons.prems by (intro Cons.IH) (auto simp: a)
  ultimately show ?case by (simp add: add.assoc)
qed simp

lemma xor_mapped_parsed: "length ip = 4 \<Longrightarrow> parse_xor_mapped_address (xor_mapped ip p) = Inr (SockV4 ip p)"
proof -
  assume ip: "length ip = 4"
  let ?x = "map2 (XOR) ip (be_bytes 4 MAGIC_COOKIE)" and ?q = "p XOR (ucast (drop_bit 16 MAGIC_COOKIE) :: u16)"
  have len: "length ?x = 4" using ip by simp
  have again: "map2 (XOR) ?x (be_bytes 4 MAGIC_COOKIE) = ip"
    using ip by (intro nth_equalityI) (simp_all add: xor.assoc)
  have "ixs (xor_mapped ip p) [2, 3] = Inr (be_bytes 2 ?q)"
    using ixs_mid2 [of "[0, 1]" 2 ?q ?x] by (simp add: xor_mapped_def)
  moreover have "ixs (xor_mapped ip p) [4, 5, 6, 7] = Inr ?x"
    using ixs_mid [of "[0, 1] @ be_bytes 2 ?q" 4 ?x 4 "[]"] len by (simp add: xor_mapped_def upt_rec)
  moreover have "ix (xor_mapped ip p) 1 = Inr 1" "length (xor_mapped ip p) = 8"
    using ip by (simp_all add: xor_mapped_def ix_def)
  ultimately show ?thesis
    by (simp add: parse_xor_mapped_address_def again wire_simps xor.assoc)
qed

lemma parse_addresses_no_panic [no_panic]:
  "parse_mapped_address dat \<noteq> Inl Panic" "parse_xor_mapped_address dat \<noteq> Inl Panic"
  by (auto simp: parse_mapped_address_def parse_xor_mapped_address_def Let_def)

lemma parse_attributes_no_panic [no_panic]: "stop \<le> length dat \<Longrightarrow> parse_attributes dat stop offset \<noteq> Inl Panic"
proof (induction dat stop offset rule: parse_attributes.induct)
  case (1 dat stop offset)
  show ?case
  proof (cases "offset + 4 \<le> stop")
    case True
    let ?l = "unat (of_be [dat ! (offset + 2), dat ! (offset + 3)] :: u16)"
    have "ixs dat [offset, offset + 1] = Inr [dat ! offset, dat ! (offset + 1)]"
      "ixs dat [offset + 2, offset + 3] = Inr [dat ! (offset + 2), dat ! (offset + 3)]"
      using True "1.prems" by (simp_all add: ixs_def)
    moreover have "list_all (\<lambda>i. i < length dat) [offset + 4 ..< offset + 4 + ?l]" if "offset + 4 + ?l \<le> stop"
      using that "1.prems" by (auto simp: list_all_iff)
    ultimately show ?thesis
      using "1.IH" [OF True] "1.prems" True
      by (subst parse_attributes.simps) (auto simp: Let_def no_panic ixs_def)
  qed (simp add: parse_attributes.simps)
qed

lemma parse_binding_response_no_panic [no_panic]: "parse_binding_response dat txn \<noteq> Inl Panic"
proof (cases "length dat < STUN_HEADER_SIZE")
  case False
  then have "list_all (\<lambda>i. i < length dat) [8 ..< 20]" by (auto simp: list_all_iff STUN_HEADER_SIZE_def)
  then show ?thesis
    using False by (auto simp: parse_binding_response_def Let_def no_panic ixs_def STUN_HEADER_SIZE_def)
qed (simp add: parse_binding_response_def)

text \<open>What they yield is an address.\<close>

lemma ixs_Inr_length: "ixs xs js = Inr ys \<Longrightarrow> length ys = length js"
  by (auto simp: ixs_def split: if_splits)

lemma parse_addresses_sock:
  "parse_mapped_address dat = Inr a \<Longrightarrow> sock_ok a" "parse_xor_mapped_address dat = Inr a \<Longrightarrow> sock_ok a"
  by (auto simp: parse_mapped_address_def parse_xor_mapped_address_def Let_def bindR_Inr_iff dest!: ixs_Inr_length
      split: if_splits)

lemma parse_attributes_sock: "parse_attributes dat stop offset = Inr a \<Longrightarrow> sock_ok a"
proof (induction dat stop offset rule: parse_attributes.induct)
  case (1 dat stop offset)
  from "1.prems" "1.IH" show ?case
    by (subst (asm) parse_attributes.simps)
      (auto simp: Let_def bindR_Inr_iff intro: parse_addresses_sock split: if_splits sum.splits)
qed

lemma parse_binding_response_yields: "yields sock_ok (parse_binding_response dat txn)"
proof (rule yieldsI [OF parse_binding_response_no_panic])
  show "parse_binding_response dat txn = Inr a \<Longrightarrow> sock_ok a" for a
    by (auto simp: parse_binding_response_def Let_def bindR_Inr_iff intro: parse_attributes_sock split: if_splits)
qed

lemma parse_binding_response_txn:
  assumes "parse_binding_response dat txn = Inr a"
  shows "take 12 (drop 8 dat) = txn"
proof -
  have len: "20 \<le> length dat" and txn: "ixs dat [8 ..< 20] = (Inr txn :: (NatError, byte list) res)"
    using assms by (auto simp: parse_binding_response_def Let_def bindR_Inr_iff STUN_HEADER_SIZE_def split: if_splits)
  have "ixs (take 8 dat @ take 12 (drop 8 dat) @ drop 20 dat) [8 ..< 8 + 12] = (Inr (take 12 (drop 8 dat)) :: (NatError, byte list) res)"
    using len by (intro ixs_mid) simp_all
  moreover have "take 8 dat @ take 12 (drop 8 dat) @ drop 20 dat = dat"
  proof -
    have "drop 20 dat = drop 12 (drop 8 dat)" by simp
    then show ?thesis by (simp only: append_take_drop_id)
  qed
  ultimately show ?thesis using txn by simp
qed

definition stun_header :: "byte list \<Rightarrow> nat \<Rightarrow> byte list" where
  "stun_header txn n = be_bytes 2 BINDING_RESPONSE @ be_bytes 2 (of_nat n :: u16) @ be_bytes 4 MAGIC_COOKIE @ txn"

lemma parse_binding_response_header:
  assumes "length txn = 12" "length body < 2 ^ 16"
  shows "parse_binding_response (stun_header txn (length body) @ body) txn =
    parse_attributes (stun_header txn (length body) @ body) (20 + length body) 20"
proof -
  let ?l = "of_nat (length body) :: u16" and ?d = "stun_header txn (length body) @ body"
  have l: "unat ?l = length body" using assms(2) by (simp add: unat_of_nat take_bit_eq_mod)
  have h: "ixs ?d [0, 0 + 1] = (Inr (be_bytes 2 BINDING_RESPONSE) :: (NatError, byte list) res)"
    "ixs ?d [2, 2 + 1] = (Inr (be_bytes 2 ?l) :: (NatError, byte list) res)"
    "ixs ?d [4 ..< 4 + 4] = (Inr (be_bytes 4 MAGIC_COOKIE) :: (NatError, byte list) res)"
    "ixs ?d [8 ..< 8 + 12] = (Inr txn :: (NatError, byte list) res)"
    using ixs_mid2 [of "[]" 0 BINDING_RESPONSE "be_bytes 2 ?l @ be_bytes 4 MAGIC_COOKIE @ txn @ body"]
      ixs_mid2 [of "be_bytes 2 BINDING_RESPONSE" 2 ?l "be_bytes 4 MAGIC_COOKIE @ txn @ body"]
      ixs_mid [of "be_bytes 2 BINDING_RESPONSE @ be_bytes 2 ?l" 4 "be_bytes 4 MAGIC_COOKIE" 4 "txn @ body"]
      ixs_mid [of "be_bytes 2 BINDING_RESPONSE @ be_bytes 2 ?l @ be_bytes 4 MAGIC_COOKIE" 8 txn 12 body] assms(1)
    by (simp_all only: stun_header_def append_assoc append_Nil length_append length_be_bytes list.size) simp_all
  have four: "[4 ..< 4 + 4] = [4, 5, 6, 7]" by (simp add: upt_rec)
  have "length ?d = 20 + length body" using assms(1) by (simp add: stun_header_def)
  then show ?thesis
    using h unfolding four parse_binding_response_def
    by (simp add: STUN_HEADER_SIZE_def l wire_simps Let_def del: ixs_in upt_Suc upt_rec_numeral)
qed

subsection \<open>Correctness of the client\<close>



text \<open>\<open>detect\<close> probes one server only, so it never reports a symmetric NAT, and always offers hole punching
  once a server has answered.\<close>

lemma detect_never_symmetric:
  assumes "detect net c clock a = Inr i"
  shows "nat_type i \<in> {NoNat, Restricted, UnknownNat} \<and> (hole_punch_capable i \<longleftrightarrow> external_addr i \<noteq> None)"
  using assms by (auto simp: detect_def Let_def supports_hole_punch_def split: option.splits sum.splits fault.splits if_splits)

text \<open>The first packet that carries the magic bytes ends hole punching, whoever sent it.\<close>

lemma punch_accepts_any_source:
  assumes "0 < max_rounds cfg" "net 0 = Reply buf from" "is_punch_packet cfg (take 64 buf)"
  shows "\<exists>r. snd (punch cfg net clock remote) = Inr r \<and> hp_peer_addr r = from"
  using assms by (cases "max_rounds cfg") (simp_all add: punch_def Let_def)

lemma punch_packets_recognised: "length (punch_magic cfg) = 4 \<Longrightarrow> is_punch_packet cfg (build_punch_packet cfg r i)"
  by (simp add: is_punch_packet_def build_punch_packet_def)

end
