(* ===== verification/Udp.thy ===== *)
theory Udp
  imports Tcp
begin

text \<open>
  \<open>ceky-transport/src/udp.rs\<close> and \<open>chaos.rs\<close>: frames in datagrams, and the stream and socket wrappers of
  the \<open>chaos\<close> feature that drop, delay and corrupt what passes.  What a socket returns and the outcomes of the
  random choices are arguments.
\<close>

subsection \<open>Datagrams\<close>

definition MAX_DATAGRAM_SIZE :: nat where "MAX_DATAGRAM_SIZE = 65535"

record UdpTransport =
  udp_local :: SocketAddr
  udp_events :: "TransportEvent list"

definition udp_bind :: "SocketAddr option \<Rightarrow> (TransportError, UdpTransport) res" where
  "udp_bind bound = (case bound of None \<Rightarrow> Inl (Err TIo) | Some a \<Rightarrow> Inr \<lparr>udp_local = a, udp_events = []\<rparr>)"

definition local_addr :: "UdpTransport \<Rightarrow> SocketAddr" where
  "local_addr t = udp_local t"

text \<open>One turn of the receiving task; a receive error leaves it as it is.  A datagram is cut to the size of
  the buffer.\<close>

definition udp_receive :: "crc_impl \<Rightarrow> (byte list \<times> SocketAddr) option \<Rightarrow> UdpTransport \<Rightarrow> UdpTransport" where
  "udp_receive crc received t =
     (case received of
        None \<Rightarrow> t
      | Some (datagram, peer_addr) \<Rightarrow>
          (case decode crc FrameCodec_new (take MAX_DATAGRAM_SIZE datagram) of
             (Inr (Some f), _) \<Rightarrow> t\<lparr>udp_events := udp_events t @ [FrameReceived peer_addr f]\<rparr>
           | (Inr None, _) \<Rightarrow> t
           | (Inl _, _) \<Rightarrow> t))"

text \<open>Sending: \<open>sock\<close> says how many bytes the socket takes of a datagram, or that it fails.\<close>

definition udp_send_to :: "crc_impl \<Rightarrow> (byte list \<Rightarrow> nat option) \<Rightarrow> Frame \<Rightarrow> (TransportError, nat) res" where
  "udp_send_to crc sock f =
     bindR (map_err TProtocol (encode crc f [])) (\<lambda>buf.
     case sock buf of None \<Rightarrow> Inl (Err TIo) | Some n \<Rightarrow> Inr n)"

definition send_raw :: "(byte list \<Rightarrow> nat option) \<Rightarrow> byte list \<Rightarrow> (TransportError, nat) res" where
  "send_raw sock dat = (case sock dat of None \<Rightarrow> Inl (Err TIo) | Some n \<Rightarrow> Inr n)"

subsection \<open>Chaos\<close>

record ChaosStream =
  drop_probability :: real
  corrupt_probability :: real
  latency_probability :: real

definition ChaosStream_new :: ChaosStream where
  "ChaosStream_new = \<lparr>drop_probability = 5 / 1000, corrupt_probability = 1 / 1000, latency_probability = 5 / 100\<rparr>"

text \<open>The bytes a poll puts into the buffer, none for the end of the stream, or pending.\<close>

datatype 'a poll = PollPending | PollReady 'a

definition corrupt_byte :: "nat \<Rightarrow> byte list \<Rightarrow> byte list" where
  "corrupt_byte idx bs = bs[idx := bs ! idx XOR 0xFF]"

text \<open>\<open>roll p\<close>: what \<open>gen_bool p\<close> returned; \<open>idx\<close>: what \<open>gen_range\<close> returned.\<close>

definition chaos_poll_read :: "(real \<Rightarrow> bool) \<Rightarrow> nat \<Rightarrow> byte list poll \<Rightarrow> ChaosStream \<Rightarrow> byte list poll" where
  "chaos_poll_read roll idx inner c =
     (if roll (drop_probability c) then PollReady []
      else if roll (latency_probability c) then PollPending
      else
        (case inner of
           PollReady bs \<Rightarrow>
             if bs \<noteq> [] \<and> roll (corrupt_probability c) then PollReady (corrupt_byte idx bs) else PollReady bs
         | PollPending \<Rightarrow> PollPending))"

definition chaos_poll_write :: "(real \<Rightarrow> bool) \<Rightarrow> (TransportError, nat) res poll \<Rightarrow> ChaosStream \<Rightarrow> (TransportError, nat) res poll" where
  "chaos_poll_write roll inner c =
     (if roll (drop_probability c) then PollReady (Inl (Err TIo))
      else if roll (latency_probability c) then PollPending
      else inner)"

definition chaos_socket_drop :: real where
  "chaos_socket_drop = 10 / 100"

text \<open>Receiving through the chaos socket: of the results of the inner socket, each with the outcome of its
  roll, the first that is not dropped; errors are never dropped.\<close>

fun chaos_recv_from :: "((byte list \<times> SocketAddr) option \<times> bool) list \<Rightarrow> (byte list \<times> SocketAddr) option option" where
  "chaos_recv_from [] = None"
| "chaos_recv_from ((r, dropped) # rs) = (if r \<noteq> None \<and> dropped then chaos_recv_from rs else Some r)"

definition chaos_send_to :: "bool \<Rightarrow> (byte list \<Rightarrow> nat option) \<Rightarrow> byte list \<Rightarrow> nat option" where
  "chaos_send_to dropped sock buf = (if dropped then Some (length buf) else sock buf)"

subsection \<open>Frames in datagrams\<close>

lemma length_wire: "length (wire crc f) = wire_size f"
  by (simp add: wire_def wire_size_def)

text \<open>A proper prefix of a frame is not a frame.\<close>

lemma decode_prefix:
  assumes "frame_ok f" "n < wire_size f"
  shows "fst (decode crc FrameCodec_new (take n (wire crc f))) = Inr None"
proof -
  let ?p = "take n (wire crc f)" and ?t = "drop n (wire crc f)"
  have whole: "decode crc FrameCodec_new (?p @ ?t) = (Inr (Some (seal crc f)), FrameCodec_new, [])"
    using decode_wire [OF assms(1), of crc "[]"] by simp
  have "?t \<noteq> []" using assms(2) by (simp add: length_wire)
  obtain r c s where d: "decode crc FrameCodec_new ?p = (r, c, s)" by (cases "decode crc FrameCodec_new ?p")
  show ?thesis
  proof (cases r)
    case (Inl e)
    then show ?thesis using decode_Inl_append [of crc FrameCodec_new ?p e c s ?t] d whole by simp
  next
    case (Inr g)
    then show ?thesis
      using decode_Some_append [of crc FrameCodec_new ?p _ c s ?t] d whole \<open>?t \<noteq> []\<close> by (cases g) simp_all
  qed
qed

text \<open>A frame sent in a datagram arrives, with its checksum filled in, whatever follows it in the
  datagram, exactly if it fits into the receive buffer; a longer one is cut and dropped without an event.\<close>

lemma udp_delivers:
  assumes "frame_ok f" "sock (wire crc f) = Some n"
  shows "udp_send_to crc sock f = Inr n \<and>
    udp_events (udp_receive crc (Some (wire crc f @ extra, a)) t) =
      udp_events t @ (if wire_size f \<le> MAX_DATAGRAM_SIZE then [FrameReceived a (seal crc f)] else [])"
proof -
  have "decode crc FrameCodec_new (take MAX_DATAGRAM_SIZE (wire crc f @ extra)) =
      (Inr (Some (seal crc f)), FrameCodec_new, take (MAX_DATAGRAM_SIZE - wire_size f) extra)"
    if "wire_size f \<le> MAX_DATAGRAM_SIZE" using that decode_wire [OF assms(1)] by (simp add: length_wire)
  moreover have "fst (decode crc FrameCodec_new (take MAX_DATAGRAM_SIZE (wire crc f @ extra))) = Inr None"
    if "\<not> wire_size f \<le> MAX_DATAGRAM_SIZE" using that decode_prefix [OF assms(1), of MAX_DATAGRAM_SIZE crc] by (simp add: length_wire)
  ultimately show ?thesis
    using assms by (auto simp: udp_send_to_def udp_receive_def encode_ok split: prod.splits)
qed

subsection \<open>Corrupted streams\<close>

text \<open>What is used of CRC32C: changing one byte changes the checksum.\<close>

definition detects_byte_errors :: "crc_impl \<Rightarrow> bool" where
  "detects_byte_errors crc \<longleftrightarrow> (\<forall>c bs i b. i < length bs \<and> bs ! i \<noteq> b \<longrightarrow>
     crc32c_append crc c (bs[i := b]) \<noteq> crc32c_append crc c bs)"

lemma decode_corrupted:
  assumes ok: "frame_ok f" and crc: "detects_byte_errors crc" and i: "i < length (payload f)"
  obtains got c where "decode crc FrameCodec_new (corrupt_byte (HEADER_SIZE + i) (wire crc f) @ r) =
    (Inl (Err (ChecksumMismatch (checksum (header (seal crc f))) got)), c, corrupt_byte (HEADER_SIZE + i) (wire crc f) @ r)"
proof -
  let ?h = "header (seal crc f)" and ?pl = "corrupt_byte i (payload f)"
  have w: "corrupt_byte (HEADER_SIZE + i) (wire crc f) = header_wire ?h @ ?pl"
    using i by (simp add: corrupt_byte_def wire_def nth_append list_update_append)
  have "payload f ! i XOR 0 \<noteq> payload f ! i XOR 0xFF" unfolding word_xor_left_cancel by simp
  then have "payload f ! i \<noteq> payload f ! i XOR 0xFF" by simp
  then have bad: "compute_checksum crc ?h ?pl \<noteq> checksum ?h"
    using crc i by (simp add: compute_checksum_def corrupt_byte_def detects_byte_errors_def seal_def Let_def)
  have hdr: "decode_header (header_wire ?h) = Inr ?h"
    using ok payload_len_le [OF ok] by (intro decode_header_wire) (simp_all add: seal_def frame_ok_def)
  have len: "unat (payload_len (header f)) = length (payload f)" by (rule unat_payload_len [OF ok])
  then have "payload_len (header f) \<noteq> 0" using i by auto
  then show thesis
    using that hdr len bad unfolding w FrameCodec_new_def
    by (simp add: decode_arms Let_def corrupt_byte_def)
qed

text \<open>C19. A corrupted byte ends the connection: if the stream of a connection carries any frames, and then
  one whose payload has a byte flipped by the chaos stream, with anything behind it, cut into reads anywhere,
  the frames before it reach the node, the corrupted frame and what follows do not, and the connection is
  reported as failed and closed.\<close>

theorem corrupted_stream_stops:
  assumes "list_all frame_ok fs" "frame_ok f" "detects_byte_errors crc" "i < length (payload f)"
    and "concat chunks = concat (map (wire crc) fs) @ corrupt_byte (HEADER_SIZE + i) (wire crc f) @ rest"
  shows "\<exists>reason. tcp_events (reader_stream crc now a chunks t) =
    tcp_events t @ map (FrameReceived a) (filter (\<lambda>f. msg_type (header f) \<notin> {Ping, Pong}) (map (seal crc) fs)) @
      [TransportErr (Some a) reason, Disconnected a ''connection closed'']"
proof -
  let ?bad = "corrupt_byte (HEADER_SIZE + i) (wire crc f) @ rest"
  obtain got c where "decode crc FrameCodec_new ?bad =
      (Inl (Err (ChecksumMismatch (checksum (header (seal crc f))) got)), c, ?bad)"
    by (rule decode_corrupted [OF assms(2-4)])
  then have "drain crc FrameCodec_new (concat (map (wire crc) fs) @ ?bad) =
      (map (seal crc) fs, Some (Err (ChecksumMismatch (checksum (header (seal crc f))) got)), c, ?bad)"
    using drain_append [OF drain_wire [OF assms(1), of crc], of ?bad] by (simp add: drain.simps [of crc FrameCodec_new ?bad])
  then have "outcome (feed crc FrameCodec_new [] chunks) =
      (map (seal crc) fs, Some (Err (ChecksumMismatch (checksum (header (seal crc f))) got)), c)"
    using feed_new [of crc chunks] assms(5) by (simp add: outcome_def)
  then obtain buf where "feed crc FrameCodec_new [] chunks =
      (map (seal crc) fs, Some (Err (ChecksumMismatch (checksum (header (seal crc f))) got)), c, buf)"
    by (cases "feed crc FrameCodec_new [] chunks") (auto simp: outcome_def)
  then show ?thesis by (simp add: reader_stream_def Let_def reader_end_def emit_def reader_frames_events)
qed

lemma sum_list_update: "i < length bs \<Longrightarrow> sum_list (map g (bs[i := b])) = sum_list (map g bs) - g (bs ! i) + (g b :: 'a::ab_group_add)"
  by (induction bs arbitrary: i) (auto split: nat.splits simp: algebra_simps)

lemma sum_crc_detects: "detects_byte_errors sum_crc"
proof -
  have u: "unat (ucast b :: u32) = unat b" for b :: byte
    using unsigned_less [of b, where 'a = nat] by (simp add: unsigned_ucast_eq take_bit_nat_eq_self)
  have "ucast b \<noteq> (ucast (bs ! i) :: u32)" if "bs ! i \<noteq> b" for bs :: "byte list" and i b
    using that u [of b] u [of "bs ! i"] by (metis word_unat_eq_iff)
  then show ?thesis by (auto simp: detects_byte_errors_def sum_crc_def sum_list_update)
qed

theorem corrupted_stream_stops_witness:
  "let f = Frame_new Data (Flags 1) 0 [104, 105];
       bytes = wire sum_crc f @ corrupt_byte (HEADER_SIZE + 1) (wire sum_crc f) @ [1, 2]
   in \<exists>reason. tcp_events (reader_stream sum_crc 0 example_addr (map (\<lambda>b. [b]) bytes) example_sender) =
     [Connected example_addr, FrameReceived example_addr (seal sum_crc f), TransportErr (Some example_addr) reason,
      Disconnected example_addr ''connection closed'']"
proof -
  let ?f = "Frame_new Data (Flags 1) 0 [104, 105]"
  have f: "frame_ok ?f" by (simp add: frame_ok_new unat_MAX_PAYLOAD_SIZE)
  have m: "msg_type (header (seal sum_crc ?f)) = Data" "payload ?f = [104, 105]" by (simp_all add: seal_def Frame_new_def)
  have ev: "tcp_events example_sender = [Connected example_addr]"
    by (simp add: example_sender_def tcp_accept_def pool_insert_def insert_check_def insert_entry_def
        pool_len_def TcpTransport_bind_def ConnectionPool_new_def)
  have "concat (map (\<lambda>b. [b]) bs) = bs" for bs :: "byte list" by (induction bs) simp_all
  then have "\<exists>reason. tcp_events (reader_stream sum_crc 0 example_addr (map (\<lambda>b. [b]) (wire sum_crc ?f @
      corrupt_byte (HEADER_SIZE + 1) (wire sum_crc ?f) @ [1, 2])) example_sender) = tcp_events example_sender @
      map (FrameReceived example_addr) (filter (\<lambda>f. msg_type (header f) \<notin> {Ping, Pong}) (map (seal sum_crc) [?f])) @
      [TransportErr (Some example_addr) reason, Disconnected example_addr ''connection closed'']"
    using corrupted_stream_stops [of "[?f]" ?f sum_crc 1 _ "[1, 2]" 0 example_addr example_sender] f sum_crc_detects m by simp
  then show ?thesis unfolding Let_def by (simp add: ev m)
qed

end
