(* ===== verification/Start.thy ===== *)
theory Start
  imports Api Stun Udp Node_Correct
begin

text \<open>
  \<open>start_node\<close> of \<open>ceky-node/src/node.rs\<close>: from a configuration to a running node.  The record
  \<open>start_world\<close> holds what the operating system answers: the addresses the two sockets are bound to, the
  files, the outcome of writing the key file, the answers of the STUN servers, the clock and the random
  bytes.  What was detected about the NAT is only logged; it is a part of the result here.
\<close>

datatype StartError = StartCrypto CryptoError | StartTransport TransportError

record start_world =
  w_tcp_bound :: "SocketAddr option"
  w_udp_bound :: "SocketAddr option"
  w_files :: "path \<rightharpoonup> byte list"
  w_keys :: fs
  w_key_write :: "string option"
  w_stun :: "SocketAddr \<Rightarrow> byte list \<Rightarrow> exchange"
  w_clock :: "nat \<Rightarrow> u128"
  w_ed_rnd :: "byte list"
  w_x_rnd :: "byte list"
  w_seed_rnd :: "nat \<Rightarrow> byte list"

record started =
  st_node :: Node
  st_udp :: UdpTransport
  st_nat :: "NatInfo option"
  st_api :: ApiState
  st_keys :: fs

definition start_listening :: "SocketAddr option \<Rightarrow> (TransportError, SocketAddr) res" where
  "start_listening bound = (case bound of None \<Rightarrow> Inl (Err TIo) | Some a \<Rightarrow> Inr a)"

definition detect_nat :: "start_world \<Rightarrow> UdpTransport \<Rightarrow> bool \<Rightarrow> (StartError, NatInfo option) res" where
  "detect_nat w udp skip_nat =
     (if skip_nat then Inr None
      else case detect (w_stun w) StunClient_new (w_clock w) (Some (Udp.local_addr udp)) of
             Inr nat_info \<Rightarrow> Inr (Some nat_info)
           | Inl Panic \<Rightarrow> Inl Panic
           | Inl (Err _) \<Rightarrow> Inr None)"

definition start_node :: "node_env \<Rightarrow> start_world \<Rightarrow> time \<Rightarrow> ResolvedConfig \<Rightarrow> (StartError, started) res" where
  "start_node E w now config =
     bindR (map_err StartCrypto
       (start_identity (env_crypto E) (rc_key_file config) (w_ed_rnd w) (w_x_rnd w) (w_key_write w) (w_keys w))) (\<lambda>(me, keys).
     bindR (map_err StartTransport (start_listening (w_tcp_bound w))) (\<lambda>_.
     bindR (map_err StartTransport (udp_bind (w_udp_bound w))) (\<lambda>udp.
     bindR (detect_nat w udp (rc_skip_nat config)) (\<lambda>nat.
     Inr \<lparr>st_node = connect_seeds E now (map (\<lambda>(i, a). (a, w_seed_rnd w i)) (enumerate 0 (rc_seeds config)))
                      (node_init now me (rc_tcp_addr config) (rc_max_connections config) (w_files w)),
          st_udp = udp, st_nat = nat,
          st_api = \<lparr>as_tcp_addr = rc_tcp_addr config, as_udp_addr = rc_udp_addr config, as_api_key = rc_api_key config\<rparr>,
          st_keys = keys\<rparr>))))"

subsection \<open>Starting\<close>

text \<open>What a start that succeeds consists of.\<close>

lemma start_nodeE:
  assumes "start_node E w now config = Inr s"
  obtains me where
    "start_identity (env_crypto E) (rc_key_file config) (w_ed_rnd w) (w_x_rnd w) (w_key_write w) (w_keys w) = Inr (me, st_keys s)"
    "st_node s = connect_seeds E now (map (\<lambda>(i, a). (a, w_seed_rnd w i)) (enumerate 0 (rc_seeds config)))
       (node_init now me (rc_tcp_addr config) (rc_max_connections config) (w_files w))"
  using assms by (auto simp: start_node_def bindR_Inr_iff)

lemma start_identity_ok:
  assumes "start_identity cr key_file ed_rnd x_rnd wr fs = Inr (me, fs')" "\<And>bs. length (sha256 cr bs) = 32"
  shows "pid_ok (peer_id me)"
  using assms by (auto simp: start_identity_def bindR_Inr_iff load_from_file_def Identity_generate_def from_public_key_def
      pid_ok_def Let_def split: if_splits option.splits)

lemma start_identity_again:
  assumes "start_identity cr key_file ed_rnd x_rnd wr fs = Inr (me, fs')" "length ed_rnd = 32" "length x_rnd = 32"
  shows "start_identity cr key_file ed_rnd' x_rnd' wr' fs' = Inr (me, fs')"
  using assms by (auto simp: start_identity_def bindR_Inr_iff save_to_file_def load_from_file_def Identity_generate_def
      Let_def split: if_splits option.splits)

lemma connect_identity [simp]: "nd_identity (connect_to E now rnd a n) = nd_identity n"
  by (simp add: connect_to_def Let_def split: prod.splits sum.splits)

lemma seeds_identity [simp]: "nd_identity (connect_seeds E now seeds n) = nd_identity n"
  unfolding connect_seeds_def by (induction seeds arbitrary: n) auto

lemma start_node_inv:
  assumes "start_node E w now config = Inr s" "\<And>bs. length (sha256 (env_crypto E) bs) = 32"
  shows "node_inv (nd_identity (st_node s)) (rc_max_connections config) (st_node s)"
proof -
  obtain me where me: "start_identity (env_crypto E) (rc_key_file config) (w_ed_rnd w) (w_x_rnd w) (w_key_write w) (w_keys w) =
      Inr (me, st_keys s)"
    "st_node s = connect_seeds E now (map (\<lambda>(i, a). (a, w_seed_rnd w i)) (enumerate 0 (rc_seeds config)))
       (node_init now me (rc_tcp_addr config) (rc_max_connections config) (w_files w))"
    using assms(1) by (rule start_nodeE)
  have "pid_ok (peer_id me)" by (rule start_identity_ok [OF me(1) assms(2)])
  moreover have "nd_identity (st_node s) = me" by (simp add: me(2) node_init_def)
  ultimately show ?thesis unfolding me(2) by (simp add: node_inv_seeds node_inv_init)
qed

text \<open>Inputs handled one after the other, whatever they are, keep the invariant of the node.\<close>

lemma node_invariant:
  assumes "start_node E w now config = Inr s" "\<And>bs. length (sha256 (env_crypto E) bs) = 32"
    and "node_run E xs (st_node s) = Some (Inr n)"
  shows "nd_identity n = nd_identity (st_node s) \<and> rt_inv (routing_table n) \<and>
    local_id (routing_table n) = peer_id (nd_identity n) \<and> pool_len (tcp_pool (nd_tcp n)) \<le> rc_max_connections config \<and>
    senders_ok (nd_tcp n) \<and> sessions_ok (peer_states n)"
  using node_inv_run [OF start_node_inv [OF assms(1,2)] assms(3)] by (auto simp: node_inv_def tcp_inv_def pool_inv_def)

definition example_world :: start_world where
  "example_world = \<lparr>w_tcp_bound = Some example_addr, w_udp_bound = Some example_addr, w_files = Map.empty, w_keys = Map.empty,
     w_key_write = None, w_stun = (\<lambda>_ _. NoReply), w_clock = (\<lambda>_. 0), w_ed_rnd = replicate 32 1, w_x_rnd = replicate 32 2,
     w_seed_rnd = (\<lambda>_. [])\<rparr>"

definition example_config :: ResolvedConfig where
  "example_config = ResolvedConfig_default\<lparr>rc_skip_nat := True, rc_max_connections := 4\<rparr>"

lemma example_starts:
  "\<exists>s. start_node example_env example_world 0 example_config = Inr s \<and>
     st_keys s ''identity.key'' = Some (replicate 32 1 @ replicate 32 2) \<and>
     st_node s = node_init 0 (Identity_generate toy_crypto (replicate 32 1) (replicate 32 2))
       (SockV4 [0, 0, 0, 0] 9741) 4 Map.empty"
  by (simp add: start_node_def start_identity_def example_world_def example_config_def example_env_def
      ResolvedConfig_default_def merge_def ConfigFile_default_def or_else_def unwrap_or_def Let_def save_to_file_def
      Identity_generate_def start_listening_def udp_bind_def detect_nat_def connect_seeds_def)

lemma sha256_toy [simp]: "length (sha256 (env_crypto example_env) bs) = 32"
  by (simp add: example_env_def toy_crypto_def)

text \<open>C29. A node keeps its identity across restarts: once it has started, with a key file it found or one it had to
  create, every later start that finds that file gives the same identity, keys, signature and peer id included, and
  leaves the file as it is, whatever the rest of the configuration, the random bytes and the state of the network.\<close>

theorem restart_same_identity:
  assumes "start_node E w now config = Inr s" "length (w_ed_rnd w) = 32" "length (w_x_rnd w) = 32"
    and "start_node E w' now' config' = Inr s'" "w_keys w' = st_keys s" "rc_key_file config' = rc_key_file config"
  shows "nd_identity (st_node s') = nd_identity (st_node s) \<and> st_keys s' = st_keys s"
proof -
  obtain me where me: "start_identity (env_crypto E) (rc_key_file config) (w_ed_rnd w) (w_x_rnd w) (w_key_write w) (w_keys w) =
      Inr (me, st_keys s)" "nd_identity (st_node s) = me"
    using assms(1) by (rule start_nodeE) (simp add: node_init_def)
  obtain me' where me': "start_identity (env_crypto E) (rc_key_file config') (w_ed_rnd w') (w_x_rnd w') (w_key_write w') (w_keys w') =
      Inr (me', st_keys s')" "nd_identity (st_node s') = me'"
    using assms(4) by (rule start_nodeE) (simp add: node_init_def)
  have "start_identity (env_crypto E) (rc_key_file config) (w_ed_rnd w') (w_x_rnd w') (w_key_write w') (st_keys s) = Inr (me, st_keys s)"
    by (rule start_identity_again [OF me(1) assms(2,3)])
  then show ?thesis using me(2) me' assms(5,6) by simp
qed

theorem restart_same_identity_witness:
  "\<exists>s s'. start_node example_env example_world 0 example_config = Inr s \<and>
     start_node example_env (example_world\<lparr>w_keys := st_keys s, w_ed_rnd := replicate 32 7\<rparr>) 5 example_config = Inr s' \<and>
     nd_identity (st_node s') = nd_identity (st_node s)"
proof -
  obtain s where s: "start_node example_env example_world 0 example_config = Inr s"
    "st_keys s ''identity.key'' = Some (replicate 32 1 @ replicate 32 2)" using example_starts by blast
  let ?w = "example_world\<lparr>w_keys := st_keys s, w_ed_rnd := replicate 32 7\<rparr>"
  obtain s' where s': "start_node example_env ?w 5 example_config = Inr s'"
    using s(2) by (simp add: start_node_def start_identity_def load_from_file_def example_world_def example_config_def
      ResolvedConfig_default_def merge_def ConfigFile_default_def or_else_def unwrap_or_def Let_def
      start_listening_def udp_bind_def detect_nat_def)
  have "length (w_ed_rnd example_world) = 32" "length (w_x_rnd example_world) = 32" by (simp_all add: example_world_def)
  from restart_same_identity [OF s(1) this s'] s(1) s' show ?thesis by auto
qed

end
