(* ===== verification/Event_Loop.thy ===== *)
theory Event_Loop
  imports Start
begin

text \<open>
  A running node: the event loop spawned by \<open>start_node\<close> in \<open>ceky-node/src/node.rs\<close> beside the tasks of the
  transport, the telemetry task, the API server and the handle \<open>start_node\<close> returns, interleaved in any way.
  The loop takes commands, events and frames from the queues the others fill.  In which of its ready branches
  \<open>select!\<close> goes on is left open.  A branch that does not return leaves the loop hung, and one that panics ends its
  task; both leave the rest of the process running.  \<open>rn_main\<close> is whether \<open>main\<close> still waits for Ctrl-C.
\<close>

datatype loop_state = Looping | Stopped | Hung | Panicked

record live_node =
  rn_node :: Node
  rn_cancelled :: bool
  rn_loop :: loop_state
  rn_main :: bool

text \<open>The branches of the \<open>select!\<close> other than the shutdown: when they are ready and what they do.\<close>

datatype branch = TakeCommand time "byte list" "SocketAddr list" | TakeEvent time "byte list" | TakeFrame time

fun branch_ready :: "branch \<Rightarrow> Node \<Rightarrow> bool" where
  "branch_ready (TakeCommand now rnd order) n = (api_commands n \<noteq> [])"
| "branch_ready (TakeEvent now rnd) n = (tcp_events (nd_tcp n) \<noteq> [])"
| "branch_ready (TakeFrame now) n = (frame_tx (transfer_manager n) \<noteq> [])"

fun branch_do :: "node_env \<Rightarrow> branch \<Rightarrow> Node \<Rightarrow> node_step" where
  "branch_do E (TakeCommand now rnd order) n = on_api_command E now rnd order n"
| "branch_do E (TakeEvent now rnd) n = on_tcp_event E now rnd n"
| "branch_do E (TakeFrame now) n = on_transfer_frame E now n"

definition loop_turn :: "node_env \<Rightarrow> branch \<Rightarrow> live_node \<Rightarrow> live_node" where
  "loop_turn E br r =
     (case branch_do E br (rn_node r) of
        None \<Rightarrow> r\<lparr>rn_loop := Hung\<rparr>
      | Some (Inl e) \<Rightarrow> r\<lparr>rn_loop := Panicked\<rparr>
      | Some (Inr n) \<Rightarrow> r\<lparr>rn_node := n\<rparr>)"

text \<open>What is logged at the end of the loop: of the pool the active connections, those created and the bytes
  received and sent, of the table all peers and the active ones.\<close>

definition final_stats :: "Node \<Rightarrow> (nat \<times> u64 \<times> u64 \<times> u64) \<times> nat \<times> nat" where
  "final_stats n =
     (let s = pool_stats (tcp_pool (nd_tcp n)); t = stats (routing_table n)
      in ((ps_active s, ps_total_created s, ps_total_bytes_recv s, ps_total_bytes_sent s), (st_total_peers t, st_active t)))"

text \<open>The inputs of a node that come from the tasks of the transport and the telemetry, not from the loop.\<close>

fun is_task :: "node_input \<Rightarrow> bool" where
  "is_task (Command now rnd order cmd) = False"
| "is_task (Event now rnd ev) = False"
| "is_task (TransferFrame now) = False"
| "is_task _ = True"

text \<open>The token is cancelled by the display, when its user quits, or by \<open>main\<close> at the signal of Ctrl-C, after which
  \<open>main\<close> returns.  \<open>Request\<close> is a request to the API server, \<open>Handle\<close> a command sent through the handle of the node.\<close>

definition tui_quit :: "live_node \<Rightarrow> live_node" where
  "tui_quit r = r\<lparr>rn_cancelled := True\<rparr>"

definition on_ctrl_c :: "live_node \<Rightarrow> live_node" where
  "on_ctrl_c r = r\<lparr>rn_cancelled := True, rn_main := False\<rparr>"

datatype 'h action =
    Loop branch
  | Shutdown
  | Quit
  | CtrlC
  | Task node_input
  | Request "'h option" ApiRequest
  | Handle ApiCommand

inductive sys_step :: "node_env \<Rightarrow> ('h \<Rightarrow> byte list option) \<Rightarrow> ApiState \<Rightarrow> 'h action \<Rightarrow> live_node \<Rightarrow> live_node \<Rightarrow> bool"
  for E :: node_env and to_str :: "'h \<Rightarrow> byte list option" and st :: ApiState where
  turn: "rn_loop r = Looping \<Longrightarrow> branch_ready br (rn_node r) \<Longrightarrow> sys_step E to_str st (Loop br) r (loop_turn E br r)"
| shutdown: "rn_loop r = Looping \<Longrightarrow> rn_cancelled r \<Longrightarrow> sys_step E to_str st Shutdown r (r\<lparr>rn_loop := Stopped\<rparr>)"
| quit: "sys_step E to_str st Quit r (tui_quit r)"
| ctrl_c: "rn_main r \<Longrightarrow> sys_step E to_str st CtrlC r (on_ctrl_c r)"
| task: "is_task x \<Longrightarrow> node_do E x (rn_node r) = Some (Inr n) \<Longrightarrow> sys_step E to_str st (Task x) r (r\<lparr>rn_node := n\<rparr>)"
| request: "sys_step E to_str st (Request hdr req) r (r\<lparr>rn_node := snd (api_server to_str st hdr req (rn_node r))\<rparr>)"
| handle: "sys_step E to_str st (Handle cmd) r
    (r\<lparr>rn_node := (rn_node r)\<lparr>api_commands := api_commands (rn_node r) @ [cmd]\<rparr>\<rparr>)"

inductive sys_run :: "node_env \<Rightarrow> ('h \<Rightarrow> byte list option) \<Rightarrow> ApiState \<Rightarrow> live_node \<Rightarrow> 'h action list \<Rightarrow> live_node \<Rightarrow> bool"
  for E :: node_env and to_str :: "'h \<Rightarrow> byte list option" and st :: ApiState and r :: live_node where
  start: "sys_run E to_str st r [] r"
| more: "sys_run E to_str st r xs r' \<Longrightarrow> sys_step E to_str st x r' r'' \<Longrightarrow> sys_run E to_str st r (xs @ [x]) r''"

definition launch :: "Node \<Rightarrow> live_node" where
  "launch n = \<lparr>rn_node = n, rn_cancelled = False, rn_loop = Looping, rn_main = True\<rparr>"

lemma launch_simps [simp]:
  "rn_node (launch n) = n" "\<not> rn_cancelled (launch n)" "rn_loop (launch n) = Looping" "rn_main (launch n)"
  by (simp_all add: launch_def)

lemma cancel_simps [simp]:
  "rn_node (tui_quit r) = rn_node r" "rn_cancelled (tui_quit r)" "rn_loop (tui_quit r) = rn_loop r" "rn_main (tui_quit r) = rn_main r"
  "rn_node (on_ctrl_c r) = rn_node r" "rn_cancelled (on_ctrl_c r)" "rn_loop (on_ctrl_c r) = rn_loop r" "\<not> rn_main (on_ctrl_c r)"
  by (simp_all add: tui_quit_def on_ctrl_c_def)

subsection \<open>The invariant, with the queues\<close>

lemma route_only_queues: "\<exists>cs. snd (api_server to_str st hdr req n) = n\<lparr>api_commands := api_commands n @ cs\<rparr>"
proof (cases "auth_middleware to_str st hdr")
  case None
  then show ?thesis using route_frame [of st req n]
    by (auto simp: api_server_def intro: exI [of _ "[]"] exI [of _ "[cmd]" for cmd])
qed (auto simp: api_server_def intro: exI [of _ "[]"])

lemma node_inv_events [simp]: "node_inv me k (n\<lparr>nd_tcp := (nd_tcp n)\<lparr>tcp_events := evs\<rparr>\<rparr>) = node_inv me k n"
  by (simp add: node_inv_def tcp_inv_def senders_ok_def pool_inv_def)

lemma node_inv_branch:
  assumes "node_inv me k n" "branch_ready br n" "branch_do E br n = Some (Inr n')"
  shows "node_inv me k n'"
proof (cases br)
  case (TakeCommand now rnd order)
  with assms obtain cmd cs where q: "api_commands n = cmd # cs" by (cases "api_commands n") auto
  then show ?thesis
    using assms TakeCommand node_inv_do [of me k "n\<lparr>api_commands := cs\<rparr>" E "Command now rnd order cmd"]
    by (simp add: queues_are_inputs(1))
next
  case (TakeEvent now rnd)
  with assms obtain ev evs where q: "tcp_events (nd_tcp n) = ev # evs" by (cases "tcp_events (nd_tcp n)") auto
  then show ?thesis
    using assms TakeEvent node_inv_do [of me k "n\<lparr>nd_tcp := (nd_tcp n)\<lparr>tcp_events := evs\<rparr>\<rparr>" E "Event now rnd ev"]
    by (simp add: queues_are_inputs(2))
next
  case (TakeFrame now)
  then show ?thesis using assms node_inv_do [of me k n E "TransferFrame now"] by simp
qed

lemma loop_turn_cases:
  obtains n where "branch_do E br (rn_node r) = Some (Inr n)" "loop_turn E br r = r\<lparr>rn_node := n\<rparr>"
  | "loop_turn E br r = r\<lparr>rn_loop := Hung\<rparr>" | "loop_turn E br r = r\<lparr>rn_loop := Panicked\<rparr>"
  by (cases "branch_do E br (rn_node r)"; cases "the (branch_do E br (rn_node r))") (auto simp: loop_turn_def)

lemma sys_step_inv:
  assumes "sys_step E to_str st x r r'" "node_inv me k (rn_node r)"
  shows "node_inv me k (rn_node r')"
  using assms(1)
proof cases
  case (turn br)
  then show ?thesis using assms(2) node_inv_branch by (cases rule: loop_turn_cases [of E br r]) auto
next
  case (task x n)
  then show ?thesis using node_inv_do [OF assms(2)] by simp
next
  case (request hdr req)
  then show ?thesis using assms(2) route_only_queues [of to_str st hdr req "rn_node r"] by auto
qed (use assms(2) in simp_all)

lemma sys_run_inv: "sys_run E to_str st r xs r' \<Longrightarrow> node_inv me k (rn_node r) \<Longrightarrow> node_inv me k (rn_node r')"
  by (induction rule: sys_run.induct) (auto intro: sys_step_inv)

lemma sys_run_loop: "sys_run E to_str st r xs r' \<Longrightarrow> rn_loop r = Looping \<Longrightarrow> rn_loop r' = Stopped \<Longrightarrow> rn_cancelled r'"
proof (induction rule: sys_run.induct)
  case (more xs r' x r'')
  from more.hyps(2) show ?case
  proof cases
    case (turn br)
    then show ?thesis using more by (cases rule: loop_turn_cases [of E br r']) auto
  qed (use more in auto)
qed simp


lemma sys_run_two:
  assumes "sys_step E to_str st x r r1" "sys_step E to_str st y r1 r2"
  shows "sys_run E to_str st r [x, y] r2"
  using sys_run.more [OF sys_run.more [OF sys_run.start assms(1)] assms(2)] by simp


subsection \<open>Who can make a node act\<close>

text \<open>A node nobody has asked for anything: no command waits, no peer is looked for, no file is being sent.\<close>

definition unasked :: "Node \<Rightarrow> bool" where
  "unasked n \<longleftrightarrow> api_commands n = [] \<and> pending_dht_connects n = {} \<and>
     (\<forall>tid s. active_transfers (transfer_manager n) tid \<noteq> Some (Sending s))"

lemma unasked_frame [simp]:
  "unasked (n\<lparr>nd_tcp := t\<rparr>) = unasked n" "unasked (n\<lparr>peer_states := ps\<rparr>) = unasked n"
  "unasked (n\<lparr>api_events := evs\<rparr>) = unasked n" "unasked (n\<lparr>metrics := m\<rparr>) = unasked n"
  "unasked (n\<lparr>routing_table := t'\<rparr>) = unasked n" "unasked (set_peer a p n) = unasked n" "unasked (send_to now a f n) = unasked n"
  by (simp_all add: unasked_def set_peer_def send_to_def)

lemma unasked_send_secure [simp]: "unasked (send_secure E now a mt dat n) = unasked n"
  by (simp add: send_secure_def split: option.splits NodePeerState.splits prod.splits sum.splits)

lemma unasked_transfer:
  assumes "unasked n" "\<And>tid s. active_transfers tm tid = Some (Sending s) \<Longrightarrow> active_transfers (transfer_manager n) tid = Some (Sending s)"
  shows "unasked (n\<lparr>transfer_manager := tm\<rparr>)" "unasked (n\<lparr>api_events := evs, transfer_manager := tm\<rparr>)"
  using assms by (auto simp: unasked_def)

lemma handle_offer_sending:
  "active_transfers (snd (handle_offer os a offer tm)) tid = Some (Sending s) \<Longrightarrow> active_transfers tm tid = Some (Sending s)"
  by (auto simp: handle_offer_def Let_def set_transfer_def send_frame_def split: if_splits)

lemma handle_chunk_sending:
  "active_transfers (snd (handle_chunk C c tm)) tid = Some (Sending s) \<Longrightarrow> active_transfers tm tid = Some (Sending s)"
  by (auto simp: handle_chunk_def Let_def set_transfer_def send_frame_def split: if_splits option.splits TransferState.splits)

lemma unasked_no_sender:
  assumes "unasked n"
  shows "snd (handle_accept acc (transfer_manager n)) = transfer_manager n"
    "handle_credit_update C tid c (transfer_manager n) = Some (Inr (transfer_manager n))"
    "handle_chunk_ack C ack (transfer_manager n) = Some (Inr (transfer_manager n))"
  using assms
  by (auto simp: unasked_def handle_accept_def handle_credit_update_def pump_send_def handle_chunk_ack_def Let_def
      split: option.splits TransferState.splits)

lemma unasked_learn_found: "unasked n \<Longrightarrow> unasked (fold (learn_found now) ps n)"
proof (induction ps arbitrary: n)
  case (Cons p ps)
  have "unasked (learn_found now p n)"
    using Cons.prems by (cases p) (simp add: learn_found_def learn_peer_def Let_def, simp add: unasked_def)
  then show ?case using Cons.IH by simp
qed simp

lemma unasked_secure_frame: "unasked n \<Longrightarrow> on_secure_frame E now a mt dat n = Some (Inr n') \<Longrightarrow> unasked n'"
  by (cases mt) (auto simp: on_secure_frame_def on_credit_update_def on_find_node_def ret_def lift_tm_def learn_peer_def
      unasked_no_sender unasked_learn_found
      intro!: unasked_transfer dest: handle_offer_sending handle_chunk_sending split: sum.splits if_splits)

lemma unasked_open_session: "unasked n \<Longrightarrow> open_session E now a hs n = Some (Inr n') \<Longrightarrow> unasked n'"
  by (auto simp: open_session_def ret_def Let_def split: sum.splits fault.splits prod.splits)

lemma unasked_handshake: "unasked n \<Longrightarrow> on_handshake E now rnd a msg n = Some (Inr n') \<Longrightarrow> unasked n'"
  by (auto simp: on_handshake_def ret_def Let_def dest: unasked_open_session [rotated]
      split: option.splits NodePeerState.splits sum.splits fault.splits prod.splits)

lemma unasked_event: "unasked n \<Longrightarrow> on_event E now rnd ev n = Some (Inr n') \<Longrightarrow> unasked n'"
  by (cases ev) (auto simp: on_event_def on_frame_def ret_def Let_def intro: unasked_handshake unasked_secure_frame [rotated]
      split: if_splits option.splits NodePeerState.splits sum.splits prod.splits)

lemma unasked_task: "unasked n \<Longrightarrow> is_task x \<Longrightarrow> node_do E x n = Some (Inr n') \<Longrightarrow> unasked n'"
  by (cases x) (auto simp: ret_def telemetry_tick_def Let_def)

lemma unasked_branch:
  assumes "unasked n" "branch_ready br n" "branch_do E br n = Some (Inr n')"
  shows "unasked n'"
proof (cases br)
  case (TakeCommand now rnd order)
  then show ?thesis using assms by (simp add: unasked_def)
next
  case (TakeEvent now rnd)
  then obtain ev evs where "tcp_events (nd_tcp n) = ev # evs" using assms(2) by (cases "tcp_events (nd_tcp n)") auto
  then show ?thesis
    using assms TakeEvent unasked_event [of "n\<lparr>nd_tcp := (nd_tcp n)\<lparr>tcp_events := evs\<rparr>\<rparr>"] by (simp add: on_tcp_event_def)
next
  case (TakeFrame now)
  then show ?thesis
    using assms by (auto simp: on_transfer_frame_def ret_def intro!: unasked_transfer split: list.splits prod.splits)
qed

lemma unasked_returns:
  assumes "unasked n" "branch_ready br n"
  shows "branch_do E br n \<noteq> None"
proof (cases br)
  case (TakeCommand now rnd order)
  then show ?thesis using assms by (simp add: unasked_def)
next
  case (TakeEvent now rnd)
  then obtain ev evs where q: "tcp_events (nd_tcp n) = ev # evs" using assms(2) by (cases "tcp_events (nd_tcp n)") auto
  let ?n = "n\<lparr>nd_tcp := (nd_tcp n)\<lparr>tcp_events := evs\<rparr>\<rparr>"
  have "on_secure_frame E now a mt dat (set_peer a st ?n) \<noteq> None" for a mt dat st
    using assms(1) by (auto simp: secure_frame_None set_peer_def unasked_def)
  moreover have "unasked ?n" using assms(1) by simp
  ultimately have "on_event E now rnd ev ?n \<noteq> None"
    using handshake_returns [of E now rnd _ _ ?n]
    by (cases ev) (auto simp: on_event_def on_frame_def ret_def Let_def
        split: if_splits option.splits NodePeerState.splits sum.splits prod.splits)
  then show ?thesis using TakeEvent q by (simp add: on_tcp_event_def)
next
  case (TakeFrame now)
  then show ?thesis by (simp add: on_transfer_frame_def ret_def split: list.splits prod.splits)
qed

text \<open>The actions of those who have neither the handle of the node nor the key of its API.\<close>

fun outsider :: "('h \<Rightarrow> byte list option) \<Rightarrow> byte list \<Rightarrow> 'h action \<Rightarrow> bool" where
  "outsider to_str key (Handle cmd) = False"
| "outsider to_str key (Request hdr req) =
     (case hdr of None \<Rightarrow> True | Some v \<Rightarrow> to_str v \<noteq> Some (utf8 ''Bearer '' @ key))"
| "outsider to_str key _ = True"

lemma unasked_step:
  assumes "sys_step E to_str st x r r'" "as_api_key st = Some key" "outsider to_str key x"
    and "unasked (rn_node r)" "rn_loop r \<noteq> Hung"
  shows "unasked (rn_node r') \<and> rn_loop r' \<noteq> Hung"
  using assms(1)
proof cases
  case (turn br)
  then show ?thesis
    using assms(4,5) unasked_branch [of "rn_node r" br E] unasked_returns [of "rn_node r" br E]
    by (auto simp: loop_turn_def split: option.splits sum.splits)
next
  case (task x n)
  then show ?thesis using assms(4,5) unasked_task by auto
next
  case (request hdr req)
  have "auth_middleware to_str st hdr \<noteq> None"
    using assms(3) request auth_middleware_iff [OF assms(2), of to_str hdr] by (auto split: option.splits)
  then show ?thesis using request assms(4,5) by (auto simp: api_server_def)
qed (use assms(3-5) in auto)

lemma connect_unasked [simp]: "unasked (connect_to E now rnd a n) = unasked n"
  by (simp add: connect_to_def Let_def split: prod.splits sum.splits)

lemma seeds_unasked [simp]: "unasked (connect_seeds E now seeds n) = unasked n"
  unfolding connect_seeds_def by (induction seeds arbitrary: n) (simp_all add: case_prod_beta)

lemma start_unasked: "start_node E w now config = Inr s \<Longrightarrow> unasked (st_node s) \<and> as_api_key (st_api s) = rc_api_key config"
  by (auto simp: start_node_def bindR_Inr_iff) (simp add: unasked_def node_init_def TransferManager_new_def)

text \<open>C8. Only its owner can make a node act: as long as nobody uses the handle of the node and no request carries
  the key of its API, then whatever peers and other clients of the API do, no command reaches the event loop and
  none waits, no peer is being looked for, no file is being sent, and the loop does not hang.\<close>

theorem outsiders_are_powerless:
  assumes "start_node E w now config = Inr s" "rc_api_key config = Some key"
    and "sys_run E to_str (st_api s) (launch (st_node s)) xs r" "\<forall>x \<in> set xs. outsider to_str key x"
  shows "api_commands (rn_node r) = [] \<and> pending_dht_connects (rn_node r) = {} \<and>
    (\<forall>tid st. active_transfers (transfer_manager (rn_node r)) tid \<noteq> Some (Sending st)) \<and> rn_loop r \<noteq> Hung"
proof -
  have key: "as_api_key (st_api s) = Some key" using start_unasked [OF assms(1)] assms(2) by simp
  from assms(3,4) have "unasked (rn_node r) \<and> rn_loop r \<noteq> Hung"
  proof (induction rule: sys_run.induct)
    case start
    then show ?case using start_unasked [OF assms(1)] by simp
  next
    case (more xs r' x r'')
    then show ?case using unasked_step [OF more.hyps(2) key] by simp
  qed
  then show ?thesis by (simp add: unasked_def)
qed

theorem outsiders_are_powerless_witness:
  "let config = example_config\<lparr>rc_api_key := Some (utf8 ''secret'')\<rparr>
   in \<exists>s r. start_node example_env example_world 0 config = Inr s \<and>
     sys_run example_env Some (st_api s) (launch (st_node s))
       [Request None GetStatus, Request (Some (utf8 ''Bearer guess'')) (PostConnect (Some example_addr))] r \<and>
     api_commands (rn_node r) = [] \<and> rn_loop r \<noteq> Hung"
proof -
  let ?config = "example_config\<lparr>rc_api_key := Some (utf8 ''secret'')\<rparr>"
  obtain s where s: "start_node example_env example_world 0 ?config = Inr s"
    by (simp add: start_node_def start_identity_def example_world_def example_config_def example_env_def
      ResolvedConfig_default_def merge_def ConfigFile_default_def or_else_def unwrap_or_def Let_def save_to_file_def
      Identity_generate_def start_listening_def udp_bind_def detect_nat_def connect_seeds_def)
  obtain r where r: "sys_run example_env Some (st_api s) (launch (st_node s))
      [Request None GetStatus, Request (Some (utf8 ''Bearer guess'')) (PostConnect (Some example_addr))] r"
    using sys_run_two [OF sys_step.request sys_step.request] by blast
  have "\<forall>x \<in> set [Request None GetStatus, Request (Some (utf8 ''Bearer guess'')) (PostConnect (Some example_addr))].
      outsider Some (utf8 ''secret'') x" by (simp add: utf8_def)
  from outsiders_are_powerless [OF s _ r this] s r show ?thesis unfolding Let_def by auto
qed

subsection \<open>Shutdown\<close>

lemma sys_run_cancelled: "sys_run E to_str st r xs r' \<Longrightarrow> (rn_cancelled r' \<longleftrightarrow> rn_cancelled r \<or> Quit \<in> set xs \<or> CtrlC \<in> set xs) \<and>
    (rn_main r' \<longleftrightarrow> rn_main r \<and> CtrlC \<notin> set xs)"
proof (induction rule: sys_run.induct)
  case (more xs r' x r'')
  from more.hyps(2) show ?case
  proof cases
    case (turn br)
    then show ?thesis using more.IH by (cases rule: loop_turn_cases [of E br r']) auto
  qed (use more.IH in auto)
qed simp

text \<open>What only the loop changes.\<close>

definition loop_owned :: "Node \<Rightarrow> (SocketAddr \<rightharpoonup> NodePeerState) \<times> RoutingTable \<times> TransferManager \<times> ApiEvent list" where
  "loop_owned n = (peer_states n, routing_table n, transfer_manager n, api_events n)"

lemma sys_step_over:
  assumes "sys_step E to_str st x r r'" "rn_loop r \<noteq> Looping"
  shows "rn_loop r' = rn_loop r \<and> loop_owned (rn_node r') = loop_owned (rn_node r)"
  using assms(1)
proof cases
  case (task x n)
  then show ?thesis by (cases x) (auto simp: ret_def telemetry_tick_def Let_def loop_owned_def)
next
  case (request hdr req)
  then show ?thesis using route_only_queues [of to_str st hdr req "rn_node r"] by (auto simp: loop_owned_def)
qed (use assms(2) in \<open>auto simp: loop_owned_def\<close>)

lemma sys_run_over:
  "sys_run E to_str st r ys r' \<Longrightarrow> rn_loop r \<noteq> Looping \<Longrightarrow> rn_loop r' = rn_loop r \<and> loop_owned (rn_node r') = loop_owned (rn_node r)"
  by (induction rule: sys_run.induct) (auto dest: sys_step_over)



end
