(* ===== verification/Chat_Stream.thy ===== *)
theory Chat_Stream
  imports Node_Transfer Event_Loop
begin

text \<open>
  Chat messages from the API of one running node to that of another, through everything in between: the
  command queue, the session, the frames, the writer task, a byte stream cut anywhere, the decoder, the event
  queue and the session of the receiver.
\<close>

lemma sys_run_Cons:
  assumes "sys_step E to_str st x r r1" "sys_run E to_str st r1 xs r2"
  shows "sys_run E to_str st r (x # xs) r2"
  using assms(2)
proof (induction rule: sys_run.induct)
  case start
  then show ?case using sys_run.more [OF sys_run.start assms(1)] by simp
next
  case (more xs r' y r'')
  then show ?case using sys_run.more by fastforce
qed

lemma sys_run_append:
  assumes "sys_run E to_str st r1 ys r2" "sys_run E to_str st r xs r1"
  shows "sys_run E to_str st r (xs @ ys) r2"
  using assms
proof (induction rule: sys_run.induct)
  case (more ys r' y r'')
  then show ?case using sys_run.more [of E to_str st r "xs @ ys" r' y r''] by simp
qed simp

subsection \<open>Sending\<close>

lemma handles_queue:
  "sys_run E to_str st r (map Handle cmds) (r\<lparr>rn_node := (rn_node r)\<lparr>api_commands := api_commands (rn_node r) @ cmds\<rparr>\<rparr>)"
proof (induction cmds arbitrary: r)
  case Nil
  show ?case using sys_run.start [of E to_str st r] by simp
next
  case (Cons c cmds)
  let ?r = "r\<lparr>rn_node := (rn_node r)\<lparr>api_commands := api_commands (rn_node r) @ [c]\<rparr>\<rparr>"
  from sys_run_Cons [OF sys_step.handle Cons.IH [of ?r]] show ?case by simp
qed

lemma send_chat_commands [simp]: "api_commands (send_chat E now a m n) = api_commands n"
  by (simp add: send_chat_def send_secure_def send_to_def set_peer_def Let_def
      split: option.splits NodePeerState.splits sum.splits prod.splits)

lemma loop_sends:
  assumes "rn_loop r = Looping" "api_commands (rn_node r) = map (CmdSendMessage b) ms"
    and "peer_states (rn_node r) b = Some (Secure s)" "linked b (rn_node r) fs" "unat (send_nonce s) + length ms \<le> 2 ^ 48"
    and "\<forall>m \<in> set ms. can_seal (env_aead E) (send_cipher s) m"
  obtains r' gs where "sys_run E to_str st r (replicate (length ms) (Loop (TakeCommand now [] []))) r'" "rn_loop r' = Looping"
    "linked b (rn_node r') (fs @ gs)" "carry (env_aead E) (send_cipher s) (send_nonce s) ms gs"
  using assms
proof (induction ms arbitrary: r s fs thesis)
  case Nil
  show ?case using Nil(1) [of r "[]"] Nil(2,5) by (simp add: sys_run.start)
next
  case (Cons m ms)
  let ?br = "TakeCommand now [] []" and ?n = "(rn_node r)\<lparr>api_commands := map (CmdSendMessage b) ms\<rparr>"
  have le: "send_nonce s \<le> MAX_NONCE" using Cons.prems(6) by (simp add: MAX_NONCE_def word_le_nat_alt)
  have seal: "can_seal (env_aead E) (send_cipher s) m" using Cons.prems(7) by simp
  have n: "peer_states ?n b = Some (Secure s)" "linked b ?n fs" using Cons.prems(4,5) by (simp_all add: linked_def)
  obtain ct n1 where n1: "on_command E now [] [] (CmdSendMessage b m) ?n = Some (Inr n1)"
    "aead_decrypt (env_aead E) (send_cipher s) (build_nonce (send_nonce s)) [] ct = Some m"
    "linked b n1 (fs @ [chat_frame (send_nonce s) ct])"
    "peer_states n1 b = Some (Secure (s\<lparr>send_nonce := send_nonce s + 1\<rparr>))"
    by (rule send_chat_ok [OF n le seal])
  define r1 where "r1 = r\<lparr>rn_node := n1\<rparr>"
  have r1: "loop_turn E ?br r = r1" "branch_ready ?br (rn_node r)"
    using n1(1) Cons.prems(3) by (simp_all add: loop_turn_def on_api_command_def r1_def)
  have cmds: "api_commands (rn_node r1) = map (CmdSendMessage b) ms"
    using n1(1) by (auto simp: on_command_def ret_def r1_def)
  have "unat (send_nonce s + 1) + length ms \<le> 2 ^ 48" using Cons.prems(6) unat_next [of "send_nonce s"] by simp
  with Cons.prems(2,7) n1(3,4) cmds obtain r' gs where r':
    "sys_run E to_str st r1 (replicate (length ms) (Loop ?br)) r'" "rn_loop r' = Looping"
    "linked b (rn_node r') ((fs @ [chat_frame (send_nonce s) ct]) @ gs)" "carry (env_aead E) (send_cipher s) (send_nonce s + 1) ms gs"
    using Cons.IH [where r = r1 and s = "s\<lparr>send_nonce := send_nonce s + 1\<rparr>" and fs = "fs @ [chat_frame (send_nonce s) ct]"]
    by (auto simp: r1_def)
  have "sys_run E to_str st r (Loop ?br # replicate (length ms) (Loop ?br)) r'"
    by (rule sys_run_Cons [OF sys_step.turn [OF Cons.prems(2) r1(2)]]) (simp add: r1(1) r'(1))
  then show ?case
    using Cons.prems(1) [of r' "chat_frame (send_nonce s) ct # gs"] r'(2-4) n1(2) by auto
qed

subsection \<open>Receiving\<close>

lemma loop_receives:
  assumes "rn_loop r = Looping" "tcp_events (nd_tcp (rn_node r)) = map (\<lambda>g. FrameReceived a (seal crc g)) gs"
    and "peer_states (rn_node r) a = Some (Secure s)" "represents (replay_window s) H" "max_nonce (replay_window s) < i"
    and "carry (env_aead E) (recv_cipher s) i ms gs" "\<forall>m \<in> set ms. utf8_valid m" "unat i + length ms \<le> 2 ^ 48"
  obtains r' where "sys_run E to_str st r (replicate (length ms) (Loop (TakeEvent now []))) r'"
    "api_events (rn_node r') = api_events (rn_node r) @ map (MessageReceived a) ms"
  using assms
proof (induction ms arbitrary: r s H i gs thesis)
  case Nil
  then show ?case using Nil(1) [of r] by (simp add: sys_run.start)
next
  case (Cons m ms)
  let ?br = "TakeEvent now []"
  obtain ct gs' where gs: "gs = chat_frame i ct # gs'" "aead_decrypt (env_aead E) (recv_cipher s) (build_nonce i) [] ct = Some m"
      "carry (env_aead E) (recv_cipher s) (i + 1) ms gs'"
    using Cons.prems(7) by (cases gs) auto
  let ?n = "(rn_node r)\<lparr>nd_tcp := (nd_tcp (rn_node r))\<lparr>tcp_events := map (\<lambda>g. FrameReceived a (seal crc g)) gs'\<rparr>\<rparr>"
  have m: "utf8_valid m" using Cons.prems(8) by simp
  have n: "peer_states ?n a = Some (Secure s)" using Cons.prems(4) by simp
  obtain n1 s1 where n1: "on_event E now [] (FrameReceived a (chat_frame i ct)) ?n = Some (Inr n1)"
    "api_events n1 = api_events ?n @ [MessageReceived a m]" "peer_states n1 a = Some (Secure s1)"
    "recv_cipher s1 = recv_cipher s" "represents (replay_window s1) (insert i H)" "max_nonce (replay_window s1) = i"
    "nd_tcp n1 = nd_tcp ?n"
    by (rule receive_chat_ok [OF n Cons.prems(5,6) gs(2) m])
  define r1 where "r1 = r\<lparr>rn_node := n1\<rparr>"
  have r1: "loop_turn E ?br r = r1" "branch_ready ?br (rn_node r)" "rn_loop r1 = Looping"
    using n1(1) Cons.prems(2,3) gs(1) by (simp_all add: loop_turn_def on_tcp_event_def r1_def)
  have i: "unat (i + 1) = Suc (unat i)" using unat_next [of i] Cons.prems(9) by simp
  then have "max_nonce (replay_window s1) < i + 1" using n1(6) by (simp add: word_less_nat_alt)
  then obtain r' where r': "sys_run E to_str st r1 (replicate (length ms) (Loop ?br)) r'"
    "api_events (rn_node r') = api_events (rn_node r1) @ map (MessageReceived a) ms"
    using Cons.IH [where r = r1 and gs = gs' and s = s1 and H = "insert i H" and i = "i + 1"] n1(3-5,7) r1(3) gs(3) i Cons.prems(8,9) by (auto simp: r1_def)
  have "sys_run E to_str st r (Loop ?br # replicate (length ms) (Loop ?br)) r'"
    by (rule sys_run_Cons [OF sys_step.turn [OF Cons.prems(2) r1(2)]]) (simp add: r1(1) r'(1))
  then show ?case using Cons.prems(1) [of r'] r'(2) n1(2) by (simp add: r1_def)
qed

subsection \<open>From API to API\<close>

lemma carry_frames:
  assumes "carry ae k i ms gs" "\<And>n c m. aead_decrypt ae k n [] c = Some m \<Longrightarrow> length c = length m + 16"
    and "\<forall>m \<in> set ms. length m + 16 \<le> unat MAX_PAYLOAD_SIZE"
  shows "length gs = length ms \<and> list_all frame_ok gs \<and> (\<forall>g \<in> set gs. msg_type (header g) = Data)"
  using assms
proof (induction ae k i ms gs rule: carry.induct)
  case (2 ae k i m ms f fs)
  then obtain ct where f: "f = chat_frame i ct" "aead_decrypt ae k (build_nonce i) [] ct = Some m" by auto
  then have "length ct \<le> unat MAX_PAYLOAD_SIZE" using 2(3) [OF f(2)] 2(4) by simp
  then have "frame_ok f" unfolding f(1) chat_frame_def by (rule frame_ok_new)
  moreover have "length fs = length ms \<and> list_all frame_ok fs \<and> (\<forall>g \<in> set fs. msg_type (header g) = Data)"
    using 2(1) [OF _ 2(3)] 2(2,4) by simp
  ultimately show ?case using f(1) by simp
qed auto

text \<open>C2. Chat messages through everything between two running nodes.  \<open>A\<close> and \<open>B\<close> share a session and a connection on
  which nothing waits.  Messages given to the handle of \<open>A\<close>, of at most 16 MiB less the tag, are sealed by its event loop
  and queued; the bytes its writer task then puts on the stream, delivered in pieces cut anywhere, become events
  of \<open>B\<close>; and when the event loop of \<open>B\<close> has taken them, it has reported exactly these messages, in order.\<close>

theorem chat_over_the_wire:
  assumes session: "ready b k k' i j A" "ready a k' k j i B" "unat i + length ms \<le> 2 ^ 48"
    and idle: "linked b A []" "api_commands A = []" "tcp_events (nd_tcp B) = []"
    and ms: "\<forall>m \<in> set ms. utf8_valid m \<and> length m + 16 \<le> unat MAX_PAYLOAD_SIZE \<and> can_seal (env_aead E) k m"
    and tag: "\<forall>n c m. aead_decrypt (env_aead E) k n [] c = Some m \<longrightarrow> length c = length m + 16"
  shows "\<exists>rA c. sys_run E to_str st (launch A)
      (map (\<lambda>m. Handle (CmdSendMessage b m)) ms @ replicate (length ms) (Loop (TakeCommand now [] []))) rA \<and>
    peer_senders (nd_tcp (rn_node rA)) b = Some c \<and>
    (\<forall>chunks. concat chunks = fst (writer_run crc now b c (length ms) (nd_tcp (rn_node rA))) \<longrightarrow>
      (\<exists>rB. sys_run E to_str' st' (launch (B\<lparr>nd_tcp := reader_stream crc now a chunks (nd_tcp B)\<rparr>))
          (replicate (length ms) (Loop (TakeEvent now []))) rB \<and>
        api_events (rn_node rB) = api_events B @ map (MessageReceived a) ms))"
proof -
  let ?r = "(launch A)\<lparr>rn_node := A\<lparr>api_commands := map (CmdSendMessage b) ms\<rparr>\<rparr>"
  obtain s where s: "peer_states A b = Some (Secure s)" "send_cipher s = k" "send_nonce s = i"
    using session(1) by (auto simp: ready_def)
  obtain s' H where s': "peer_states B a = Some (Secure s')" "represents (replay_window s') H" "max_nonce (replay_window s') < i"
    "recv_cipher s' = k" using session(2) by (auto simp: ready_def)
  have q: "sys_run E to_str st (launch A) (map (\<lambda>m. Handle (CmdSendMessage b m)) ms) ?r"
    using handles_queue [of E to_str st "launch A" "map (CmdSendMessage b) ms"] idle(2) by (simp add: comp_def)
  have r: "rn_loop ?r = Looping" "api_commands (rn_node ?r) = map (CmdSendMessage b) ms" "peer_states (rn_node ?r) b = Some (Secure s)"
    "linked b (rn_node ?r) []" "unat (send_nonce s) + length ms \<le> 2 ^ 48" "\<forall>m \<in> set ms. can_seal (env_aead E) (send_cipher s) m"
    using s session(3) idle(1) ms by (simp_all add: linked_def)
  obtain rA gs where rA: "sys_run E to_str st ?r (replicate (length ms) (Loop (TakeCommand now [] []))) rA" "rn_loop rA = Looping"
    "linked b (rn_node rA) ([] @ gs)" "carry (env_aead E) (send_cipher s) (send_nonce s) ms gs"
    by (rule loop_sends [OF r])
  have gs: "carry (env_aead E) k i ms gs" using rA(4) s by simp
  have "\<forall>m \<in> set ms. length m + 16 \<le> unat MAX_PAYLOAD_SIZE" using ms by blast
  note fr = carry_frames [OF gs tag [rule_format] this]
  obtain c where c: "peer_senders (nd_tcp (rn_node rA)) b = Some c" "c < length (channels (nd_tcp (rn_node rA)))"
    "channels (nd_tcp (rn_node rA)) ! c = \<lparr>running = True, queue = gs\<rparr>" using rA(3) by (auto simp: linked_def)
  have bytes: "fst (writer_run crc now b c (length ms) (nd_tcp (rn_node rA))) = concat (map (wire crc) gs)"
    using writer_run_drains [of "nd_tcp (rn_node rA)" c gs crc now b] c(2,3) fr by simp
  have "\<exists>rB. sys_run E to_str' st' (launch (B\<lparr>nd_tcp := reader_stream crc now a chunks (nd_tcp B)\<rparr>))
          (replicate (length ms) (Loop (TakeEvent now []))) rB \<and> api_events (rn_node rB) = api_events B @ map (MessageReceived a) ms"
    if "concat chunks = concat (map (wire crc) gs)" for chunks
  proof -
    let ?rB = "launch (B\<lparr>nd_tcp := reader_stream crc now a chunks (nd_tcp B)\<rparr>)"
    have "tcp_events (nd_tcp (rn_node ?rB)) = map (\<lambda>g. FrameReceived a (seal crc g)) gs"
      using stream_events [OF _ that, of now a "nd_tcp B"] fr idle(3) by (simp add: filter_id_conv comp_def)
    moreover have "\<forall>m \<in> set ms. utf8_valid m" using ms by blast
    ultimately show ?thesis
      using loop_receives [of ?rB a crc gs s' H i E ms to_str' st' now] s' gs session(3) by auto
  qed
  then show ?thesis using sys_run_append [OF rA(1) q] c(1) bytes by auto
qed

definition quiet_node :: "SocketAddr \<Rightarrow> byte list \<Rightarrow> byte list \<Rightarrow> Node" where
  "quiet_node a k k' = (let n = talking_node a k k' Map.empty in n\<lparr>nd_tcp := (nd_tcp n)\<lparr>tcp_events := []\<rparr>\<rparr>)"

lemma quiet_node_simps:
  "ready a k k' 1 1 (quiet_node a k k')" "linked a (quiet_node a k k') []" "api_commands (quiet_node a k k') = []"
  "tcp_events (nd_tcp (quiet_node a k k')) = []" "api_events (quiet_node a k k') = []"
  using talking_node_simps(1,2) [of a k k' Map.empty]
  by (simp_all add: quiet_node_def ready_def linked_def Let_def) (simp_all add: talking_node_def example_node_def node_init_def set_peer_def Let_def)

lemma toy_tag_law: "aead_decrypt toy_aead k n [] c = Some m \<Longrightarrow> length c = length m + 16"
  by (auto simp: toy_aead_def Let_def split: if_splits)

theorem chat_over_the_wire_witness:
  "let b = SockV4 [10, 0, 0, 2] 9741; a = SockV4 [10, 0, 0, 1] 50000; ms = [[104, 105], [111, 107]]
   in \<exists>rA c rB. sys_run example_env (Some :: byte list \<Rightarrow> _) example_api (launch (quiet_node b [1] [2]))
       (map (\<lambda>m. Handle (CmdSendMessage b m)) ms @ replicate 2 (Loop (TakeCommand 0 [] []))) rA \<and>
     sys_run example_env (Some :: byte list \<Rightarrow> _) example_api
       (launch ((quiet_node a [2] [1])\<lparr>nd_tcp := reader_stream sum_crc 0 a
          [fst (writer_run sum_crc 0 b c 2 (nd_tcp (rn_node rA)))] (nd_tcp (quiet_node a [2] [1]))\<rparr>))
       (replicate 2 (Loop (TakeEvent 0 []))) rB \<and>
     api_events (rn_node rB) = [MessageReceived a [104, 105], MessageReceived a [111, 107]]"
proof -
  let ?b = "SockV4 [10, 0, 0, 2] 9741" and ?a = "SockV4 [10, 0, 0, 1] 50000" and ?ms = "[[104, 105], [111, 107]] :: byte list list"
  note A = quiet_node_simps [of ?b "[1]" "[2]"] and B = quiet_node_simps [of ?a "[2]" "[1]"]
  have ms: "\<forall>m \<in> set ?ms. utf8_valid m \<and> length m + 16 \<le> unat MAX_PAYLOAD_SIZE \<and> can_seal (env_aead example_env) [1] m"
    by (simp add: example_env_def can_seal_def unat_MAX_PAYLOAD_SIZE)
  have tag: "\<forall>n c m. aead_decrypt (env_aead example_env) [1] n [] c = Some m \<longrightarrow> length c = length m + 16"
    by (simp add: example_env_def toy_tag_law)
  have len: "unat (1 :: u64) + length ?ms \<le> 2 ^ 48" "length ?ms = 2" by simp_all
  note wire = chat_over_the_wire [where now = 0 and crc = sum_crc and to_str = "Some :: byte list \<Rightarrow> _" and st = example_api
    and to_str' = "Some :: byte list \<Rightarrow> _" and st' = example_api, OF A(1) B(1) len(1) A(2,3) B(4) ms tag]
  then obtain rA c where rA: "sys_run example_env (Some :: byte list \<Rightarrow> _) example_api (launch (quiet_node ?b [1] [2]))
      (map (\<lambda>m. Handle (CmdSendMessage ?b m)) ?ms @ replicate 2 (Loop (TakeCommand 0 [] []))) rA"
    and rB: "\<forall>chunks. concat chunks = fst (writer_run sum_crc 0 ?b c 2 (nd_tcp (rn_node rA))) \<longrightarrow>
      (\<exists>rB. sys_run example_env (Some :: byte list \<Rightarrow> _) example_api
          (launch ((quiet_node ?a [2] [1])\<lparr>nd_tcp := reader_stream sum_crc 0 ?a chunks (nd_tcp (quiet_node ?a [2] [1]))\<rparr>))
          (replicate 2 (Loop (TakeEvent 0 []))) rB \<and> api_events (rn_node rB) = [] @ map (MessageReceived ?a) ?ms)"
    unfolding len(2) B(5) by blast
  let ?bs = "fst (writer_run sum_crc 0 ?b c 2 (nd_tcp (rn_node rA)))"
  have "concat [?bs] = ?bs" by simp
  from rB [rule_format, OF this] obtain r where r: "sys_run example_env (Some :: byte list \<Rightarrow> _) example_api
      (launch ((quiet_node ?a [2] [1])\<lparr>nd_tcp := reader_stream sum_crc 0 ?a [?bs] (nd_tcp (quiet_node ?a [2] [1]))\<rparr>))
      (replicate 2 (Loop (TakeEvent 0 []))) r" "api_events (rn_node r) = [] @ map (MessageReceived ?a) ?ms" by blast
  show ?thesis unfolding Let_def
    by (rule exI [of _ rA], rule exI [of _ c], rule exI [of _ r], intro conjI, rule rA, rule r(1)) (simp add: r(2))
qed

end
