(* ===== verification/Lookup.thy ===== *)
theory Lookup
  imports Routing
begin

text \<open>
  \<open>ceky-dht/src/operations.rs\<close>: the state machine of an iterative lookup, and a driver that alternates
  querying and processing of responses the way its users do.  The network is a function from the round
  and the queried batch to the peers the responses name.
\<close>

subsection \<open>The state machine\<close>

record PeerEntry =
  pe_peer_id :: PeerId
  pe_addr :: SocketAddr
  pe_distance :: "byte list"

record FindNodeResult =
  closest :: "PeerEntry list"
  hops :: nat
  queried_count :: nat

record IterativeLookup =
  lk_target :: PeerId
  known_peers :: "PeerEntry list"
  queried :: "PeerId set"
  lk_round :: nat
  converged :: bool

definition add_peer :: "IterativeLookup \<Rightarrow> PeerEntry \<Rightarrow> IterativeLookup" where
  "add_peer l peer =
     (if list_ex (\<lambda>p. pe_peer_id p = pe_peer_id peer) (known_peers l) then l
      else
        let entry = \<lparr>pe_peer_id = pe_peer_id peer, pe_addr = pe_addr peer,
                     pe_distance = xor_distance (pe_peer_id peer) (lk_target l)\<rparr>
        in l\<lparr>known_peers := take (K * 3) (sort_key pe_distance (known_peers l @ [entry]))\<rparr>)"

definition IterativeLookup_new :: "PeerId \<Rightarrow> PeerEntry list \<Rightarrow> IterativeLookup" where
  "IterativeLookup_new tgt seed_peers =
     foldl add_peer \<lparr>lk_target = tgt, known_peers = [], queried = {}, lk_round = 0, converged = False\<rparr>
       seed_peers"

definition next_to_query :: "IterativeLookup \<Rightarrow> PeerEntry list \<times> IterativeLookup" where
  "next_to_query l =
     (let to_query = take ALPHA (filter (\<lambda>p. pe_peer_id p \<notin> queried l) (known_peers l));
          l = (if to_query = [] then l\<lparr>converged := True\<rparr> else l);
          l = l\<lparr>queried := queried l \<union> pe_peer_id ` set to_query\<rparr>
      in (to_query, l\<lparr>lk_round := lk_round l + 1\<rparr>))"

definition process_responses :: "IterativeLookup \<Rightarrow> PeerEntry list \<Rightarrow> IterativeLookup" where
  "process_responses l new_peers = foldl add_peer l new_peers"

definition lookup_is_complete :: "IterativeLookup \<Rightarrow> bool" where
  "lookup_is_complete l = converged l"

definition lookup_result :: "IterativeLookup \<Rightarrow> FindNodeResult" where
  "lookup_result l = \<lparr>closest = take K (known_peers l), hops = lk_round l, queried_count = card (queried l)\<rparr>"

text \<open>The driver: query, stop when complete, otherwise process what comes back.  The trace holds each
  batch with the peers its responses named.\<close>

fun run_lookup :: "(nat \<Rightarrow> PeerEntry list \<Rightarrow> PeerEntry list) \<Rightarrow> nat \<Rightarrow> IterativeLookup \<Rightarrow>
    (PeerEntry list \<times> PeerEntry list) list \<times> IterativeLookup" where
  "run_lookup net 0 l = ([], l)"
| "run_lookup net (Suc fuel) l =
     (case next_to_query l of (batch, l') \<Rightarrow>
        if lookup_is_complete l' then ([], l')
        else
          let resp = net (lk_round l') batch
          in case run_lookup net fuel (process_responses l' resp) of
               (tr, l'') \<Rightarrow> ((batch, resp) # tr, l''))"

definition heard :: "(PeerEntry list \<times> PeerEntry list) list \<Rightarrow> PeerId set" where
  "heard tr = pe_peer_id ` set (concat (map snd tr))"

subsection \<open>The invariant\<close>

text \<open>\<open>lk_inv l S\<close>: the known peers are sorted, distinct, at most 60, carry their distance, and of all
  peers seen so far (\<open>S\<close>) only ones at least as far as every known one have been dropped.\<close>

definition lk_inv :: "IterativeLookup \<Rightarrow> PeerId set \<Rightarrow> bool" where
  "lk_inv l S \<longleftrightarrow> sorted (map pe_distance (known_peers l)) \<and> distinct (map pe_peer_id (known_peers l)) \<and>
     length (known_peers l) \<le> 60 \<and> pe_peer_id ` set (known_peers l) \<subseteq> S \<and>
     (\<forall>e \<in> set (known_peers l). pe_distance e = xor_distance (pe_peer_id e) (lk_target l)) \<and>
     (\<forall>s \<in> S. s \<in> pe_peer_id ` set (known_peers l) \<or>
        (length (known_peers l) = 60 \<and>
         (\<forall>e \<in> set (known_peers l). pe_distance e \<le> xor_distance s (lk_target l))))"

lemma add_peer_frame [simp]:
  "lk_target (add_peer l p) = lk_target l" "queried (add_peer l p) = queried l"
  "lk_round (add_peer l p) = lk_round l" "converged (add_peer l p) = converged l"
  by (simp_all add: add_peer_def Let_def)

lemma distinct_map_sort_key: "distinct (map f (sort_key g xs)) \<longleftrightarrow> distinct (map f xs)"
  by (simp add: distinct_map)

lemma lk_inv_add:
  assumes inv: "lk_inv l S"
  shows "lk_inv (add_peer l p) (insert (pe_peer_id p) S)"
proof (cases "pe_peer_id p \<in> pe_peer_id ` set (known_peers l)")
  case True
  then have "add_peer l p = l" by (auto simp: add_peer_def list_ex_iff)
  then show ?thesis using inv True by (auto simp: lk_inv_def)
next
  case False
  define e where "e = \<lparr>pe_peer_id = pe_peer_id p, pe_addr = pe_addr p,
      pe_distance = xor_distance (pe_peer_id p) (lk_target l)\<rparr>"
  let ?xs = "known_peers l @ [e]" and ?ks = "take 60 (sort_key pe_distance (known_peers l @ [e]))"
  have ks: "known_peers (add_peer l p) = ?ks"
    using False by (subst add_peer_def) (force simp: list_ex_iff Let_def e_def K_def image_iff)
  have d: "distinct (map pe_peer_id ?xs)" using inv False by (auto simp: lk_inv_def e_def)
  have far: "length ?ks = 60 \<and> (\<forall>k \<in> set ?ks. pe_distance k \<le> pe_distance x)"
    if "x \<in> set ?xs" "x \<notin> set ?ks" for x
  proof -
    have "\<not> length ?xs \<le> 60" using that by (metis length_sort set_sort take_all)
    then show ?thesis using that sort_key_take_closest [of x ?xs 60 pe_distance] by auto
  qed
  have keep: "s \<in> pe_peer_id ` set ?ks \<or>
      (length ?ks = 60 \<and> (\<forall>k \<in> set ?ks. pe_distance k \<le> xor_distance s (lk_target l)))"
    if s: "s \<in> insert (pe_peer_id p) S" for s
  proof (cases "s \<in> pe_peer_id ` set ?xs")
    case True
    then obtain x where x: "x \<in> set ?xs" "s = pe_peer_id x" by blast
    then have "pe_distance x = xor_distance s (lk_target l)" using inv by (auto simp: lk_inv_def e_def)
    then show ?thesis using far [OF x(1)] x(2) by auto
  next
    case gone: False
    then have full: "length (known_peers l) = 60"
      "\<forall>k \<in> set (known_peers l). pe_distance k \<le> xor_distance s (lk_target l)"
      using s inv by (auto simp: lk_inv_def e_def)
    obtain x where x: "x \<in> set ?xs" "x \<notin> set ?ks"
    proof (rule ccontr)
      assume none: "\<not> thesis"
      then have "set ?xs \<subseteq> set ?ks" using that by blast
      then have "card (set ?xs) \<le> card (set ?ks)" by (intro card_mono) auto
      also have "\<dots> \<le> 60" by (rule le_trans [OF card_length]) simp
      finally have "card (set ?xs) \<le> 60" .
      moreover have "distinct ?xs" using d unfolding distinct_map by blast
      ultimately show False using full(1) distinct_card [of ?xs] by (simp del: set_append)
    qed
    have "pe_distance k \<le> xor_distance s (lk_target l)" if k: "k \<in> set ?ks" for k
    proof (cases "k = e")
      case True
      then have "x \<in> set (known_peers l)" using x k by auto
      then show ?thesis using far [OF x] k full(2) order_trans by blast
    next
      case False
      then have "k \<in> set (known_peers l)" using k by (auto dest: in_set_takeD)
      then show ?thesis using full(2) by blast
    qed
    then show ?thesis using far [OF x] by blast
  qed
  have sub: "set ?ks \<subseteq> set ?xs" by (auto dest: in_set_takeD)
  have xs: "\<forall>k \<in> set ?xs. pe_distance k = xor_distance (pe_peer_id k) (lk_target l)"
    "pe_peer_id ` set ?xs \<subseteq> insert (pe_peer_id p) S"
    using inv by (auto simp: lk_inv_def e_def)
  have "sorted (map pe_distance ?ks)" by (simp add: sorted_wrt_take flip: take_map)
  moreover have "distinct (map pe_peer_id ?ks)"
    using d by (simp add: distinct_take distinct_map_sort_key del: map_append flip: take_map)
  moreover have "pe_peer_id ` set ?ks \<subseteq> insert (pe_peer_id p) S" using sub xs(2) by blast
  moreover have "\<forall>k \<in> set ?ks. pe_distance k = xor_distance (pe_peer_id k) (lk_target l)"
    using sub xs(1) by blast
  moreover have "length ?ks \<le> 60" by simp
  ultimately show ?thesis
    using keep unfolding lk_inv_def ks add_peer_frame by blast
qed

lemma lk_inv_fold:
  "lk_inv l S \<Longrightarrow> lk_inv (foldl add_peer l ps) (S \<union> pe_peer_id ` set ps)"
proof (induction ps arbitrary: l S)
  case (Cons p ps)
  from Cons.IH [OF lk_inv_add [OF Cons.prems, of p]] show ?case by simp
qed simp

lemma foldl_add_frame [simp]:
  "lk_target (foldl add_peer l ps) = lk_target l" "queried (foldl add_peer l ps) = queried l"
  "lk_round (foldl add_peer l ps) = lk_round l" "converged (foldl add_peer l ps) = converged l"
  by (induction ps arbitrary: l) simp_all

lemma lk_inv_empty: "known_peers l = [] \<Longrightarrow> lk_inv l {}"
  by (simp add: lk_inv_def)

lemma lk_inv_new: "lk_inv (IterativeLookup_new tgt seeds) (pe_peer_id ` set seeds)"
  using lk_inv_fold [of "\<lparr>lk_target = tgt, known_peers = [], queried = {}, lk_round = 0, converged = False\<rparr>" "{}" seeds]
  unfolding IterativeLookup_new_def by (simp add: lk_inv_empty)

lemma next_to_query_props:
  assumes "next_to_query l = (batch, l')"
  shows "known_peers l' = known_peers l" "lk_target l' = lk_target l" "set batch \<subseteq> set (known_peers l)"
    "queried l' = queried l \<union> pe_peer_id ` set batch" "pe_peer_id ` set batch \<inter> queried l = {}"
    "length batch \<le> ALPHA" "converged l' \<longleftrightarrow> converged l \<or> batch = []"
    "batch = [] \<longleftrightarrow> pe_peer_id ` set (known_peers l) \<subseteq> queried l" "lk_round l' = Suc (lk_round l)"
  using assms
  by (auto simp: next_to_query_def Let_def ALPHA_def filter_empty_conv dest: in_set_takeD split: if_splits)

lemma next_to_query_distinct:
  "next_to_query l = (batch, l') \<Longrightarrow> distinct (map pe_peer_id (known_peers l)) \<Longrightarrow>
    distinct (map pe_peer_id batch)"
  by (auto simp: next_to_query_def Let_def distinct_map_filter distinct_take simp flip: take_map)

lemma lk_inv_frame:
  "known_peers l' = known_peers l \<Longrightarrow> lk_target l' = lk_target l \<Longrightarrow> lk_inv l' S \<longleftrightarrow> lk_inv l S"
  unfolding lk_inv_def by (simp only:)

subsection \<open>Runs of the driver\<close>

lemma run_lookup_SucE:
  assumes "run_lookup net (Suc n) l = (tr, l')"
  obtains (stop) b where "next_to_query l = (b, l')" "converged l'" "tr = []"
  | (round) b m tr' where "next_to_query l = (b, m)" "\<not> converged m" "tr = (b, net (lk_round m) b) # tr'"
      "run_lookup net n (process_responses m (net (lk_round m) b)) = (tr', l')"
  using assms by (auto simp: lookup_is_complete_def Let_def split: prod.splits if_splits)

lemma lk_inv_round:
  assumes "lk_inv l S" "next_to_query l = (b, m)"
  shows "lk_inv m S" "lk_inv (process_responses m ps) (S \<union> pe_peer_id ` set ps)"
proof -
  show m: "lk_inv m S" using assms lk_inv_frame next_to_query_props(1,2) by blast
  then show "lk_inv (process_responses m ps) (S \<union> pe_peer_id ` set ps)"
    by (simp add: process_responses_def lk_inv_fold)
qed

lemma run_lookup_inv:
  "run_lookup net n l = (tr, l') \<Longrightarrow> lk_inv l S \<Longrightarrow> lk_inv l' (S \<union> heard tr) \<and> lk_target l' = lk_target l"
proof (induction n arbitrary: l S tr)
  case (Suc n)
  from Suc.prems(1) show ?case
  proof (cases rule: run_lookup_SucE)
    case (stop b)
    then show ?thesis
      using lk_inv_round(1) [OF Suc.prems(2)] next_to_query_props(2) by (auto simp: heard_def)
  next
    case (round b m tr')
    have "heard tr = pe_peer_id ` set (net (lk_round m) b) \<union> heard tr'"
      by (simp add: heard_def round(3) image_Un)
    then show ?thesis
      using Suc.IH [OF round(4) lk_inv_round(2) [OF Suc.prems(2) round(1)]]
        next_to_query_props(2) [OF round(1)]
      by (simp add: Un_assoc process_responses_def)
  qed
qed (simp add: heard_def)

text \<open>The number of identifiers not queried yet bounds the number of rounds.\<close>

lemma run_lookup_completes:
  assumes "lk_inv l S" "S \<subseteq> U" "finite U" "\<And>r b. pe_peer_id ` set (net r b) \<subseteq> U"
    "\<not> converged l" "card (U - queried l) < n"
  shows "\<exists>tr l'. run_lookup net n l = (tr, l') \<and> converged l' \<and>
           pe_peer_id ` set (known_peers l') \<subseteq> queried l' \<and> length tr \<le> card (U - queried l)"
  using assms
proof (induction n arbitrary: l S)
  case (Suc n)
  obtain b m where nx: "next_to_query l = (b, m)" by (cases "next_to_query l")
  note p = next_to_query_props [OF nx]
  show ?case
  proof (cases "b = []")
    case True
    then show ?thesis using nx p by (auto simp: lookup_is_complete_def)
  next
    case False
    let ?m = "process_responses m (net (lk_round m) b)"
    have q: "queried ?m = queried l \<union> pe_peer_id ` set b" "\<not> converged ?m"
      using p(4,7) Suc.prems(5) False by (auto simp: process_responses_def)
    have "pe_peer_id ` set b \<subseteq> U"
      using Suc.prems(1,2) p(3) by (auto simp: lk_inv_def)
    then have "U - queried ?m \<subset> U - queried l" using p(5) False q(1) by (cases b) auto
    then have less: "card (U - queried ?m) < card (U - queried l)"
      using Suc.prems(3) by (intro psubset_card_mono) auto
    obtain tr l' where "run_lookup net n ?m = (tr, l')" "converged l'"
      "pe_peer_id ` set (known_peers l') \<subseteq> queried l'" "length tr \<le> card (U - queried ?m)"
      using Suc.IH [OF lk_inv_round(2) [OF Suc.prems(1) nx] _ Suc.prems(3,4) q(2)] Suc.prems(2,4,6) less
      by force
    moreover have "\<not> converged m" using p(7) Suc.prems(5) False by blast
    ultimately show ?thesis using nx less by (auto simp: lookup_is_complete_def)
  qed
qed simp

lemma run_lookup_batches:
  assumes "run_lookup net n l = (tr, l')" "lk_inv l S"
  shows "distinct (map pe_peer_id (concat (map fst tr))) \<and>
    pe_peer_id ` set (concat (map fst tr)) \<inter> queried l = {} \<and> (\<forall>(b, r) \<in> set tr. length b \<le> ALPHA)"
  using assms
proof (induction n arbitrary: l tr S)
  case (Suc n)
  from Suc.prems(1) show ?case
  proof (cases rule: run_lookup_SucE)
    case (round b m tr')
    note p = next_to_query_props [OF round(1)]
    let ?Q = "pe_peer_id ` set (concat (map fst tr'))"
    have ih: "distinct (map pe_peer_id (concat (map fst tr')))"
      "?Q \<inter> queried (process_responses m (net (lk_round m) b)) = {}" "\<forall>(b, r) \<in> set tr'. length b \<le> ALPHA"
      using Suc.IH [OF round(4) lk_inv_round(2) [OF Suc.prems(2) round(1)]] by blast+
    then have "?Q \<inter> queried l = {}" "?Q \<inter> pe_peer_id ` set b = {}"
      using p(4) by (auto simp: process_responses_def Int_Un_distrib simp del: set_concat)
    moreover have "distinct (map pe_peer_id b)"
      using next_to_query_distinct [OF round(1)] Suc.prems(2) by (simp add: lk_inv_def)
    ultimately show ?thesis
      using ih(1,3) p(5,6)
      by (simp add: round(3) image_Un Int_Un_distrib Int_Un_distrib2 Int_commute del: set_concat)
  qed simp
qed simp

lemma lk_inv_closest:
  assumes "lk_inv l S" "finite S"
  shows "pe_peer_id ` set (take k (known_peers l)) \<subseteq> S"
    "k \<le> 60 \<Longrightarrow> length (take k (known_peers l)) = min k (card S)"
    "s \<in> S \<Longrightarrow> s \<notin> pe_peer_id ` set (take k (known_peers l)) \<Longrightarrow> e \<in> set (take k (known_peers l)) \<Longrightarrow>
      pe_distance e \<le> xor_distance s (lk_target l)"
proof -
  let ?ks = "known_peers l"
  show "pe_peer_id ` set (take k ?ks) \<subseteq> S"
    using assms(1) by (auto simp: lk_inv_def dest: in_set_takeD)
  show "length (take k ?ks) = min k (card S)" if "k \<le> 60"
  proof (cases "pe_peer_id ` set ?ks = S")
    case True
    then have "card S = length ?ks"
      using assms(1) by (auto simp: lk_inv_def distinct_map card_image distinct_card)
    then show ?thesis by (simp add: min.commute)
  next
    case False
    then have n: "length ?ks = 60" "pe_peer_id ` set ?ks \<subseteq> S" using assms(1) by (auto simp: lk_inv_def)
    moreover have "card (pe_peer_id ` set ?ks) = length ?ks"
      using assms(1) by (auto simp: lk_inv_def distinct_map card_image distinct_card)
    ultimately have "60 \<le> card S" using card_mono [OF assms(2) n(2)] by simp
    then show ?thesis using n(1) that by simp
  qed
  show "pe_distance e \<le> xor_distance s (lk_target l)"
    if s: "s \<in> S" "s \<notin> pe_peer_id ` set (take k ?ks)" and e: "e \<in> set (take k ?ks)"
  proof (cases "s \<in> pe_peer_id ` set ?ks")
    case True
    then obtain x where x: "x \<in> set ?ks" "pe_peer_id x = s" by blast
    then have "x \<in> set (drop k ?ks)" using s(2) append_take_drop_id [of k ?ks] by (metis Un_iff imageI set_append)
    moreover have "sorted (map pe_distance (take k ?ks @ drop k ?ks))"
      using assms(1) by (simp add: lk_inv_def)
    ultimately have "pe_distance e \<le> pe_distance x"
      using e unfolding map_append sorted_append by auto
    then show ?thesis using assms(1) x by (auto simp: lk_inv_def)
  next
    case False
    then have "\<forall>e \<in> set ?ks. pe_distance e \<le> xor_distance s (lk_target l)"
      using assms(1) s(1) unfolding lk_inv_def by blast
    then show ?thesis using e by (auto dest: in_set_takeD)
  qed
qed

subsection \<open>Correctness of a lookup\<close>

text \<open>C13. A lookup terminates: when the seeds and all responses name peers of a finite set \<open>U\<close>, the
  driver completes within one round more than \<open>U\<close> has members, every peer it still knows has been
  queried by then, no peer is queried twice, and no round queries more than three peers.\<close>

theorem lookup_terminates:
  assumes "finite U" "pe_peer_id ` set seeds \<subseteq> U" "\<And>r b. pe_peer_id ` set (net r b) \<subseteq> U"
  shows "\<exists>tr l. run_lookup net (card U + 1) (IterativeLookup_new tgt seeds) = (tr, l) \<and>
    lookup_is_complete l \<and> pe_peer_id ` set (known_peers l) \<subseteq> queried l \<and> length tr \<le> card U \<and>
    distinct (map pe_peer_id (concat (map fst tr))) \<and> (\<forall>(b, r) \<in> set tr. length b \<le> 3)"
proof -
  let ?l = "IterativeLookup_new tgt seeds"
  have "\<not> converged ?l" "queried ?l = {}" by (simp_all add: IterativeLookup_new_def)
  then obtain tr l where r: "run_lookup net (card U + 1) ?l = (tr, l)" "converged l"
    "pe_peer_id ` set (known_peers l) \<subseteq> queried l" "length tr \<le> card U"
    using run_lookup_completes [where net = net and n = "card U + 1" and l = ?l, OF lk_inv_new assms(2,1,3)]
    by (auto simp del: run_lookup.simps)
  then show ?thesis
    using run_lookup_batches [OF r(1) lk_inv_new] by (auto simp: lookup_is_complete_def ALPHA_def)
qed

theorem lookup_terminates_witness:
  "\<exists>tr l. run_lookup
     (\<lambda>r b. [\<lparr>pe_peer_id = PeerId (replicate 32 2), pe_addr = SockV4 [1, 2, 3, 4] 80, pe_distance = []\<rparr>])
     (card {PeerId (replicate 32 1), PeerId (replicate 32 2)} + 1)
     (IterativeLookup_new (PeerId (replicate 32 9))
        [\<lparr>pe_peer_id = PeerId (replicate 32 1), pe_addr = SockV4 [1, 2, 3, 4] 80, pe_distance = []\<rparr>]) = (tr, l) \<and>
     lookup_is_complete l"
proof -
  let ?p = "\<lambda>x. \<lparr>pe_peer_id = PeerId (replicate 32 x), pe_addr = SockV4 [1, 2, 3, 4] 80, pe_distance = []\<rparr>"
  have "finite {PeerId (replicate 32 1), PeerId (replicate 32 2)}"
    "pe_peer_id ` set [?p 1] \<subseteq> {PeerId (replicate 32 1), PeerId (replicate 32 2)}"
    "\<And>r b. pe_peer_id ` set ((\<lambda>_ _. [?p 2]) r b) \<subseteq> {PeerId (replicate 32 1), PeerId (replicate 32 2)}"
    by simp_all
  from lookup_terminates [OF this] show ?thesis by blast
qed

text \<open>C14. Whenever the driver stops, the result holds the closest of all peers ever heard of, seeds
  and responses: at most twenty, and all of them if there are fewer, without duplicates and in order of
  distance; a peer left out is at least as far from the target as every one in the result.  In
  particular, cutting the working list back to sixty entries loses nothing.\<close>

theorem lookup_result_closest:
  assumes "run_lookup net n (IterativeLookup_new tgt seeds) = (tr, l)"
  shows "let res = closest (lookup_result l); H = pe_peer_id ` set seeds \<union> heard tr
    in pe_peer_id ` set res \<subseteq> H \<and> length res = min 20 (card H) \<and> distinct (map pe_peer_id res) \<and>
       sorted (map (\<lambda>e. xor_distance (pe_peer_id e) tgt) res) \<and>
       (\<forall>s \<in> H - pe_peer_id ` set res. \<forall>e \<in> set res. xor_distance (pe_peer_id e) tgt \<le> xor_distance s tgt)"
proof -
  let ?H = "pe_peer_id ` set seeds \<union> heard tr" and ?res = "take 20 (known_peers l)"
  have inv: "lk_inv l ?H" and t: "lk_target l = tgt"
    using run_lookup_inv [OF assms lk_inv_new] by (simp_all add: IterativeLookup_new_def)
  have fin: "finite ?H" by (simp add: heard_def)
  have dist: "pe_distance e = xor_distance (pe_peer_id e) tgt" if "e \<in> set ?res" for e
    using inv t that by (auto simp: lk_inv_def dest: in_set_takeD)
  have "sorted (map pe_distance ?res)" "distinct (map pe_peer_id ?res)"
    using inv by (simp_all add: lk_inv_def sorted_wrt_take distinct_take flip: take_map)
  moreover have "map pe_distance ?res = map (\<lambda>e. xor_distance (pe_peer_id e) tgt) ?res"
    using dist by simp
  ultimately show ?thesis
    using lk_inv_closest [OF inv fin, where k = 20] dist t
    unfolding Let_def lookup_result_def K_def FindNodeResult.simps by (auto simp del: set_take_subset)
qed

theorem lookup_result_closest_witness:
  "length (closest (lookup_result (snd (run_lookup (\<lambda>r b. []) 0 (IterativeLookup_new (PeerId (replicate 32 9))
     [\<lparr>pe_peer_id = PeerId (replicate 32 1), pe_addr = SockV4 [1, 2, 3, 4] 80, pe_distance = []\<rparr>,
      \<lparr>pe_peer_id = PeerId (replicate 32 2), pe_addr = SockV4 [1, 2, 3, 4] 80, pe_distance = []\<rparr>]))))) = 2"
proof -
  let ?seeds = "[\<lparr>pe_peer_id = PeerId (replicate 32 1), pe_addr = SockV4 [1, 2, 3, 4] 80, pe_distance = []\<rparr>,
      \<lparr>pe_peer_id = PeerId (replicate 32 2), pe_addr = SockV4 [1, 2, 3, 4] 80, pe_distance = []\<rparr>]"
  have "run_lookup (\<lambda>r b. []) 0 (IterativeLookup_new (PeerId (replicate 32 9)) ?seeds) =
      ([], IterativeLookup_new (PeerId (replicate 32 9)) ?seeds)" by simp
  from lookup_result_closest [OF this]
  show ?thesis by (simp add: Let_def heard_def numeral_eq_Suc)
qed

end
