(* ===== verification/Kademlia.thy ===== *)
theory Kademlia
  imports Lookup Node
begin

text \<open>
  Lookups over a network: \<open>ceky-dht/src/operations.rs\<close> driven with what the nodes of \<open>ceky-node/src/node.rs\<close>
  answer to a \<open>FindNode\<close>, each from its own routing table, through the encoding of \<open>FindNodeResp\<close>.  A network
  is a map from the identifiers of its live nodes to their states.
\<close>

subsection \<open>Buckets and distances\<close>

text \<open>If some peer in a bucket of \<open>q\<close> is closer to \<open>t\<close> than \<open>q\<close> itself, then every peer of that bucket is.\<close>

lemma word_less_top_bit:
  fixes a b :: byte
  assumes "a < b" "a XOR b = c"
  shows "bit b (7 - leading_zeros c)"
proof (rule ccontr)
  let ?m = "7 - leading_zeros c"
  have "c \<noteq> 0" using assms by auto
  note top = leading_zeros_top [OF this]
  assume "\<not> bit b ?m"
  then have "bit a ?m" using top(1) assms(2) by (auto simp: bit_xor_iff)
  moreover have "bit b j = bit a j" if "?m < j" for j
    using top(2) [OF that] assms(2) by (auto simp: bit_xor_iff)
  ultimately have "b < a" using \<open>\<not> bit b ?m\<close> by (intro word_less_by_bit [of _ ?m])
  then show False using assms(1) by simp
qed

lemma lexorder_first_diff:
  assumes "xs < (ys :: 'a::order list)" "length xs = length ys" "k < length xs" "\<And>j. j < k \<Longrightarrow> xs ! j = ys ! j" "xs ! k \<noteq> ys ! k"
  shows "xs ! k < ys ! k"
proof -
  obtain i where i: "i < length xs" "take i xs = take i ys" "xs ! i < ys ! i"
    using assms(1,2) by (auto simp: list_less_def lexord_take_index_conv)
  then have "\<not> i < k" using assms(4) [of i] by auto
  moreover have "\<not> k < i" using i(2) assms(5) by (metis nth_take)
  ultimately show ?thesis using i(3) by (metis nat_neq_iff)
qed

lemma nothing_closer: "\<not> xor_distance p t < xor_distance t t"
  by (auto simp: list_less_def lexord_take_index_conv)

lemma bucket_mates_closer:
  assumes "bucket_index q c = Some i" "bucket_index q x = Some i" "xor_distance c t < xor_distance q t"
  shows "xor_distance x t < xor_distance q t"
proof -
  obtain k where k: "k < 32" "\<And>j. j < k \<Longrightarrow> as_bytes q ! j = as_bytes c ! j" "as_bytes q ! k \<noteq> as_bytes c ! k"
    "i = 8 * k + (7 - leading_zeros (as_bytes q ! k XOR as_bytes c ! k))"
    using assms(1) by (auto simp: bucket_index_Some)
  obtain k' where k': "k' < 32" "\<And>j. j < k' \<Longrightarrow> as_bytes q ! j = as_bytes x ! j" "as_bytes q ! k' \<noteq> as_bytes x ! k'"
    "i = 8 * k' + (7 - leading_zeros (as_bytes q ! k' XOR as_bytes x ! k'))"
    using assms(2) by (auto simp: bucket_index_Some)
  have same: "k' = k" using k(4) k'(4) by linarith
  let ?q = "as_bytes q ! k" and ?c = "as_bytes c ! k" and ?x = "as_bytes x ! k" and ?t = "as_bytes t ! k"
  let ?m = "7 - leading_zeros (?q XOR ?c)"
  have m: "?m = 7 - leading_zeros (?q XOR ?x)" using k(4) k'(4) same by simp
  have "xor_distance c t ! k < xor_distance q t ! k"
    using k by (intro lexorder_first_diff [OF assms(3)]) (auto simp: xor.commute [of _ ?t])
  then have "?c XOR ?t < ?q XOR ?t" using k(1) by simp
  moreover have "(?c XOR ?t) XOR (?q XOR ?t) = ?q XOR ?c" by (auto simp: bit_eq_iff bit_xor_iff)
  ultimately have bit: "bit (?q XOR ?t) ?m" by (rule word_less_top_bit)
  have nz: "?q XOR ?x \<noteq> 0" using k'(3) same by simp
  have "?x XOR ?t < ?q XOR ?t"
  proof (rule word_less_by_bit [OF bit])
    show "\<not> bit (?x XOR ?t) ?m" using bit leading_zeros_top(1) [OF nz] m by (auto simp: bit_xor_iff)
    show "bit (?x XOR ?t) j = bit (?q XOR ?t) j" if "?m < j" for j
      using leading_zeros_top(2) [OF nz, of j] that m by (auto simp: bit_xor_iff)
  qed
  then show ?thesis using k(1) k'(2) same by (intro lexorder_at [of k]) simp_all
qed

subsection \<open>What a network answers\<close>

type_synonym network = "PeerId \<rightharpoonup> Node"

text \<open>The answer of a queried peer, as its entries arrive; a peer that is not live does not answer.\<close>

definition answer :: "network \<Rightarrow> PeerId \<Rightarrow> PeerEntry \<Rightarrow> PeerEntry list" where
  "answer N tgt e =
     (case N (pe_peer_id e) of
        None \<Rightarrow> []
      | Some n \<Rightarrow>
          (case FindNodeResp_decode (FindNodeResp_encode \<lparr>resp_peers = find_node_answer tgt n\<rparr>) of
             Inl _ \<Rightarrow> []
           | Inr resp \<Rightarrow> map (\<lambda>(bs, a). \<lparr>pe_peer_id = PeerId bs, pe_addr = a, pe_distance = []\<rparr>) (resp_peers resp)))"

definition ask :: "network \<Rightarrow> PeerId \<Rightarrow> nat \<Rightarrow> PeerEntry list \<Rightarrow> PeerEntry list" where
  "ask N tgt r batch = concat (map (answer N tgt) batch)"

text \<open>A healthy network: the table of every node is well-formed and names as usable only live nodes,
  and where the network has a node for a bucket of a table, that bucket names one.\<close>

definition healthy :: "network \<Rightarrow> bool" where
  "healthy N \<longleftrightarrow> finite (dom N) \<and>
     (\<forall>p n. N p = Some n \<longrightarrow> peer_id (nd_identity n) = p \<and> sock_ok (nd_tcp_addr n) \<and>
        rt_inv (routing_table n) \<and> local_id (routing_table n) = p \<and>
        (\<forall>x \<in> set (active_peers (routing_table n)). pi_peer_id x \<in> dom N \<and> sock_ok (pi_addr x)) \<and>
        (\<forall>q \<in> dom N. q \<noteq> p \<longrightarrow>
           (\<exists>x \<in> set (active_peers (routing_table n)). bucket_index p (pi_peer_id x) = bucket_index p q)))"

lemma healthy_pid_ok: "healthy N \<Longrightarrow> p \<in> dom N \<Longrightarrow> pid_ok p"
  unfolding healthy_def rt_inv_def by (metis domD)

lemma active_pid_ok: "rt_inv t \<Longrightarrow> x \<in> set (active_peers t) \<Longrightarrow> pid_ok (pi_peer_id x)"
  using all_peers_bucket [of t x] by (auto simp: active_peers_def all_peers_def rt_inv_def bucket_ok_def peer_in_bucket_def)

lemma find_closest_active: "x \<in> set (find_closest tgt k t) \<Longrightarrow> x \<in> set (active_peers t)"
  by (auto simp: find_closest_eq dest: in_set_takeD)

lemma length_find_closest: "length (find_closest tgt k t) \<le> k"
  by (simp add: find_closest_eq)

lemma find_node_answer_ok:
  assumes "pid_ok (peer_id (nd_identity n))" "sock_ok (nd_tcp_addr n)" "rt_inv (routing_table n)"
    "\<forall>x \<in> set (active_peers (routing_table n)). sock_ok (pi_addr x)"
  shows "list_all peer_ok (find_node_answer tgt n)" "length (find_node_answer tgt n) \<le> 255"
    "FindNodeResp_decode (FindNodeResp_encode \<lparr>resp_peers = find_node_answer tgt n\<rparr>) =
      Inr \<lparr>resp_peers = map (apsnd strip_scope) (find_node_answer tgt n)\<rparr>"
proof -
  show ok: "list_all peer_ok (find_node_answer tgt n)"
    using assms active_pid_ok [OF assms(3)]
    by (auto simp: find_node_answer_def list_all_iff peer_ok_def pid_ok_def dest: find_closest_active)
  show len: "length (find_node_answer tgt n) \<le> 255"
    using length_find_closest [of tgt 20 "routing_table n"] by (auto simp: find_node_answer_def)
  show "FindNodeResp_decode (FindNodeResp_encode \<lparr>resp_peers = find_node_answer tgt n\<rparr>) =
      Inr \<lparr>resp_peers = map (apsnd strip_scope) (find_node_answer tgt n)\<rparr>"
    using FindNodeResp_decode_encode [of "\<lparr>resp_peers = find_node_answer tgt n\<rparr>"] ok len by simp
qed

lemma answer_ids:
  assumes "healthy N" "N (pe_peer_id e) = Some n"
  shows "pe_peer_id ` set (answer N tgt e) = (PeerId \<circ> fst) ` set (find_node_answer tgt n)"
proof -
  have "pid_ok (peer_id (nd_identity n))" "sock_ok (nd_tcp_addr n)" "rt_inv (routing_table n)"
    "\<forall>x \<in> set (active_peers (routing_table n)). sock_ok (pi_addr x)"
    using assms healthy_pid_ok [OF assms(1)] by (auto simp: healthy_def)
  from find_node_answer_ok(3) [OF this, of tgt] show ?thesis using assms(2) by (force simp: answer_def)
qed

text \<open>Answers name live nodes, and a node that is not the closest to the target names one closer than itself.\<close>

lemma answer_live:
  assumes "healthy N"
  shows "pe_peer_id ` set (answer N tgt e) \<subseteq> dom N"
proof (cases "N (pe_peer_id e)")
  case (Some n)
  then have "peer_id (nd_identity n) = pe_peer_id e" "\<forall>x \<in> set (active_peers (routing_table n)). pi_peer_id x \<in> dom N"
    using assms by (auto simp: healthy_def)
  moreover have "\<exists>y. N (pi_peer_id x) = Some y" if "x \<in> set (find_closest tgt 20 (routing_table n))" for x
    using calculation(2) find_closest_active [OF that] by blast
  ultimately show ?thesis using answer_ids [OF assms Some, of tgt] Some
    by (auto simp: find_node_answer_def split: if_splits)
qed (simp add: answer_def)

lemma ask_live: "healthy N \<Longrightarrow> pe_peer_id ` set (ask N tgt r b) \<subseteq> dom N"
  using answer_live by (simp add: ask_def image_UN UN_subset_iff)

lemma answer_progress:
  assumes "healthy N" "pe_peer_id e \<in> dom N" "c \<in> dom N" "xor_distance c tgt < xor_distance (pe_peer_id e) tgt"
  shows "\<exists>y \<in> pe_peer_id ` set (answer N tgt e). xor_distance y tgt < xor_distance (pe_peer_id e) tgt"
proof -
  let ?q = "pe_peer_id e"
  obtain n where n: "N ?q = Some n" using assms(2) by blast
  then have h: "peer_id (nd_identity n) = ?q" "rt_inv (routing_table n)" using assms(1) by (auto simp: healthy_def)
  have "c \<noteq> ?q" using assms(4) by auto
  then obtain x where x: "x \<in> set (active_peers (routing_table n))" "bucket_index ?q (pi_peer_id x) = bucket_index ?q c"
    using assms(1,3) n unfolding healthy_def by blast
  obtain i where "bucket_index ?q c = Some i"
    using bucket_index_None_iff [of ?q c] healthy_pid_ok [OF assms(1)] assms(2,3) \<open>c \<noteq> ?q\<close> by fastforce
  then have closer: "xor_distance (pi_peer_id x) tgt < xor_distance ?q tgt"
    using x(2) assms(4) by (auto intro: bucket_mates_closer)
  have "tgt \<noteq> ?q" using assms(4) nothing_closer by auto
  let ?r = "find_closest tgt 20 (routing_table n)"
  have "\<exists>y \<in> set ?r. dist_to tgt y \<le> dist_to tgt x"
  proof (cases "x \<in> set ?r")
    case False
    have "active_peers (routing_table n) \<noteq> []" using x(1) by auto
    then have "sort_key (dist_to tgt) (active_peers (routing_table n)) \<noteq> []" by (metis set_empty set_sort)
    then have "?r \<noteq> []" by (simp add: find_closest_eq)
    then obtain y where "y \<in> set ?r" by fastforce
    with False show ?thesis
      using sort_key_take_closest [of x "active_peers (routing_table n)" 20 "dist_to tgt" y] x(1)
      unfolding find_closest_eq by blast
  qed blast
  then obtain y where "y \<in> set ?r" "dist_to tgt y < xor_distance ?q tgt" using closer order_le_less_trans by blast
  then show ?thesis using \<open>tgt \<noteq> ?q\<close> h(1) by (force simp: answer_ids [OF assms(1) n] find_node_answer_def)
qed

subsection \<open>A lookup over a network\<close>

text \<open>Everyone queried was in a batch, and what a batch got back is what the network answered to it.\<close>

lemma run_lookup_trace:
  assumes "run_lookup net n l = (tr, l')" "\<not> converged l"
  shows "queried l' = queried l \<union> pe_peer_id ` set (concat (map fst tr)) \<and> (\<forall>(b, r) \<in> set tr. \<exists>k. r = net k b)"
  using assms
proof (induction n arbitrary: l tr)
  case (Suc n)
  from Suc.prems(1) show ?case
  proof (cases rule: run_lookup_SucE)
    case (stop b)
    then show ?thesis using next_to_query_props [OF stop(1)] Suc.prems(2) by simp
  next
    case (round b m tr')
    have "\<not> converged (process_responses m (net (lk_round m) b))"
      "queried (process_responses m (net (lk_round m) b)) = queried l \<union> pe_peer_id ` set b"
      using round(2) next_to_query_props(4) [OF round(1)] by (simp_all add: process_responses_def)
    then show ?thesis using Suc.IH [OF round(4)] by (auto simp: round(3))
  qed
qed simp

lemma heard_answer:
  assumes "run_lookup (ask N tgt) n l = (tr, l')" "\<not> converged l" "p \<in> queried l'" "p \<notin> queried l"
  obtains e where "pe_peer_id e = p" "pe_peer_id ` set (answer N tgt e) \<subseteq> heard tr"
proof -
  obtain b r e where "(b, r) \<in> set tr" "e \<in> set b" "pe_peer_id e = p"
    using run_lookup_trace [OF assms(1,2)] assms(3,4) by fastforce
  moreover from this obtain k where "r = ask N tgt k b" using run_lookup_trace [OF assms(1,2)] by blast
  ultimately show thesis by (intro that [of e]) (force simp: heard_def ask_def)+
qed

lemma heard_live:
  assumes "healthy N" "run_lookup (ask N tgt) n l = (tr, l')" "\<not> converged l"
  shows "heard tr \<subseteq> dom N"
proof -
  have "pe_peer_id ` set (snd x) \<subseteq> dom N" if x: "x \<in> set tr" for x
  proof -
    obtain k where "snd x = ask N tgt k (fst x)" using run_lookup_trace [OF assms(2,3)] x by (cases x) auto
    then show ?thesis using ask_live [OF assms(1)] by simp
  qed
  then show ?thesis by (simp add: heard_def image_UN UN_subset_iff split_beta)
qed

text \<open>C5. Kademlia works: in a healthy network, a lookup that starts from any live peer and follows the answers of the
  nodes it asks terminates, after at most as many rounds as there are nodes, and the first entry of its result is the live
  node closest to the target of all nodes in the network; if the target is itself a node, it is found.\<close>

theorem lookup_finds_closest_node:
  assumes "healthy N" "seeds \<noteq> []" "pe_peer_id ` set seeds \<subseteq> dom N"
  shows "\<exists>tr l e es. run_lookup (ask N tgt) (card (dom N) + 1) (IterativeLookup_new tgt seeds) = (tr, l) \<and>
    lookup_is_complete l \<and> length tr \<le> card (dom N) \<and> closest (lookup_result l) = e # es \<and> pe_peer_id e \<in> dom N \<and>
    (\<forall>p \<in> dom N. xor_distance (pe_peer_id e) tgt \<le> xor_distance p tgt) \<and> (tgt \<in> dom N \<longrightarrow> pe_peer_id e = tgt)"
proof -
  let ?l = "IterativeLookup_new tgt seeds" and ?S = "pe_peer_id ` set seeds"
  have fin: "finite (dom N)" using assms(1) by (simp add: healthy_def)
  have new: "\<not> converged ?l" "queried ?l = {}" "lk_target ?l = tgt" by (simp_all add: IterativeLookup_new_def)
  note live = ask_live [OF assms(1)]
  obtain tr l where run: "run_lookup (ask N tgt) (card (dom N) + 1) ?l = (tr, l)" "converged l"
    "pe_peer_id ` set (known_peers l) \<subseteq> queried l" "length tr \<le> card (dom N)"
    using run_lookup_completes [where net = "ask N tgt" and n = "card (dom N) + 1", OF lk_inv_new assms(3) fin live new(1)] new(2)
    by (auto simp del: run_lookup.simps)
  let ?H = "?S \<union> heard tr"
  have inv: "lk_inv l ?H" "lk_target l = tgt" using run_lookup_inv [OF run(1) lk_inv_new] new(3) by simp_all
  have finH: "finite ?H" by (simp add: heard_def)
  have H: "?H \<subseteq> dom N" using assms(3) heard_live [OF assms(1) run(1) new(1)] by blast
  have "?H \<noteq> {}" using assms(2) by (cases seeds) auto
  then have "card ?H \<noteq> 0" using finH by simp
  then have "length (take 1 (known_peers l)) = 1" using lk_inv_closest(2) [OF inv(1) finH, of 1] by simp
  then obtain e es where e: "known_peers l = e # es" by (cases "known_peers l") auto
  have mem: "pe_peer_id e \<in> ?H" using lk_inv_closest(1) [OF inv(1) finH, of 1] e by simp
  have least: "xor_distance (pe_peer_id e) tgt \<le> xor_distance s tgt" if "s \<in> ?H" for s
    using lk_inv_closest(3) [OF inv(1) finH that, of 1 e] inv e by (cases "s = pe_peer_id e") (auto simp: lk_inv_def)
  have q: "pe_peer_id e \<in> queried l" using run(3) e by simp
  obtain e' where e': "pe_peer_id e' = pe_peer_id e" "pe_peer_id ` set (answer N tgt e') \<subseteq> heard tr"
    by (rule heard_answer [OF run(1) new(1) q]) (simp add: new(2))
  have best: "xor_distance (pe_peer_id e) tgt \<le> xor_distance p tgt" if p: "p \<in> dom N" for p
  proof (rule ccontr)
    assume "\<not> ?thesis"
    then have "xor_distance p tgt < xor_distance (pe_peer_id e') tgt" using e'(1) by simp
    moreover have "pe_peer_id e' \<in> dom N" using e'(1) mem H by (metis subsetD)
    ultimately obtain y where "y \<in> heard tr" "xor_distance y tgt < xor_distance (pe_peer_id e) tgt"
      using answer_progress [OF assms(1) _ p, of e' tgt] e' by (metis subsetD)
    then show False using least [of y] by simp
  qed
  have "pe_peer_id e = tgt" if "tgt \<in> dom N"
  proof -
    have "xor_distance (pe_peer_id e) tgt = xor_distance tgt tgt"
      using best [OF that] nothing_closer [of "pe_peer_id e" tgt] by simp
    then show ?thesis
      using xor_distance_cancel [of "pe_peer_id e" tgt tgt] healthy_pid_ok [OF assms(1)] mem H that
      by (metis subsetD xor_distance_commute)
  qed
  moreover have "closest (lookup_result l) = e # take 19 es" by (simp add: lookup_result_def e K_def)
  moreover have "pe_peer_id e \<in> dom N" using mem H by (rule subsetD [rotated])
  ultimately show ?thesis using run(1,2,4) best unfolding lookup_is_complete_def by blast
qed

text \<open>A network of two nodes that know each other.\<close>

definition pair_node :: "byte \<Rightarrow> byte \<Rightarrow> Node" where
  "pair_node me other =
     (let n = node_init 0 (Identity_generate toy_crypto (replicate 32 me) (replicate 32 0)) (SockV4 [10, 0, 0, me] 9741) 4 Map.empty
      in n\<lparr>routing_table := snd (insert_peer 0 (PeerId (replicate 32 other)) (SockV4 [10, 0, 0, other] 9741) (routing_table n))\<rparr>)"

definition pair_network :: network where
  "pair_network = [PeerId (replicate 32 1) \<mapsto> pair_node 1 2, PeerId (replicate 32 2) \<mapsto> pair_node 2 1]"

lemma pair_node_simps:
  assumes "other \<noteq> me"
  shows "peer_id (nd_identity (pair_node me other)) = PeerId (replicate 32 me)"
    "nd_tcp_addr (pair_node me other) = SockV4 [10, 0, 0, me] 9741"
    "local_id (routing_table (pair_node me other)) = PeerId (replicate 32 me)"
    "rt_inv (routing_table (pair_node me other))"
    "active_peers (routing_table (pair_node me other)) =
      [PeerInfo_new 0 (PeerId (replicate 32 other)) (SockV4 [10, 0, 0, other] 9741)]"
proof -
  let ?me = "PeerId (replicate 32 me)" and ?o = "PeerId (replicate 32 other)" and ?a = "SockV4 [10, 0, 0, other] 9741"
  have id: "peer_id (Identity_generate toy_crypto (replicate 32 me) (replicate 32 0)) = ?me"
    by (simp add: Identity_generate_def from_public_key_def toy_crypto_def Let_def)
  have ok: "pid_ok ?me" "pid_ok ?o" by (simp_all add: pid_ok_def)
  have ne: "?o \<noteq> ?me" using assms by (simp add: replicate_eq_replicate)
  obtain i where i: "bucket_index ?me ?o = Some i" "i < 256"
    using bucket_index_None_iff [OF ok] bucket_index_less [of ?me ?o] ne by (cases "bucket_index ?me ?o") auto
  let ?t = "snd (insert_peer 0 ?o ?a (RoutingTable_new 0 ?me))"
  have t: "routing_table (pair_node me other) = ?t" by (simp add: pair_node_def Let_def node_init_def id)
  have ins: "?t = \<lparr>local_id = ?me, buckets = (replicate NUM_BUCKETS (KBucket_new 0))[i := KBucket_new 0\<lparr>peers := [PeerInfo_new 0 ?o ?a]\<rparr>],
      total_peers = 1\<rparr>"
    using i ne by (simp add: insert_peer_def RoutingTable_new_def RoutingTable_bucket_index_def NUM_BUCKETS_def
        insert_or_update_def KBucket_find_def KBucket_new_def is_full_def K_def PeerInfo_new_def)
  show "peer_id (nd_identity (pair_node me other)) = ?me" "nd_tcp_addr (pair_node me other) = SockV4 [10, 0, 0, me] 9741"
    by (simp_all add: pair_node_def Let_def node_init_def id)
  show "local_id (routing_table (pair_node me other)) = ?me" by (simp add: t ins)
  show "rt_inv (routing_table (pair_node me other))" unfolding t using rt_inv_insert [OF rt_inv_new [OF ok(1)] ok(2)] by blast
  have "concat (map peers ((replicate NUM_BUCKETS (KBucket_new 0))[i := KBucket_new 0\<lparr>peers := [PeerInfo_new 0 ?o ?a]\<rparr>])) = [PeerInfo_new 0 ?o ?a]"
    using i(2) by (simp add: upd_conv_take_nth_drop NUM_BUCKETS_def KBucket_new_def)
  then show "active_peers (routing_table (pair_node me other)) = [PeerInfo_new 0 ?o ?a]"
    by (simp add: t ins active_peers_def is_usable_def PeerInfo_new_def)
qed

lemma pair_network_healthy: "healthy pair_network"
  unfolding healthy_def
proof (intro conjI allI impI)
  let ?p = "\<lambda>b. PeerId (replicate 32 b)"
  have d: "dom pair_network = {?p 1, ?p 2}" by (auto simp: pair_network_def)
  then show "finite (dom pair_network)" by simp
  fix p n assume "pair_network p = Some n"
  then have "p = ?p 1 \<and> n = pair_node 1 2 \<or> p = ?p 2 \<and> n = pair_node 2 1" by (auto simp: pair_network_def split: if_splits)
  then obtain me other where m: "p = ?p me" "n = pair_node me other" "other \<noteq> me" "{?p me, ?p other} = {?p 1, ?p 2}"
    using that [of 1 2] that [of 2 1] by (auto simp: insert_commute)
  note simps = pair_node_simps [OF m(3)]
  show "peer_id (nd_identity n) = p" "sock_ok (nd_tcp_addr n)" "rt_inv (routing_table n)" "local_id (routing_table n) = p"
    by (simp_all add: m simps)
  show "\<forall>x \<in> set (active_peers (routing_table n)). pi_peer_id x \<in> dom pair_network \<and> sock_ok (pi_addr x)"
    using m(4) by (auto simp: d m(2) simps PeerInfo_new_def doubleton_eq_iff)
  show "\<forall>q \<in> dom pair_network. q \<noteq> p \<longrightarrow>
      (\<exists>x \<in> set (active_peers (routing_table n)). bucket_index p (pi_peer_id x) = bucket_index p q)"
    using m(4) by (auto simp: d m(1,2) simps PeerInfo_new_def doubleton_eq_iff)
qed

theorem lookup_finds_closest_node_witness:
  "\<exists>tr l e es. run_lookup (ask pair_network (PeerId (replicate 32 2))) (card (dom pair_network) + 1)
      (IterativeLookup_new (PeerId (replicate 32 2))
        [\<lparr>pe_peer_id = PeerId (replicate 32 1), pe_addr = SockV4 [10, 0, 0, 1] 9741, pe_distance = []\<rparr>]) = (tr, l) \<and>
    lookup_is_complete l \<and> closest (lookup_result l) = e # es \<and> pe_peer_id e = PeerId (replicate 32 2)"
proof -
  have "PeerId (replicate 32 1) \<in> dom pair_network" "PeerId (replicate 32 2) \<in> dom pair_network"
    by (auto simp: pair_network_def)
  then show ?thesis
    using lookup_finds_closest_node [OF pair_network_healthy,
        of "[\<lparr>pe_peer_id = PeerId (replicate 32 1), pe_addr = SockV4 [10, 0, 0, 1] 9741, pe_distance = []\<rparr>]" "PeerId (replicate 32 2)"]
    by (simp del: run_lookup.simps) blast
qed

end
