(* ===== verification/Node_Lookup.thy ===== *)
theory Node_Lookup
  imports Node_Transfer Kademlia
begin

text \<open>
  Connecting to a peer by its identifier: a node asks its peer for the address through a \<open>FindNode\<close> request, and
  queues a connection to the address the answer names.
\<close>

text \<open>A usable peer the table knows is the first of the peers closest to it.\<close>

lemma find_closest_known:
  assumes "rt_inv t" "get_peer tgt t = Some info" "is_usable info" "0 < n"
  shows "\<exists>ps. find_closest tgt n t = info # ps"
proof -
  have info: "info \<in> set (active_peers t)" "pi_peer_id info = tgt"
    using assms get_peer_iff [OF assms(1), of tgt info] by (simp_all add: active_peers_def all_peers_def)
  let ?s = "sort_key (dist_to tgt) (active_peers t)"
  have "set ?s = set (active_peers t)" by simp
  then obtain x xs where x: "?s = x # xs" using info(1) by (cases ?s) auto
  have xin: "x \<in> set (active_peers t)" using x by (metis list.set_intros(1) set_sort)
  have "info = x \<or> info \<in> set xs" using info(1) x by (metis set_ConsD set_sort)
  then have "dist_to tgt x \<le> dist_to tgt info"
    using sorted_sort_key [of "dist_to tgt" "active_peers t"] x by auto
  then have "\<not> xor_distance tgt tgt < dist_to tgt x" using info(2) by simp
  then have "xor_distance tgt (pi_peer_id x) = xor_distance tgt tgt"
    using nothing_closer [of "pi_peer_id x" tgt] by (auto simp: xor_distance_commute)
  moreover have "pid_ok tgt" "pid_ok (pi_peer_id x)" using active_pid_ok [OF assms(1)] info xin by auto
  ultimately have "pi_peer_id x = tgt" using xor_distance_cancel by metis
  then have "get_peer tgt t = Some x"
    using get_peer_iff [OF assms(1), of tgt x] xin by (simp add: active_peers_def all_peers_def)
  then show ?thesis using assms(2,4) x by (cases n) (auto simp: find_closest_eq)
qed

text \<open>Learning an answer whose first entry is the peer looked for, and the only one looked for.\<close>

lemma learn_found_rest:
  "pending_dht_connects n = {} \<Longrightarrow> pending_dht_connects (fold (learn_found now) ps n) = {} \<and>
    api_commands (fold (learn_found now) ps n) = api_commands n"
proof (induction ps arbitrary: n)
  case (Cons p ps)
  have "pending_dht_connects (learn_found now p n) = {}" "api_commands (learn_found now p n) = api_commands n"
    using Cons.prems by (cases p; simp add: learn_found_def learn_peer_def Let_def)+
  then show ?case using Cons.IH by simp
qed simp

lemma learn_found_first:
  assumes "pending_dht_connects n = {PeerId bs}"
  shows "pending_dht_connects (fold (learn_found now) ((bs, a) # ps) n) = {} \<and>
    api_commands (fold (learn_found now) ((bs, a) # ps) n) = api_commands n @ [CmdConnect a]"
  using learn_found_rest [of "learn_found now (bs, a) n"] assms
  by (simp add: learn_found_def learn_peer_def Let_def)

lemma ready_dht [simp]:
  "ready a k k' i j (n\<lparr>pending_dht_connects := P\<rparr>) = ready a k k' i j n"
  "linked a (n\<lparr>pending_dht_connects := P\<rparr>) fs = linked a n fs"
  by (simp_all add: ready_def linked_def)

text \<open>The three steps: the request of the node that looks, the answer of its peer, and what it does on the answer.\<close>

lemma asks_for_peer:
  assumes "ready b k k' i j A" "unat i < 2 ^ 48" "linked b A fs" "seals E k"
    and asked: "hex_crate_decode E h = Some bs" "length bs = 32" "get_peer (PeerId bs) (routing_table A) = None"
      "pending_dht_connects A = {}"
  obtains A1 q where "node_run E [Command now rnd [b] (CmdConnectPeerId h)] A = Some (Inr A1)" "linked b A1 (fs @ [secure_frame FindNode i q])"
    "aead_decrypt (env_aead E) k (build_nonce i) [] q = Some (FindNode_encode \<lparr>target = bs\<rparr>)"
    "ready b k k' (i + 1) j A1" "api_commands A1 = api_commands A" "pending_dht_connects A1 = {PeerId bs}"
proof -
  let ?req = "FindNode_encode \<lparr>target = bs\<rparr>"
  let ?n = "send_secure E now b FindNode ?req A"
  have "can_seal (env_aead E) k ?req" using assms(4) asked(2) by (simp add: seals_def FindNode_encode_def)
  then obtain q where q: "aead_decrypt (env_aead E) k (build_nonce i) [] q = Some ?req"
    "linked b ?n (fs @ [secure_frame FindNode i q])" "ready b k k' (i + 1) j ?n"
    "?n = A\<lparr>peer_states := peer_states ?n, nd_tcp := nd_tcp ?n\<rparr>"
    by (rule send_secure_ok [OF assms(1,3,2)])
  have n: "pending_dht_connects ?n = {}" "api_commands ?n = api_commands A" using asked(4) by (subst q(4), simp)+
  show thesis
  proof (rule that [of "?n\<lparr>pending_dht_connects := {PeerId bs}\<rparr>" q])
    show "node_run E [Command now rnd [b] (CmdConnectPeerId h)] A = Some (Inr (?n\<lparr>pending_dht_connects := {PeerId bs}\<rparr>))"
      using asked n(1) by (simp add: on_command_def connect_peer_id_def ret_def then_step_def)
  qed (use q n in simp_all)
qed

lemma answers_with_peers:
  assumes "ready a k' k j i B" "unat i < 2 ^ 48" "unat j < 2 ^ 48" "linked a B gs" "seals E k'" "length bs = 32"
    and B: "pid_ok (peer_id (nd_identity B))" "sock_ok (nd_tcp_addr B)" "rt_inv (routing_table B)"
      "\<forall>x \<in> set (active_peers (routing_table B)). sock_ok (pi_addr x)"
    and q: "aead_decrypt (env_aead E) k (build_nonce i) [] q = Some (FindNode_encode \<lparr>target = bs\<rparr>)"
  obtains B1 r where "node_run E [Event now [] (FrameReceived a (seal crc (secure_frame FindNode i q)))] B = Some (Inr B1)"
    "linked a B1 (gs @ [secure_frame FindNodeResp j r])"
    "aead_decrypt (env_aead E) k' (build_nonce j) [] r = Some (FindNodeResp_encode \<lparr>resp_peers = find_node_answer (PeerId bs) B\<rparr>)"
proof -
  let ?req = "FindNode_encode \<lparr>target = bs\<rparr>" and ?resp = "FindNodeResp_encode \<lparr>resp_peers = find_node_answer (PeerId bs) B\<rparr>"
  obtain st where st: "on_event E now [] (FrameReceived a (secure_frame FindNode i q)) B = on_secure_frame E now a FindNode ?req (set_peer a st B)"
    "ready a k' k j (i + 1) (set_peer a st B)" by (rule accept_secure [OF assms(1) q assms(2), of FindNode]) simp_all
  have "length ?resp < 2 ^ 32"
    using length_FindNodeResp_encode [of "\<lparr>resp_peers = find_node_answer (PeerId bs) B\<rparr>"] find_node_answer_ok(1) [OF B]
    by (simp add: MAX_PAYLOAD_SIZE_def)
  then have "can_seal (env_aead E) k' ?resp" using assms(5) by (simp add: seals_def)
  moreover have "linked a (set_peer a st B) gs" using assms(4) by simp
  ultimately obtain r where r: "aead_decrypt (env_aead E) k' (build_nonce j) [] r = Some ?resp"
    "linked a (send_secure E now a FindNodeResp ?resp (set_peer a st B)) (gs @ [secure_frame FindNodeResp j r])"
    using send_secure_ok [OF st(2) _ assms(3)] by metis
  have "FindNode_decode ?req = Inr \<lparr>target = bs\<rparr>" using assms(6) by (intro find_node.dec_enc) (simp add: FindNode_ok_def)
  then have "on_secure_frame E now a FindNode ?req (set_peer a st B) =
      Some (Inr (send_secure E now a FindNodeResp ?resp (set_peer a st B)))"
    by (simp add: on_secure_frame_def on_find_node_def ret_def find_node_answer_def set_peer_def)
  then show thesis using that r st(1) by (simp add: ret_def)
qed

lemma learns_answer:
  assumes "ready b k k' i j A" "aead_decrypt (env_aead E) k' (build_nonce j) [] r = Some m" "unat j < 2 ^ 48"
    and "FindNodeResp_decode m = Inr \<lparr>resp_peers = (bs, c) # ps\<rparr>" "pending_dht_connects A = {PeerId bs}"
  obtains A2 where "node_run E [Event now [] (FrameReceived b (seal crc (secure_frame FindNodeResp j r)))] A = Some (Inr A2)"
    "api_commands A2 = api_commands A @ [CmdConnect c]" "pending_dht_connects A2 = {}"
proof -
  obtain st where st: "on_event E now [] (FrameReceived b (secure_frame FindNodeResp j r)) A = on_secure_frame E now b FindNodeResp m (set_peer b st A)"
    by (rule accept_secure [OF assms(1-3), of FindNodeResp]) simp_all
  also have "\<dots> = Some (Inr (fold (learn_found now) ((bs, c) # ps) (set_peer b st A)))"
    using assms(4) by (simp add: on_secure_frame_def ret_def)
  finally show thesis
    using that learn_found_first [of "set_peer b st A" bs now c ps] assms(5) by (simp add: ret_def set_peer_def del: fold.simps)
qed

text \<open>C6. Connecting by identifier.  A node whose only peer is \<open>b\<close>, told through its API to connect to a peer it does
  not know, asks \<open>b\<close>; \<open>b\<close>, whose table holds that peer as usable, answers; and on the answer the node queues, for its
  own event loop, one connection to the address \<open>b\<close> has for the peer, and looks for nobody any more.\<close>

theorem connect_by_peer_id:
  assumes session: "ready b k k' i j A" "ready a k' k j i B" "unat i < 2 ^ 48" "unat j < 2 ^ 48"
    and conn: "linked b A fs" "linked a B gs"
    and crypto: "seals E k" "seals E k'"
    and asked: "hex_crate_decode E h = Some bs" "length bs = 32" "get_peer (PeerId bs) (routing_table A) = None"
      "pending_dht_connects A = {}"
    and B: "pid_ok (peer_id (nd_identity B))" "sock_ok (nd_tcp_addr B)" "rt_inv (routing_table B)"
      "\<forall>x \<in> set (active_peers (routing_table B)). sock_ok (pi_addr x)"
    and known: "get_peer (PeerId bs) (routing_table B) = Some info" "is_usable info" "PeerId bs \<noteq> peer_id (nd_identity B)"
  shows "\<exists>q ans A1 A2 B1.
    node_run E [Command now rnd [b] (CmdConnectPeerId h)] A = Some (Inr A1) \<and> linked b A1 (fs @ [q]) \<and>
    node_run E [Event now [] (FrameReceived a (seal crc q))] B = Some (Inr B1) \<and> linked a B1 (gs @ [ans]) \<and>
    node_run E [Event now [] (FrameReceived b (seal crc ans))] A1 = Some (Inr A2) \<and>
    api_commands A2 = api_commands A @ [CmdConnect (strip_scope (pi_addr info))] \<and> pending_dht_connects A2 = {}"
proof -
  obtain A1 q where A1: "node_run E [Command now rnd [b] (CmdConnectPeerId h)] A = Some (Inr A1)" "linked b A1 (fs @ [secure_frame FindNode i q])"
    "aead_decrypt (env_aead E) k (build_nonce i) [] q = Some (FindNode_encode \<lparr>target = bs\<rparr>)"
    "ready b k k' (i + 1) j A1" "api_commands A1 = api_commands A" "pending_dht_connects A1 = {PeerId bs}"
    by (rule asks_for_peer [OF session(1,3) conn(1) crypto(1) asked])
  obtain B1 r where B1: "node_run E [Event now [] (FrameReceived a (seal crc (secure_frame FindNode i q)))] B = Some (Inr B1)"
    "linked a B1 (gs @ [secure_frame FindNodeResp j r])"
    "aead_decrypt (env_aead E) k' (build_nonce j) [] r = Some (FindNodeResp_encode \<lparr>resp_peers = find_node_answer (PeerId bs) B\<rparr>)"
    by (rule answers_with_peers [OF session(2-4) conn(2) crypto(2) asked(2) B A1(3)])
  obtain ps where "find_closest (PeerId bs) 20 (routing_table B) = info # ps"
    using find_closest_known [OF B(3) known(1,2), of 20] by auto
  moreover have "pi_peer_id info = PeerId bs" using known(1) get_peer_iff [OF B(3)] by blast
  ultimately obtain ps where "map (apsnd strip_scope) (find_node_answer (PeerId bs) B) = (bs, strip_scope (pi_addr info)) # ps"
    using known(3) by (auto simp: find_node_answer_def)
  then have "FindNodeResp_decode (FindNodeResp_encode \<lparr>resp_peers = find_node_answer (PeerId bs) B\<rparr>) =
      Inr \<lparr>resp_peers = (bs, strip_scope (pi_addr info)) # ps\<rparr>" using find_node_answer_ok(3) [OF B] by simp
  then obtain A2 where "node_run E [Event now [] (FrameReceived b (seal crc (secure_frame FindNodeResp j r)))] A1 = Some (Inr A2)"
    "api_commands A2 = api_commands A1 @ [CmdConnect (strip_scope (pi_addr info))]" "pending_dht_connects A2 = {}"
    by (rule learns_answer [OF A1(4) B1(3) session(4) _ A1(6)])
  then show ?thesis using A1(1,2,5) B1(1,2) by metis
qed

text \<open>Two nodes in a session, the second of which knows a third peer, and an environment that decodes identifiers.\<close>

definition knowing_node :: "SocketAddr \<Rightarrow> byte list \<Rightarrow> byte list \<Rightarrow> Node" where
  "knowing_node a k k' = (let n = pair_node 1 2 in (talking_node a k k' Map.empty)
     \<lparr>nd_identity := nd_identity n, nd_tcp_addr := nd_tcp_addr n, routing_table := routing_table n\<rparr>)"

definition hex_env :: node_env where
  "hex_env = example_env\<lparr>hex_crate_decode := \<lambda>s. case hex_decode s of Inl _ \<Rightarrow> None | Inr bs \<Rightarrow> Some bs\<rparr>"

lemma knowing_node_simps:
  "ready a k k' 1 1 (knowing_node a k k')" "linked a (knowing_node a k k') []"
  "nd_identity (knowing_node a k k') = nd_identity (pair_node 1 2)"
  "nd_tcp_addr (knowing_node a k k') = nd_tcp_addr (pair_node 1 2)"
  "routing_table (knowing_node a k k') = routing_table (pair_node 1 2)"
  using talking_node_simps(1,2) [of a k k' Map.empty] by (simp_all add: knowing_node_def ready_def linked_def Let_def)

lemma talking_node_fresh:
  "get_peer p (routing_table (talking_node a k k' files)) = None"
  "pending_dht_connects (talking_node a k k' files) = {}" "api_commands (talking_node a k k' files) = []"
proof -
  let ?t = "RoutingTable_new 0 (PeerId (replicate 32 1))"
  have "pid_ok (PeerId (replicate 32 1))" by (simp add: pid_ok_def)
  then have "get_peer p ?t \<noteq> Some x" for x
    using get_peer_iff [OF rt_inv_new, of _ p 0 x] by (simp add: all_peers_def RoutingTable_new_def KBucket_new_def)
  moreover have "routing_table (talking_node a k k' files) = ?t"
    by (simp add: talking_node_def example_node_def node_init_def set_peer_def Let_def Identity_generate_def
        from_public_key_def toy_crypto_def)
  ultimately show "get_peer p (routing_table (talking_node a k k' files)) = None" by (metis option.exhaust)
qed (simp_all add: talking_node_def example_node_def node_init_def set_peer_def Let_def)

theorem connect_by_peer_id_witness:
  "let b = SockV4 [10, 0, 0, 1] 9741; a = SockV4 [10, 0, 0, 9] 50000;
       A = talking_node b [1] [2] Map.empty; B = knowing_node a [2] [1]
   in \<exists>q ans A1 A2 B1.
     node_run hex_env [Command 0 [] [b] (CmdConnectPeerId (hex_encode (replicate 32 2)))] A = Some (Inr A1) \<and> linked b A1 [q] \<and>
     node_run hex_env [Event 0 [] (FrameReceived a (seal sum_crc q))] B = Some (Inr B1) \<and> linked a B1 [ans] \<and>
     node_run hex_env [Event 0 [] (FrameReceived b (seal sum_crc ans))] A1 = Some (Inr A2) \<and>
     api_commands A2 = [CmdConnect (SockV4 [10, 0, 0, 2] 9741)] \<and> pending_dht_connects A2 = {}"
proof -
  let ?b = "SockV4 [10, 0, 0, 1] 9741" and ?a = "SockV4 [10, 0, 0, 9] 50000" and ?p = "\<lambda>b :: byte. PeerId (replicate 32 b)"
  let ?info = "PeerInfo_new 0 (?p 2) (SockV4 [10, 0, 0, 2] 9741)"
  have env: "seals hex_env [1]" "seals hex_env [2]"
    "hex_crate_decode hex_env (hex_encode (replicate 32 2)) = Some (replicate 32 2)"
    by (simp_all add: seals_def can_seal_def hex_env_def example_env_def hex_decode_encode)
  have "(2 :: byte) \<noteq> 1" by simp
  note B = knowing_node_simps [of ?a "[2]" "[1]", unfolded pair_node_simps [OF this]] and pair = pair_node_simps [OF this]
  have "?info \<in> set (active_peers (routing_table (pair_node 1 2)))" unfolding pair by simp
  then have info: "get_peer (?p 2) (routing_table (pair_node 1 2)) = Some ?info" "is_usable ?info"
    using get_peer_iff [OF pair(4), of "?p 2" ?info]
    by (simp_all add: active_peers_def all_peers_def PeerInfo_new_def is_usable_def)
  have ok: "pid_ok (?p 1)" "?p 2 \<noteq> ?p 1" by (simp_all add: pid_ok_def replicate_eq_replicate)
  note A = talking_node_simps(1,2) [of ?b "[1]" "[2]" Map.empty]
  from connect_by_peer_id [OF A(1) B(1) _ _ A(2) B(2) env(1,2,3) _ talking_node_fresh(1,2),
      where info = ?info and now = 0 and rnd = "[]" and crc = sum_crc] info ok
  show ?thesis unfolding Let_def talking_node_fresh(3)
    by (simp add: B(3-5) pair PeerInfo_new_def del: node_run.simps)
qed

end
