(* ===== verification/Bootstrap.thy ===== *)
theory Bootstrap
  imports Lookup
begin

text \<open>
  \<open>ceky-dht/src/bootstrap.rs\<close>: the phases of the bootstrap and the identifiers a node looks up to fill and
  refresh its buckets.  The lookups themselves are those of \<open>Lookup\<close>; the caller drives them.
\<close>

record BootstrapConfig =
  seed_nodes :: "SocketAddr list"
  probe_timeout :: time
  random_lookups :: nat
  refresh_interval :: time

definition BootstrapConfig_default :: BootstrapConfig where
  "BootstrapConfig_default = \<lparr>seed_nodes = [], probe_timeout = 5 * NANOS, random_lookups = 3, refresh_interval = 3600 * NANOS\<rparr>"

datatype BootstrapState = Idle | ContactingSeeds | SelfLookup | BucketFill | BootComplete | BootFailed

record BootstrapResult =
  br_state :: BootstrapState
  peers_discovered :: nat
  seeds_responded :: nat
  seeds_attempted :: nat

record BootstrapManager =
  bm_config :: BootstrapConfig
  bm_state :: BootstrapState

definition BootstrapManager_new :: "BootstrapConfig \<Rightarrow> BootstrapManager" where
  "BootstrapManager_new c = \<lparr>bm_config = c, bm_state = Idle\<rparr>"

definition with_seeds :: "SocketAddr list \<Rightarrow> BootstrapManager" where
  "with_seeds seeds = BootstrapManager_new (BootstrapConfig_default\<lparr>seed_nodes := seeds\<rparr>)"

definition seed_addrs :: "BootstrapManager \<Rightarrow> SocketAddr list" where
  "seed_addrs b = seed_nodes (bm_config b)"

definition prepare_self_lookup :: "PeerId \<Rightarrow> PeerEntry list \<Rightarrow> BootstrapManager \<Rightarrow> IterativeLookup \<times> BootstrapManager" where
  "prepare_self_lookup lid known b = (IterativeLookup_new lid known, b\<lparr>bm_state := SelfLookup\<rparr>)"

definition flip_bit_at :: "nat \<Rightarrow> byte list \<Rightarrow> byte list" where
  "flip_bit_at bucket bs =
     (let byte_idx = bucket div 8; bit_idx = bucket mod 8
      in if byte_idx < 32 then bs[byte_idx := bs ! byte_idx XOR push_bit bit_idx 1] else bs)"

definition fill_target :: "nat \<Rightarrow> nat \<Rightarrow> byte list \<Rightarrow> PeerId" where
  "fill_target n i local_bytes =
     (let target_bucket = i * NUM_BUCKETS div max n 1;
          target_bytes = flip_bit_at target_bucket local_bytes;
          seed = of_nat i * 0x9E + 0x37 :: byte;
          skip = target_bucket div 8 + 1
      in PeerId (take skip target_bytes @ map (\<lambda>b. b XOR seed) (drop skip target_bytes)))"

definition generate_bucket_fill_targets :: "PeerId \<Rightarrow> BootstrapManager \<Rightarrow> PeerId list" where
  "generate_bucket_fill_targets lid b =
     map (\<lambda>i. fill_target (random_lookups (bm_config b)) i (as_bytes lid)) [0 ..< random_lookups (bm_config b)]"

definition seeds_contacted :: "nat \<Rightarrow> nat \<Rightarrow> BootstrapManager \<Rightarrow> BootstrapManager" where
  "seeds_contacted responded attempted b = b\<lparr>bm_state := ContactingSeeds\<rparr>"

definition begin_bucket_fill :: "BootstrapManager \<Rightarrow> BootstrapManager" where
  "begin_bucket_fill b = b\<lparr>bm_state := BucketFill\<rparr>"

definition boot_complete :: "RoutingTable \<Rightarrow> BootstrapManager \<Rightarrow> BootstrapResult \<times> BootstrapManager" where
  "boot_complete rt b =
     (let discovered = total_peers rt;
          b = b\<lparr>bm_state := if discovered > 0 then BootComplete else BootFailed\<rparr>
      in (\<lparr>br_state = bm_state b, peers_discovered = discovered, seeds_responded = 0,
           seeds_attempted = length (seed_nodes (bm_config b))\<rparr>, b))"

definition stale_bucket_targets :: "time \<Rightarrow> PeerId \<Rightarrow> RoutingTable \<Rightarrow> BootstrapManager \<Rightarrow> PeerId list" where
  "stale_bucket_targets now lid rt b =
     map (\<lambda>bucket. PeerId (flip_bit_at bucket (as_bytes lid))) (stale_buckets now (refresh_interval (bm_config b)) rt)"

subsection \<open>Targets are in the buckets they are meant for\<close>

lemma leading_zeros_bit: "j < 8 \<Longrightarrow> leading_zeros (push_bit j (1 :: byte)) = 7 - j"
proof -
  assume "j < 8"
  then have "j \<in> {0, 1, 2, 3, 4, 5, 6, 7}" by auto
  moreover have "list_all (\<lambda>j. leading_zeros (push_bit j (1 :: byte)) = 7 - j) [0, 1, 2, 3, 4, 5, 6, 7]" by code_simp
  ultimately show ?thesis by auto
qed

lemma push_bit_byte_nonzero: "j < 8 \<Longrightarrow> push_bit j (1 :: byte) \<noteq> 0"
proof -
  assume "j < 8"
  then have "j \<in> {0, 1, 2, 3, 4, 5, 6, 7}" by auto
  moreover have "list_all (\<lambda>j. push_bit j (1 :: byte) \<noteq> 0) [0, 1, 2, 3, 4, 5, 6, 7]" by code_simp
  ultimately show ?thesis by auto
qed

lemma bucket_of_flipped:
  assumes "length bs = 32" "bucket < 256" "length cs = 32"
    and "\<And>j. j < bucket div 8 \<Longrightarrow> cs ! j = bs ! j" "cs ! (bucket div 8) = bs ! (bucket div 8) XOR push_bit (bucket mod 8) 1"
  shows "bucket_index (PeerId bs) (PeerId cs) = Some bucket"
proof -
  let ?k = "bucket div 8" and ?j = "bucket mod 8"
  have x: "bs ! ?k XOR cs ! ?k = push_bit ?j (1 :: byte)" using assms(5) by (simp add: xor.assoc [symmetric])
  then have ne: "bs ! ?k \<noteq> cs ! ?k" using push_bit_byte_nonzero [of ?j] by (metis mod_less_divisor word_xor_eq_0_iff zero_less_numeral)
  have "leading_zeros (bs ! ?k XOR cs ! ?k) = 7 - ?j" unfolding x by (rule leading_zeros_bit) simp
  then have "bucket = 8 * ?k + (7 - leading_zeros (bs ! ?k XOR cs ! ?k))" by presburger
  then show ?thesis using assms(2,4) ne by (auto simp: bucket_index_Some intro!: exI [of _ ?k])
qed

lemma flip_bit_bucket:
  assumes "pid_ok lid" "bucket < 256"
  shows "bucket_index lid (PeerId (flip_bit_at bucket (as_bytes lid))) = Some bucket"
proof -
  have "bucket_index (PeerId (as_bytes lid)) (PeerId (flip_bit_at bucket (as_bytes lid))) = Some bucket"
    using assms by (intro bucket_of_flipped) (auto simp: pid_ok_def flip_bit_at_def Let_def)
  then show ?thesis by simp
qed

lemma fill_target_bucket:
  assumes "pid_ok lid" "i < n"
  shows "bucket_index lid (fill_target n i (as_bytes lid)) = Some (i * 256 div n)"
proof -
  define bucket where "bucket = i * 256 div n"
  have b: "bucket < 256" using assms(2) by (simp add: bucket_def div_less_iff_less_mult)
  define bs where "bs = as_bytes lid"
  have bs: "length bs = 32" using assms(1) by (simp add: bs_def pid_ok_def)
  obtain cs where t: "fill_target n i bs = PeerId cs" "length cs = 32" "\<And>j. j \<le> bucket div 8 \<Longrightarrow> cs ! j = flip_bit_at bucket bs ! j"
  proof -
    let ?skip = "bucket div 8 + 1" and ?seed = "of_nat i * 0x9E + 0x37 :: byte"
    let ?cs = "take ?skip (flip_bit_at bucket bs) @ map (\<lambda>b. b XOR ?seed) (drop ?skip (flip_bit_at bucket bs))"
    have len: "length (flip_bit_at bucket bs) = 32" using bs by (simp add: flip_bit_at_def Let_def)
    have "max n 1 = n" using assms(2) by simp
    then have "fill_target n i bs = PeerId ?cs" by (simp add: fill_target_def Let_def bucket_def NUM_BUCKETS_def)
    moreover have "length ?cs = 32" using len b by simp
    moreover have "?cs ! j = flip_bit_at bucket bs ! j" if "j \<le> bucket div 8" for j
      using that len b by (simp add: nth_append)
    ultimately show thesis by (rule that)
  qed
  have "bucket_index (PeerId bs) (PeerId cs) = Some bucket"
    using bs b t(2,3) by (intro bucket_of_flipped) (auto simp: flip_bit_at_def Let_def)
  then show ?thesis using t(1) by (simp add: bs_def bucket_def)
qed

text \<open>C31. The identifiers a node looks up to refresh its stale buckets are in exactly those buckets, and
  the ones it fills its buckets with are spread evenly, the \<open>i\<close>-th of \<open>n\<close> in bucket \<open>256 i / n\<close>.\<close>

theorem bootstrap_targets_in_buckets:
  assumes "pid_ok lid" "rt_inv rt"
  shows "map (bucket_index lid) (stale_bucket_targets now lid rt b) =
      map Some (stale_buckets now (refresh_interval (bm_config b)) rt) \<and>
    map (bucket_index lid) (generate_bucket_fill_targets lid b) =
      map (\<lambda>i. Some (i * 256 div random_lookups (bm_config b))) [0 ..< random_lookups (bm_config b)]"
proof -
  have "bucket < 256" if "bucket \<in> set (stale_buckets now age rt)" for bucket age
    using that assms(2) by (auto simp: stale_buckets_def rt_inv_def NUM_BUCKETS_def in_set_enumerate_eq)
  then show ?thesis
    using flip_bit_bucket [OF assms(1)] fill_target_bucket [OF assms(1)]
    by (simp add: stale_bucket_targets_def generate_bucket_fill_targets_def)
qed

theorem bootstrap_targets_in_buckets_witness:
  "map (bucket_index (PeerId (replicate 32 7)))
     (generate_bucket_fill_targets (PeerId (replicate 32 7)) (with_seeds [])) = [Some 0, Some 85, Some 170]"
proof -
  let ?p = "PeerId (replicate 32 7)"
  have "pid_ok ?p" by (simp add: pid_ok_def)
  from bootstrap_targets_in_buckets [OF this rt_inv_new [OF this], of 0 0 "with_seeds []"] show ?thesis
    by (simp add: with_seeds_def BootstrapManager_new_def BootstrapConfig_default_def upt_rec)
qed

text \<open>A bootstrap ends complete or failed, depending only on whether the table has peers.\<close>

lemma boot_complete_state:
  "rt_inv rt \<Longrightarrow> br_state (fst (boot_complete rt b)) = (if all_peers rt = [] then BootFailed else BootComplete)"
proof -
  assume "rt_inv rt"
  then have "length (all_peers rt) = total_peers rt" by (simp add: rt_inv_def all_peers_def length_concat comp_def)
  then show ?thesis by (auto simp: boot_complete_def Let_def)
qed

end
