(* ===== verification/Storage.thy ===== *)
theory Storage
  imports Peer_Info Buf
begin

text \<open>
  \<open>ceky-dht/src/storage.rs\<close>: stored entries with their encoding, and the two-tier store: a hot cache, a
  queue to the background batch writer, and the database with its table of entries and its index by
  expiration time.

  The database (\<open>redb\<close>) is a parameter: the record \<open>redb\<close> has the operations the store calls, and
  \<open>redb_laws\<close> what it promises.  The background tasks of the source are operations of the model
  (\<open>batch_write\<close>, \<open>gc_evict\<close>, \<open>run_remove\<close>), and \<open>store_run\<close> interleaves them with the calls.
\<close>

subsection \<open>Stored entries\<close>

record StoredEntry =
  se_key :: "byte list"
  se_value :: "byte list"
  publisher :: PeerId
  expires_at :: u64

definition StoredEntry_new :: "u64 \<Rightarrow> byte list \<Rightarrow> byte list \<Rightarrow> PeerId \<Rightarrow> u64 \<Rightarrow> StoredEntry" where
  "StoredEntry_new now k v p ttl_secs =
     \<lparr>se_key = k, se_value = v, publisher = p, expires_at = now + ttl_secs\<rparr>"

definition is_expired :: "u64 \<Rightarrow> StoredEntry \<Rightarrow> bool" where
  "is_expired now e \<longleftrightarrow> expires_at e \<le> now"

definition StoredEntry_encode :: "StoredEntry \<Rightarrow> byte list" where
  "StoredEntry_encode e = se_key e @ as_bytes (publisher e) @ be_bytes 8 (expires_at e) @
     be_bytes 4 (of_nat (length (se_value e)) :: u32) @ se_value e"

definition StoredEntry_decode :: "byte list \<Rightarrow> (DhtFault, StoredEntry) res" where
  "StoredEntry_decode buf =
     (if length buf < 76 then Inl (Err (InvalidKey ''payload too short for stored entry''))
      else
        bindR (get_bytes 32 buf) (\<lambda>(k, r).
        bindR (get_bytes 32 r) (\<lambda>(pub_bytes, r).
        bindR (get_u64 r) (\<lambda>(exp, r).
        bindR (get_u32 r) (\<lambda>(val_len, r).
          if length buf < 76 + unat val_len then Inl (Err (InvalidKey ''payload too short for value''))
          else bindR (get_bytes (unat val_len) r) (\<lambda>(v, r).
            Inr \<lparr>se_key = k, se_value = v, publisher = PeerId pub_bytes, expires_at = exp\<rparr>))))))"

definition entry_ok :: "StoredEntry \<Rightarrow> bool" where
  "entry_ok e \<longleftrightarrow> length (se_key e) = 32 \<and> pid_ok (publisher e) \<and> length (se_value e) < 2 ^ 32"

subsection \<open>The database\<close>

text \<open>\<open>begin_ok\<close>: a write transaction starts and its tables open; \<open>commit_ok\<close>: it commits;
  \<open>index_range now\<close>: the pairs of the expiration index with a time up to \<open>now\<close>.\<close>

record 'd redb =
  begin_ok :: "'d \<Rightarrow> bool"
  commit_ok :: "'d \<Rightarrow> bool"
  data_get :: "byte list \<Rightarrow> 'd \<Rightarrow> byte list option"
  data_insert :: "byte list \<Rightarrow> byte list \<Rightarrow> 'd \<Rightarrow> 'd"
  data_remove :: "byte list \<Rightarrow> 'd \<Rightarrow> 'd"
  index_range :: "u64 \<Rightarrow> 'd \<Rightarrow> (u64 \<times> byte list) list"
  index_insert :: "u64 \<Rightarrow> byte list \<Rightarrow> 'd \<Rightarrow> 'd"
  index_remove :: "u64 \<Rightarrow> byte list \<Rightarrow> 'd \<Rightarrow> 'd"

definition redb_laws :: "'d redb \<Rightarrow> bool" where
  "redb_laws R \<longleftrightarrow>
     (\<forall>d. begin_ok R d \<and> commit_ok R d) \<and>
     (\<forall>d k v k'. data_get R k' (data_insert R k v d) = (if k' = k then Some v else data_get R k' d)) \<and>
     (\<forall>d k k'. data_get R k' (data_remove R k d) = (if k' = k then None else data_get R k' d)) \<and>
     (\<forall>d t k k'. data_get R k' (index_insert R t k d) = data_get R k' d) \<and>
     (\<forall>d t k k'. data_get R k' (index_remove R t k d) = data_get R k' d) \<and>
     (\<forall>d n t k. set (index_range R n (index_insert R t k d)) =
        set (index_range R n d) \<union> (if t \<le> n then {(t, k)} else {})) \<and>
     (\<forall>d n t k. set (index_range R n (index_remove R t k d)) = set (index_range R n d) - {(t, k)}) \<and>
     (\<forall>d n k v. set (index_range R n (data_insert R k v d)) = set (index_range R n d)) \<and>
     (\<forall>d n k. set (index_range R n (data_remove R k d)) = set (index_range R n d))"

subsection \<open>The store\<close>

record 'd PersistentStore =
  hot_cache :: "byte list \<rightharpoonup> StoredEntry"
  db :: 'd
  write_tx :: "StoredEntry list"
  remove_tasks :: "byte list list"

definition PersistentStore_new :: "'d \<Rightarrow> 'd PersistentStore" where
  "PersistentStore_new d = \<lparr>hot_cache = Map.empty, db = d, write_tx = [], remove_tasks = []\<rparr>"

text \<open>A transaction: the changes reach the database only when it starts and commits.\<close>

definition transaction :: "'d redb \<Rightarrow> ('d \<Rightarrow> 'd) \<Rightarrow> 'd \<Rightarrow> 'd" where
  "transaction R f d = (if begin_ok R d \<and> commit_ok R (f d) then f d else d)"

definition write_entry :: "'d redb \<Rightarrow> StoredEntry \<Rightarrow> 'd \<Rightarrow> 'd" where
  "write_entry R e d = index_insert R (expires_at e) (se_key e) (data_insert R (se_key e) (StoredEntry_encode e) d)"

text \<open>One round of the writer: it takes the first entries of the queue, at most 100.\<close>

definition batch_write :: "'d redb \<Rightarrow> nat \<Rightarrow> 'd PersistentStore \<Rightarrow> 'd PersistentStore" where
  "batch_write R n s =
     (let entries = take (min n 100) (write_tx s)
      in s\<lparr>write_tx := drop (min n 100) (write_tx s), db := transaction R (fold (write_entry R) entries) (db s)\<rparr>)"

definition gc_evict :: "'d redb \<Rightarrow> u64 \<Rightarrow> 'd PersistentStore \<Rightarrow> 'd PersistentStore" where
  "gc_evict R now s =
     (if \<not> begin_ok R (db s) then s
      else
        let keys_to_remove = index_range R now (db s)
        in if keys_to_remove = [] then s
           else s\<lparr>db := transaction R (fold (\<lambda>(t, k) d. index_remove R t k (data_remove R k d)) keys_to_remove) (db s),
                  hot_cache := fold (\<lambda>(t, k) c. c(k := None)) keys_to_remove (hot_cache s)\<rparr>)"

definition store_put :: "StoredEntry \<Rightarrow> 'd PersistentStore \<Rightarrow> 'd PersistentStore" where
  "store_put e s = s\<lparr>hot_cache := (hot_cache s)(se_key e \<mapsto> e), write_tx := write_tx s @ [e]\<rparr>"

definition store_get :: "'d redb \<Rightarrow> u64 \<Rightarrow> byte list \<Rightarrow> 'd PersistentStore \<Rightarrow>
    StoredEntry option \<times> 'd PersistentStore" where
  "store_get R now k s =
     (case hot_cache s k of
        Some e \<Rightarrow> if \<not> is_expired now e then (Some e, s) else (None, s)
      | None \<Rightarrow>
          (case data_get R k (db s) of
             Some v \<Rightarrow>
               (case StoredEntry_decode v of
                  Inr e \<Rightarrow>
                    if \<not> is_expired now e then (Some e, s\<lparr>hot_cache := (hot_cache s)(k \<mapsto> e)\<rparr>) else (None, s)
                | Inl _ \<Rightarrow> (None, s))
           | None \<Rightarrow> (None, s)))"

definition store_remove :: "byte list \<Rightarrow> 'd PersistentStore \<Rightarrow> StoredEntry option \<times> 'd PersistentStore" where
  "store_remove k s =
     (hot_cache s k, s\<lparr>hot_cache := (hot_cache s)(k := None), remove_tasks := remove_tasks s @ [k]\<rparr>)"

text \<open>The task that \<open>remove\<close> spawns.\<close>

definition run_remove :: "'d redb \<Rightarrow> 'd PersistentStore \<Rightarrow> 'd PersistentStore" where
  "run_remove R s =
     (case remove_tasks s of
        [] \<Rightarrow> s
      | k # ks \<Rightarrow> s\<lparr>remove_tasks := ks, db := transaction R (data_remove R k) (db s)\<rparr>)"

definition store_len :: "'d PersistentStore \<Rightarrow> nat" where
  "store_len s = card (dom (hot_cache s))"

definition store_is_empty :: "'d PersistentStore \<Rightarrow> bool" where
  "store_is_empty s \<longleftrightarrow> dom (hot_cache s) = {}"

subsection \<open>Interleavings\<close>

datatype store_op = Put StoredEntry | Get u64 "byte list" | Remove "byte list"
  | BatchWrite nat | Gc u64 | RunRemove

fun store_step :: "'d redb \<Rightarrow> store_op \<Rightarrow> 'd PersistentStore \<Rightarrow> 'd PersistentStore" where
  "store_step R (Put e) s = store_put e s"
| "store_step R (Get now k) s = snd (store_get R now k s)"
| "store_step R (Remove k) s = snd (store_remove k s)"
| "store_step R (BatchWrite n) s = batch_write R n s"
| "store_step R (Gc now) s = gc_evict R now s"
| "store_step R RunRemove s = run_remove R s"

definition store_run :: "'d redb \<Rightarrow> store_op list \<Rightarrow> 'd PersistentStore \<Rightarrow> 'd PersistentStore" where
  "store_run R ops s = fold (store_step R) ops s"

text \<open>The process ends and a new one opens the same database.\<close>

definition restart :: "'d PersistentStore \<Rightarrow> 'd PersistentStore" where
  "restart s = PersistentStore_new (db s)"

fun last_put :: "byte list \<Rightarrow> store_op list \<Rightarrow> StoredEntry option \<Rightarrow> StoredEntry option" where
  "last_put k [] r = r"
| "last_put k (Put e # ops) r = last_put k ops (if se_key e = k then Some e else r)"
| "last_put k (_ # ops) r = last_put k ops r"

text \<open>The operations in which the key \<open>k\<close> is never removed and none of its entries is expired by \<open>t\<close>,
  the latest time at which the collector runs.\<close>

fun keeps :: "byte list \<Rightarrow> u64 \<Rightarrow> store_op \<Rightarrow> bool" where
  "keeps k t (Put e) \<longleftrightarrow> entry_ok e \<and> (se_key e = k \<longrightarrow> \<not> is_expired t e)"
| "keeps k t (Remove k') \<longleftrightarrow> k' \<noteq> k"
| "keeps k t (Gc now) \<longleftrightarrow> now \<le> t"
| "keeps k t _ \<longleftrightarrow> True"

text \<open>A database kept in memory, as an instance of the laws.\<close>

definition map_redb :: "((byte list \<rightharpoonup> byte list) \<times> (u64 \<times> byte list) list) redb" where
  "map_redb = \<lparr>begin_ok = \<lambda>d. True, commit_ok = \<lambda>d. True, data_get = \<lambda>k d. fst d k,
     data_insert = \<lambda>k v d. ((fst d)(k \<mapsto> v), snd d), data_remove = \<lambda>k d. ((fst d)(k := None), snd d),
     index_range = \<lambda>n d. filter (\<lambda>(t, k). t \<le> n) (snd d),
     index_insert = \<lambda>t k d. (fst d, List.insert (t, k) (snd d)),
     index_remove = \<lambda>t k d. (fst d, removeAll (t, k) (snd d))\<rparr>"

subsection \<open>Entries\<close>

lemma StoredEntry_decode_encode: "entry_ok e \<Longrightarrow> StoredEntry_decode (StoredEntry_encode e) = Inr e"
  by (simp add: StoredEntry_decode_def StoredEntry_encode_def entry_ok_def pid_ok_def wire_simps
      unat_of_nat take_bit_eq_mod)

lemma StoredEntry_decode_no_panic [no_panic]: "StoredEntry_decode bs \<noteq> Inl Panic"
  by (simp add: StoredEntry_decode_def no_panic Let_def)

lemma map_redb_laws: "redb_laws map_redb"
  by (auto simp: redb_laws_def map_redb_def)

subsection \<open>What the database promises\<close>

lemma redb_lawsD:
  assumes "redb_laws R"
  shows "transaction R f d = f d" "begin_ok R d"
    "data_get R k' (data_insert R k v d) = (if k' = k then Some v else data_get R k' d)"
    "data_get R k' (data_remove R k d) = (if k' = k then None else data_get R k' d)"
    "data_get R k' (index_insert R t k d) = data_get R k' d"
    "data_get R k' (index_remove R t k d) = data_get R k' d"
    "set (index_range R n (index_insert R t k d)) = set (index_range R n d) \<union> (if t \<le> n then {(t, k)} else {})"
    "set (index_range R n (index_remove R t k d)) = set (index_range R n d) - {(t, k)}"
    "set (index_range R n (data_insert R k v d)) = set (index_range R n d)"
    "set (index_range R n (data_remove R k d)) = set (index_range R n d)"
  using assms by (simp_all add: redb_laws_def transaction_def)

lemma fold_write_entry:
  assumes "redb_laws R"
  shows "data_get R k (fold (write_entry R) es d) =
      (case filter (\<lambda>e. se_key e = k) es of [] \<Rightarrow> data_get R k d | q \<Rightarrow> Some (StoredEntry_encode (last q)))"
    "set (index_range R n (fold (write_entry R) es d)) =
      set (index_range R n d) \<union> {(expires_at e, se_key e) | e. e \<in> set es \<and> expires_at e \<le> n}"
  by (induction es arbitrary: d)
    (auto simp: write_entry_def redb_lawsD [OF assms] split: list.splits)

lemma fold_gc_db:
  assumes "redb_laws R"
  shows "data_get R k (fold (\<lambda>(t, k) d. index_remove R t k (data_remove R k d)) ks d) =
      (if k \<in> snd ` set ks then None else data_get R k d)"
    "set (index_range R n (fold (\<lambda>(t, k) d. index_remove R t k (data_remove R k d)) ks d)) =
      set (index_range R n d) - set ks"
  by (induction ks arbitrary: d) (auto simp: redb_lawsD [OF assms])

lemma fold_gc_cache:
  "fold (\<lambda>(t, k) c. c(k := None)) ks c k = (if k \<in> snd ` set ks then None else c k)"
  by (induction ks arbitrary: c) auto

text \<open>The collector, whether or not it finds anything.\<close>

lemma gc_evict_get:
  assumes "redb_laws R"
  shows "hot_cache (gc_evict R now s) k = (if k \<in> snd ` set (index_range R now (db s)) then None else hot_cache s k)"
    "data_get R k (db (gc_evict R now s)) =
      (if k \<in> snd ` set (index_range R now (db s)) then None else data_get R k (db s))"
    "set (index_range R n (db (gc_evict R now s))) \<subseteq> set (index_range R n (db s))"
    "write_tx (gc_evict R now s) = write_tx s" "remove_tasks (gc_evict R now s) = remove_tasks s"
  by (auto simp: gc_evict_def Let_def redb_lawsD(1,2) [OF assms] fold_gc_db [OF assms] fold_gc_cache)

subsection \<open>The state of one key\<close>

definition st_inv :: "'d redb \<Rightarrow> byte list \<Rightarrow> u64 \<Rightarrow> StoredEntry option \<Rightarrow> 'd PersistentStore \<Rightarrow> bool" where
  "st_inv R k t L s \<longleftrightarrow> hot_cache s k = L \<and> k \<notin> set (remove_tasks s) \<and>
     (case filter (\<lambda>e. se_key e = k) (write_tx s) of
        [] \<Rightarrow> data_get R k (db s) = map_option StoredEntry_encode L
      | q \<Rightarrow> L = Some (last q)) \<and>
     (\<forall>e \<in> set (write_tx s). se_key e = k \<longrightarrow> t < expires_at e) \<and>
     (\<forall>n \<le> t. k \<notin> snd ` set (index_range R n (db s))) \<and>
     (\<forall>e. L = Some e \<longrightarrow> entry_ok e \<and> t < expires_at e)"

lemma st_inv_put:
  assumes "st_inv R k t L s" "keeps k t (Put e)"
  shows "st_inv R k t (if se_key e = k then Some e else L) (store_put e s)"
  using assms by (auto simp: st_inv_def store_put_def is_expired_def split: list.splits)

lemma st_inv_get:
  assumes "st_inv R k t L s"
  shows "st_inv R k t L (snd (store_get R now k' s))"
  using assms
  by (auto simp: st_inv_def store_get_def split: option.splits sum.splits list.splits)

lemma st_inv_gc:
  assumes "redb_laws R" "st_inv R k t L s" "now \<le> t"
  shows "st_inv R k t L (gc_evict R now s)"
proof -
  have no: "k \<notin> snd ` set (index_range R now (db s))" using assms(2,3) by (simp add: st_inv_def)
  have idx: "\<forall>n \<le> t. k \<notin> snd ` set (index_range R n (db (gc_evict R now s)))"
    using assms(2) gc_evict_get(3) [OF assms(1), of _ now s] unfolding st_inv_def by blast
  show ?thesis
    using assms(2) idx no unfolding st_inv_def gc_evict_get(1,2,4,5) [OF assms(1)] by simp
qed

lemma st_inv_batch:
  assumes R: "redb_laws R" and inv: "st_inv R k t L s"
  shows "st_inv R k t L (batch_write R n s)"
proof -
  let ?m = "min n 100" and ?P = "\<lambda>e. se_key e = k"
  let ?d = "fold (write_entry R) (take ?m (write_tx s)) (db s)"
  have q: "filter ?P (write_tx s) = filter ?P (take ?m (write_tx s)) @ filter ?P (drop ?m (write_tx s))"
    by (metis append_take_drop_id filter_append)
  have live: "t < expires_at e" if "e \<in> set (write_tx s)" "se_key e = k" for e
    using inv that by (simp add: st_inv_def)
  have "k \<notin> snd ` set (index_range R n' ?d)" if "n' \<le> t" for n'
    using inv that live unfolding fold_write_entry(2) [OF R] st_inv_def
    by (force dest: in_set_takeD)
  moreover have "case filter ?P (drop ?m (write_tx s)) of
        [] \<Rightarrow> data_get R k ?d = map_option StoredEntry_encode L | q \<Rightarrow> L = Some (last q)"
    using inv unfolding fold_write_entry(1) [OF R] st_inv_def q by (auto split: list.splits)
  ultimately show ?thesis
    using inv live unfolding st_inv_def batch_write_def Let_def redb_lawsD(1) [OF R]
    by (auto dest: in_set_dropD split: list.splits)
qed

lemma st_inv_run_remove:
  assumes "redb_laws R" "st_inv R k t L s"
  shows "st_inv R k t L (run_remove R s)"
  using assms(2)
  by (auto simp: st_inv_def run_remove_def redb_lawsD [OF assms(1)] split: list.splits)

lemma st_inv_run:
  "redb_laws R \<Longrightarrow> st_inv R k t L s \<Longrightarrow> list_all (keeps k t) ops \<Longrightarrow>
    st_inv R k t (last_put k ops L) (store_run R ops s)"
proof (induction ops arbitrary: L s)
  case (Cons x ops)
  have step: "st_inv R k t (last_put k [x] L) (store_step R x s)"
  proof (cases x)
    case (Remove k')
    then show ?thesis using Cons.prems by (auto simp: store_remove_def st_inv_def split: list.splits)
  qed (use Cons.prems in \<open>simp_all add: st_inv_put st_inv_get st_inv_gc st_inv_batch st_inv_run_remove\<close>)
  have "last_put k (x # ops) L = last_put k ops (last_put k [x] L)" by (cases x) simp_all
  then show ?case using Cons.IH [OF Cons.prems(1) step] Cons.prems(3) by (simp add: store_run_def)
qed (simp add: store_run_def)

lemma st_inv_new:
  "data_get R k d = None \<Longrightarrow> (\<forall>n. index_range R n d = []) \<Longrightarrow> st_inv R k t None (PersistentStore_new d)"
  by (simp add: st_inv_def PersistentStore_new_def)

lemma st_inv_get_eq:
  assumes "st_inv R k t L s" "now \<le> t"
  shows "fst (store_get R now k s) = L"
  using assms
  by (auto simp: st_inv_def store_get_def is_expired_def split: option.splits list.splits sum.splits)

lemma st_inv_restart:
  assumes "st_inv R k t L s" "now \<le> t" "k \<notin> se_key ` set (write_tx s)"
  shows "fst (store_get R now k (restart s)) = L"
proof -
  have "filter (\<lambda>e. se_key e = k) (write_tx s) = []" using assms(3) by (auto simp: filter_empty_conv)
  then have "data_get R k (db s) = map_option StoredEntry_encode L" using assms(1) by (simp add: st_inv_def)
  then show ?thesis
    using assms(1,2)
    by (cases L) (auto simp: st_inv_def store_get_def restart_def PersistentStore_new_def is_expired_def
        StoredEntry_decode_encode)
qed

subsection \<open>Correctness of the store\<close>

text \<open>An entry that is written to the database and read back is the same entry, and no stored
  value makes the decoder panic.\<close>

lemma stored_entry_roundtrip:
  "(entry_ok e \<longrightarrow> StoredEntry_decode (StoredEntry_encode e) = Inr e) \<and> \<not> is_panic (StoredEntry_decode bs)"
  by (simp add: StoredEntry_decode_encode is_panic_iff no_panic)



text \<open>The collector loses refreshed entries: when a key is put again with a later expiration, the
  index keeps the pair of the first entry, and the collection after the first expiration removes the
  key from the cache and from the database although its current entry has not expired.\<close>

lemma gc_drops_refreshed_entry:
  assumes "redb_laws R" "se_key e1 = k" "se_key e2 = k" "expires_at e1 \<le> now" "now < expires_at e2"
  shows "let s = store_run R [Put e1, BatchWrite 100, Put e2, BatchWrite 100, Gc now] (PersistentStore_new d)
    in \<not> is_expired now e2 \<and> fst (store_get R now k s) = None \<and> fst (store_get R now k (restart s)) = None"
proof -
  let ?s = "store_run R [Put e1, BatchWrite 100, Put e2, BatchWrite 100] (PersistentStore_new d)"
  have "(expires_at e1, k) \<in> set (index_range R now (db ?s))"
    using assms(2-)
    by (simp add: store_run_def store_put_def batch_write_def PersistentStore_new_def write_entry_def
        redb_lawsD [OF assms(1)])
  then have "k \<in> snd ` set (index_range R now (db ?s))" by force
  then have "hot_cache (gc_evict R now ?s) k = None" "data_get R k (db (gc_evict R now ?s)) = None"
    by (simp_all add: gc_evict_get [OF assms(1)])
  moreover have "store_run R [Put e1, BatchWrite 100, Put e2, BatchWrite 100, Gc now] (PersistentStore_new d) =
      gc_evict R now ?s" by (simp add: store_run_def)
  ultimately show ?thesis
    using assms(5) by (simp add: Let_def store_get_def restart_def PersistentStore_new_def is_expired_def)
qed

text \<open>A removal can be undone by the batch writer: an entry removed while its write is still queued
  is back in the store, and in the database, after the next batch.\<close>

lemma removed_entry_returns:
  assumes "redb_laws R" "entry_ok e" "now < expires_at e"
  shows "let s = store_run R [Put e, Remove (se_key e), RunRemove, BatchWrite 100] (PersistentStore_new d)
    in fst (store_get R now (se_key e) s) = Some e"
  using assms(2,3)
  by (simp add: Let_def store_run_def store_put_def store_remove_def run_remove_def batch_write_def
      PersistentStore_new_def write_entry_def redb_lawsD [OF assms(1)] store_get_def is_expired_def
      StoredEntry_decode_encode)

end
