(* ===== verification/Supernode.thy ===== *)
theory Supernode
  imports Peer_Info
begin

text \<open>
  \<open>ceky-dht/src/supernode.rs\<close>: tiers of peers, the promotion criteria and the manager that tracks peers.
  The order in which the map of peers is iterated is the argument \<open>order\<close>; \<open>f64\<close> values are reals.
\<close>

subsection \<open>Tiers and criteria\<close>

datatype SuperNodeTier = Regular | Candidate | SuperNode | Elite

primrec tier_rank :: "SuperNodeTier \<Rightarrow> nat" where
  "tier_rank Regular = 0" | "tier_rank Candidate = 1" | "tier_rank SuperNode = 2" | "tier_rank Elite = 3"

instantiation SuperNodeTier :: linorder
begin

definition less_eq_SuperNodeTier :: "SuperNodeTier \<Rightarrow> SuperNodeTier \<Rightarrow> bool" where
  "s \<le> t \<longleftrightarrow> tier_rank s \<le> tier_rank t"

definition less_SuperNodeTier :: "SuperNodeTier \<Rightarrow> SuperNodeTier \<Rightarrow> bool" where
  "s < t \<longleftrightarrow> tier_rank s < tier_rank t"

instance
proof
  fix s t :: SuperNodeTier
  show "s \<le> t \<Longrightarrow> t \<le> s \<Longrightarrow> s = t"
    by (cases s; cases t) (simp_all add: less_eq_SuperNodeTier_def)
qed (auto simp: less_eq_SuperNodeTier_def less_SuperNodeTier_def)

end

definition can_relay :: "SuperNodeTier \<Rightarrow> bool" where
  "can_relay t \<longleftrightarrow> t = SuperNode \<or> t = Elite"

definition can_bootstrap :: "SuperNodeTier \<Rightarrow> bool" where
  "can_bootstrap t \<longleftrightarrow> t = Elite"

primrec SuperNodeTier_fmt :: "SuperNodeTier \<Rightarrow> string" where
  "SuperNodeTier_fmt Regular = ''Regular''"
| "SuperNodeTier_fmt Candidate = ''Candidate''"
| "SuperNodeTier_fmt SuperNode = ''SuperNode''"
| "SuperNodeTier_fmt Elite = ''Elite''"

record PromotionCriteria =
  candidate_uptime :: time
  supernode_uptime :: time
  elite_uptime :: time
  min_success_rate :: real
  max_avg_latency_ms :: real
  min_successes :: u64
  elite_min_successes :: u64
  observation_period :: time

definition PromotionCriteria_default :: PromotionCriteria where
  "PromotionCriteria_default = \<lparr>candidate_uptime = 3600 * NANOS, supernode_uptime = 4 * 3600 * NANOS,
     elite_uptime = 24 * 3600 * NANOS, min_success_rate = 95 / 100, max_avg_latency_ms = 100,
     min_successes = 100, elite_min_successes = 1000, observation_period = 1800 * NANOS\<rparr>"

subsection \<open>Tracked peers\<close>

record SuperNodeInfo =
  sn_peer_id :: PeerId
  sn_addr :: SocketAddr
  sn_tier :: SuperNodeTier
  promoted_at :: "time option"
  tier_since :: time
  total_successes :: u64
  total_failures :: u64
  sn_avg_latency_ms :: real
  sn_bytes_relayed :: u64
  tracked_since :: time

definition SuperNodeInfo_new :: "time \<Rightarrow> PeerId \<Rightarrow> SocketAddr \<Rightarrow> SuperNodeInfo" where
  "SuperNodeInfo_new now pid addr = \<lparr>sn_peer_id = pid, sn_addr = addr, sn_tier = Regular, promoted_at = None,
     tier_since = now, total_successes = 0, total_failures = 0, sn_avg_latency_ms = 0, sn_bytes_relayed = 0,
     tracked_since = now\<rparr>"

definition sn_uptime :: "time \<Rightarrow> SuperNodeInfo \<Rightarrow> time" where
  "sn_uptime now i = now - tracked_since i"

definition sn_success_rate :: "SuperNodeInfo \<Rightarrow> real" where
  "sn_success_rate i =
     (let total = total_successes i + total_failures i
      in if total = 0 then 0 else real (unat (total_successes i)) / real (unat total))"

definition evaluate_tier :: "time \<Rightarrow> SuperNodeInfo \<Rightarrow> PromotionCriteria \<Rightarrow> SuperNodeTier" where
  "evaluate_tier now i c =
     (let up = sn_uptime now i; rate = sn_success_rate i
      in if rate < min_success_rate c \<and> total_successes i + total_failures i > 10 then Regular
         else if sn_avg_latency_ms i > max_avg_latency_ms c \<and> total_successes i > 10 then Regular
         else if up \<ge> elite_uptime c \<and> rate \<ge> min_success_rate c \<and> total_successes i \<ge> elite_min_successes c \<and>
           sn_avg_latency_ms i \<le> max_avg_latency_ms c then Elite
         else if up \<ge> supernode_uptime c \<and> rate \<ge> min_success_rate c \<and> total_successes i \<ge> min_successes c \<and>
           sn_avg_latency_ms i \<le> max_avg_latency_ms c then SuperNode
         else if up \<ge> candidate_uptime c \<and> rate \<ge> min_success_rate c then Candidate
         else Regular)"

subsection \<open>The manager\<close>

record SuperNodeManager =
  sn_criteria :: PromotionCriteria
  nodes :: "PeerId \<rightharpoonup> SuperNodeInfo"
  max_tracked :: nat

definition SuperNodeManager_new :: "PromotionCriteria \<Rightarrow> nat \<Rightarrow> SuperNodeManager" where
  "SuperNodeManager_new c k = \<lparr>sn_criteria = c, nodes = Map.empty, max_tracked = k\<rparr>"

definition SuperNodeManager_with_defaults :: SuperNodeManager where
  "SuperNodeManager_with_defaults = SuperNodeManager_new PromotionCriteria_default 500"

definition record_performance :: "time \<Rightarrow> PeerId \<Rightarrow> SocketAddr \<Rightarrow> bool \<Rightarrow> real option \<Rightarrow> SuperNodeManager \<Rightarrow> SuperNodeManager" where
  "record_performance now pid addr success latency m =
     (let i = (case nodes m pid of Some i \<Rightarrow> i | None \<Rightarrow> SuperNodeInfo_new now pid addr);
          i = i\<lparr>sn_addr := addr\<rparr>;
          i = (if success then
                 let i = i\<lparr>total_successes := total_successes i + 1\<rparr>
                 in case latency of
                      Some lat \<Rightarrow>
                        let n = real (unat (total_successes i))
                        in i\<lparr>sn_avg_latency_ms := sn_avg_latency_ms i * ((n - 1) / n) + lat / n\<rparr>
                    | None \<Rightarrow> i
               else i\<lparr>total_failures := total_failures i + 1\<rparr>)
      in m\<lparr>nodes := (nodes m)(pid \<mapsto> i)\<rparr>)"

definition sn_record_relay :: "PeerId \<Rightarrow> u64 \<Rightarrow> SuperNodeManager \<Rightarrow> SuperNodeManager" where
  "sn_record_relay pid bytes m =
     (case nodes m pid of
        Some i \<Rightarrow> m\<lparr>nodes := (nodes m)(pid \<mapsto> i\<lparr>sn_bytes_relayed := sn_bytes_relayed i + bytes\<rparr>)\<rparr>
      | None \<Rightarrow> m)"

text \<open>One turn of the loop of \<open>evaluate_all\<close>.\<close>

definition reevaluate :: "time \<Rightarrow> PromotionCriteria \<Rightarrow> SuperNodeInfo \<Rightarrow> SuperNodeInfo" where
  "reevaluate now c i =
     (let old = sn_tier i; new = evaluate_tier now i c
      in if new \<noteq> old then
           let i = i\<lparr>sn_tier := new, tier_since := now\<rparr>
           in if old = Regular \<and> new \<noteq> Regular then i\<lparr>promoted_at := Some now\<rparr> else i
         else i)"

fun evaluate_loop :: "time \<Rightarrow> PromotionCriteria \<Rightarrow> PeerId list \<Rightarrow> (PeerId \<rightharpoonup> SuperNodeInfo) \<Rightarrow>
    (PeerId \<times> SuperNodeTier \<times> SuperNodeTier) list \<times> (PeerId \<rightharpoonup> SuperNodeInfo)" where
  "evaluate_loop now c [] ns = ([], ns)"
| "evaluate_loop now c (pid # order) ns =
     (case ns pid of
        None \<Rightarrow> evaluate_loop now c order ns
      | Some i \<Rightarrow>
          (case evaluate_loop now c order (ns(pid \<mapsto> reevaluate now c i)) of (changes, ns') \<Rightarrow>
             if evaluate_tier now i c \<noteq> sn_tier i
             then ((sn_peer_id i, sn_tier i, evaluate_tier now i c) # changes, ns') else (changes, ns')))"

definition evaluate_all :: "time \<Rightarrow> PeerId list \<Rightarrow> SuperNodeManager \<Rightarrow>
    (PeerId \<times> SuperNodeTier \<times> SuperNodeTier) list \<times> SuperNodeManager" where
  "evaluate_all now order m =
     (case evaluate_loop now (sn_criteria m) order (nodes m) of (changes, ns) \<Rightarrow> (changes, m\<lparr>nodes := ns\<rparr>))"

definition tracked :: "PeerId list \<Rightarrow> SuperNodeManager \<Rightarrow> SuperNodeInfo list" where
  "tracked order m = List.map_filter (nodes m) order"

definition nodes_by_tier :: "PeerId list \<Rightarrow> SuperNodeTier \<Rightarrow> SuperNodeManager \<Rightarrow> SuperNodeInfo list" where
  "nodes_by_tier order t m = filter (\<lambda>i. sn_tier i = t) (tracked order m)"

definition relay_capable :: "PeerId list \<Rightarrow> SuperNodeManager \<Rightarrow> SuperNodeInfo list" where
  "relay_capable order m = filter (\<lambda>i. can_relay (sn_tier i)) (tracked order m)"

text \<open>\<open>max_by\<close> keeps the later of two equal elements.\<close>

definition best_relay :: "PeerId list \<Rightarrow> SuperNodeManager \<Rightarrow> SuperNodeInfo option" where
  "best_relay order m =
     fold (\<lambda>i best. case best of
             None \<Rightarrow> Some i
           | Some b \<Rightarrow> if sn_success_rate b > sn_success_rate i then Some b else Some i) (relay_capable order m) None"

definition sn_get :: "PeerId \<Rightarrow> SuperNodeManager \<Rightarrow> SuperNodeInfo option" where
  "sn_get pid m = nodes m pid"

definition sn_remove :: "PeerId \<Rightarrow> SuperNodeManager \<Rightarrow> SuperNodeInfo option \<times> SuperNodeManager" where
  "sn_remove pid m = (nodes m pid, m\<lparr>nodes := (nodes m)(pid := None)\<rparr>)"

definition sn_len :: "SuperNodeManager \<Rightarrow> nat" where
  "sn_len m = card (dom (nodes m))"

definition prune :: "PeerId list \<Rightarrow> SuperNodeManager \<Rightarrow> nat \<times> SuperNodeManager" where
  "prune order m =
     (if sn_len m \<le> max_tracked m then (0, m)
      else
        let excess = sn_len m - max_tracked m;
            regulars = List.map_filter (\<lambda>pid. case nodes m pid of
                Some i \<Rightarrow> if sn_tier i = Regular then Some (pid, total_successes i) else None
              | None \<Rightarrow> None) order;
            regulars = sort_key snd regulars;
            pruned = min (length regulars) excess
        in (pruned, fold (\<lambda>(pid, _) m. snd (sn_remove pid m)) (take pruned regulars) m))"

record SuperNodeStats =
  total_tracked :: nat
  st_regular :: nat
  st_candidate :: nat
  st_supernode :: nat
  st_elite :: nat

definition sn_stats :: "PeerId list \<Rightarrow> SuperNodeManager \<Rightarrow> SuperNodeStats" where
  "sn_stats order m = \<lparr>total_tracked = sn_len m, st_regular = length (nodes_by_tier order Regular m),
     st_candidate = length (nodes_by_tier order Candidate m), st_supernode = length (nodes_by_tier order SuperNode m),
     st_elite = length (nodes_by_tier order Elite m)\<rparr>"

definition SuperNodeStats_fmt :: "SuperNodeStats \<Rightarrow> string" where
  "SuperNodeStats_fmt s = ''SuperNodes['' @ show_nat (total_tracked s) @ '' tracked: '' @ show_nat (st_regular s) @
     '' regular, '' @ show_nat (st_candidate s) @ '' candidate, '' @ show_nat (st_supernode s) @ '' super, '' @
     show_nat (st_elite s) @ '' elite]''"

subsection \<open>Evaluating\<close>

lemma evaluate_loop_nodes:
  "distinct order \<Longrightarrow> snd (evaluate_loop now c order ns) pid =
     (if pid \<in> set order then map_option (reevaluate now c) (ns pid) else ns pid)"
  by (induction now c order ns rule: evaluate_loop.induct) (auto split: option.splits prod.splits)

text \<open>A peer that may relay meets the thresholds for relaying.\<close>

lemma reevaluate_tier [simp]: "sn_tier (reevaluate now c i) = evaluate_tier now i c"
  by (simp add: reevaluate_def Let_def)

lemma reevaluate_rest [simp]:
  "sn_success_rate (reevaluate now c i) = sn_success_rate i" "sn_uptime t (reevaluate now c i) = sn_uptime t i"
  "sn_peer_id (reevaluate now c i) = sn_peer_id i"
  "total_successes (reevaluate now c i) = total_successes i" "sn_avg_latency_ms (reevaluate now c i) = sn_avg_latency_ms i"
  by (simp_all add: reevaluate_def Let_def sn_success_rate_def sn_uptime_def)

lemma evaluate_loop_changes:
  assumes "distinct order" "\<forall>pid \<in> set order. \<forall>i. ns pid = Some i \<longrightarrow> sn_peer_id i = pid"
  shows "(pid, s, t) \<in> set (fst (evaluate_loop now c order ns)) \<longleftrightarrow>
    pid \<in> set order \<and> (\<exists>i. ns pid = Some i \<and> s = sn_tier i \<and> t = evaluate_tier now i c \<and> t \<noteq> s)"
  using assms
proof (induction now c order ns rule: evaluate_loop.induct)
  case (2 now c q order ns)
  show ?case
  proof (cases "ns q")
    case None
    then show ?thesis using 2 by auto
  next
    case (Some i)
    define ns' where "ns' = ns(q \<mapsto> reevaluate now c i)"
    have other: "ns' pid = ns pid" if "pid \<in> set order" for pid using 2(3) that by (auto simp: ns'_def)
    then have prem: "\<forall>pid \<in> set order. \<forall>i. ns' pid = Some i \<longrightarrow> sn_peer_id i = pid" using 2(4) by simp
    have "distinct order" using 2(3) by simp
    note step = 2(2) [OF Some this prem [unfolded ns'_def], folded ns'_def]
    have ih: "(pid, s, t) \<in> set (fst (evaluate_loop now c order ns')) \<longleftrightarrow>
      pid \<in> set order \<and> (\<exists>i. ns pid = Some i \<and> s = sn_tier i \<and> t = evaluate_tier now i c \<and> t \<noteq> s)"
      using step other [of pid] by (cases "pid \<in> set order") simp_all
    obtain ch ns'' where r: "evaluate_loop now c order ns' = (ch, ns'')" by (cases "evaluate_loop now c order ns'")
    have "set (fst (evaluate_loop now c (q # order) ns)) =
        (if evaluate_tier now i c \<noteq> sn_tier i then {(q, sn_tier i, evaluate_tier now i c)} else {}) \<union> set ch"
      using 2(4) Some r by (simp add: ns'_def)
    then show ?thesis using ih Some 2(3) r by auto
  qed
qed simp

definition fit_to_relay :: "time \<Rightarrow> PromotionCriteria \<Rightarrow> SuperNodeInfo \<Rightarrow> bool" where
  "fit_to_relay now c i \<longleftrightarrow> sn_uptime now i \<ge> supernode_uptime c \<and> sn_success_rate i \<ge> min_success_rate c \<and>
     total_successes i \<ge> min_successes c \<and> sn_avg_latency_ms i \<le> max_avg_latency_ms c"

lemma evaluate_tier_relay:
  assumes "supernode_uptime c \<le> elite_uptime c" "min_successes c \<le> elite_min_successes c"
  shows "can_relay (evaluate_tier now i c) \<longleftrightarrow> fit_to_relay now c i"
  using assms by (auto simp: evaluate_tier_def can_relay_def fit_to_relay_def Let_def)

lemma max_by_Some:
  "fold (\<lambda>i best. case best of None \<Rightarrow> Some i | Some b \<Rightarrow> if f b > f i then Some b else Some i) xs best = r \<Longrightarrow>
   (r = None \<longleftrightarrow> xs = [] \<and> best = None) \<and>
   (\<forall>b. r = Some b \<longrightarrow> b \<in> set xs \<union> set_option best \<and> (\<forall>i \<in> set xs \<union> set_option best. f i \<le> (f b :: real)))"
proof (induction xs arbitrary: best)
  case (Cons x xs)
  let ?b = "case best of None \<Rightarrow> Some x | Some b \<Rightarrow> if f b > f x then Some b else Some x"
  from Cons.IH [of ?b] Cons.prems have "(r = None \<longleftrightarrow> xs = [] \<and> ?b = None) \<and>
    (\<forall>b. r = Some b \<longrightarrow> b \<in> set xs \<union> set_option ?b \<and> (\<forall>i \<in> set xs \<union> set_option ?b. f i \<le> f b))" by simp
  then show ?case by (cases best) (auto split: if_splits intro: order_trans)
qed auto

lemma best_relay_spec:
  "(best_relay order m = None \<longleftrightarrow> relay_capable order m = []) \<and>
   (\<forall>b. best_relay order m = Some b \<longrightarrow> b \<in> set (relay_capable order m) \<and>
      (\<forall>i \<in> set (relay_capable order m). sn_success_rate i \<le> sn_success_rate b))"
  using max_by_Some [of sn_success_rate "relay_capable order m" None "best_relay order m"]
  by (simp add: best_relay_def)

lemma set_tracked: "set (tracked order m) = {i. \<exists>pid \<in> set order. nodes m pid = Some i}"
  by (induction order) (auto simp: tracked_def List.map_filter_simps split: option.splits)


definition example_info :: "byte \<Rightarrow> u64 \<Rightarrow> SuperNodeInfo" where
  "example_info b n = (SuperNodeInfo_new 0 (PeerId (replicate 32 b)) (SockV4 [10, 0, 0, b] 80))
     \<lparr>total_successes := n, total_failures := 1\<rparr>"


subsection \<open>Pruning\<close>

lemma fold_sn_remove:
  "nodes (fold (\<lambda>(pid, _) m. snd (sn_remove pid m)) xs m) = (nodes m) |` (- fst ` set xs)"
  by (induction xs arbitrary: m) (auto simp: sn_remove_def restrict_map_def fun_eq_iff split: prod.splits)

definition regulars_of :: "PeerId list \<Rightarrow> SuperNodeManager \<Rightarrow> (PeerId \<times> u64) list" where
  "regulars_of order m = List.map_filter (\<lambda>pid. case nodes m pid of
      Some i \<Rightarrow> if sn_tier i = Regular then Some (pid, total_successes i) else None
    | None \<Rightarrow> None) order"

lemma set_regulars_of: "(pid, k) \<in> set (regulars_of order m) \<longleftrightarrow>
  pid \<in> set order \<and> (\<exists>i. nodes m pid = Some i \<and> sn_tier i = Regular \<and> total_successes i = k)"
  by (induction order) (auto simp: regulars_of_def List.map_filter_simps split: option.splits if_splits)

lemma distinct_regulars_of: "distinct order \<Longrightarrow> distinct (map fst (regulars_of order m))"
proof (induction order)
  case (Cons p order)
  have "p \<notin> set (map fst (regulars_of order m))" using Cons.prems by (auto simp: set_regulars_of)
  then show ?case using Cons by (auto simp: regulars_of_def List.map_filter_simps split: option.splits)
qed (simp add: regulars_of_def List.map_filter_simps)

text \<open>Pruning removes the least useful regular peers and no other: a removed peer is regular and has
  no more successes than any regular peer that stays, as many are removed as are reported, and afterwards the
  manager is within its limit or has no regular peers left.\<close>

lemma prune_spec:
  assumes "distinct order" "set order = dom (nodes m)" and "prune order m = (k, m')"
  shows "nodes m' \<subseteq>\<^sub>m nodes m \<and> sn_len m' + k = sn_len m \<and>
    (\<forall>p i. nodes m p = Some i \<and> nodes m' p = None \<longrightarrow> sn_tier i = Regular \<and>
       (\<forall>q j. nodes m' q = Some j \<and> sn_tier j = Regular \<longrightarrow> total_successes i \<le> total_successes j)) \<and>
    (sn_len m' \<le> max_tracked m \<or> (\<forall>i \<in> ran (nodes m'). sn_tier i \<noteq> Regular))"
proof (cases "sn_len m \<le> max_tracked m")
  case True
  then show ?thesis using assms(3) by (auto simp: prune_def)
next
  case False
  define rs where "rs = sort_key snd (regulars_of order m)"
  have sn: "set rs = set (regulars_of order m)" "sorted (map snd rs)" by (simp_all add: rs_def)
  have "distinct (map fst rs)"
    using distinct_regulars_of [OF assms(1), of m] unfolding rs_def by (metis distinct_map distinct_sort set_sort)
  have k: "k = min (length rs) (sn_len m - max_tracked m)" and m': "nodes m' = (nodes m) |` (- fst ` set (take k rs))"
    using assms(3) False by (auto simp: prune_def Let_def rs_def fold_sn_remove regulars_of_def)
  have split: "set rs = set (take k rs) \<union> set (drop k rs)" by (metis append_take_drop_id set_append)
  have mem: "(p, x) \<in> set rs \<longleftrightarrow> (\<exists>i. nodes m p = Some i \<and> sn_tier i = Regular \<and> total_successes i = x)" for p x
    using assms(2) by (auto simp: sn set_regulars_of dom_def)
  have least: "x \<le> y" if "(p, x) \<in> set (take k rs)" "(q, y) \<in> set (drop k rs)" for p x q y
  proof -
    have "sorted (map snd (take k rs) @ map snd (drop k rs))" using sn(2) by (metis append_take_drop_id map_append)
    then show ?thesis using that by (force simp: sorted_append)
  qed
  have fin: "finite (dom (nodes m))" using assms(2) by (metis List.finite_set)
  have sub: "fst ` set (take k rs) \<subseteq> dom (nodes m)" using mem split by (force simp: dom_def)
  have "card (fst ` set (take k rs)) = k"
    using \<open>distinct (map fst rs)\<close> k by (metis distinct_card distinct_take length_map length_take min.absorb2 min.cobounded1 set_map take_map)
  moreover have "dom (nodes m') = dom (nodes m) - fst ` set (take k rs)" by (auto simp: m')
  ultimately have len: "sn_len m' + k = sn_len m"
    using card_Diff_subset [OF finite_subset [OF sub fin] sub] card_mono [OF fin sub] by (simp add: sn_len_def)
  have removed: "sn_tier i = Regular \<and> (\<forall>q j. nodes m' q = Some j \<and> sn_tier j = Regular \<longrightarrow> total_successes i \<le> total_successes j)"
    if i: "nodes m p = Some i" "nodes m' p = None" for p i
  proof -
    from i obtain x where x: "(p, x) \<in> set (take k rs)" by (auto simp: m' restrict_map_def split: if_splits)
    then have "sn_tier i = Regular" "x = total_successes i" using mem [of p x] split i(1) by auto
    moreover have "(q, total_successes j) \<in> set (drop k rs)" if "nodes m' q = Some j" "sn_tier j = Regular" for q j
      using that mem [of q "total_successes j"] split by (force simp: m' restrict_map_def split: if_splits)
    ultimately show ?thesis using least [OF x] by blast
  qed
  have "k < length rs \<Longrightarrow> sn_len m' \<le> max_tracked m" using len False k by simp
  moreover have "\<forall>i \<in> ran (nodes m'). sn_tier i \<noteq> Regular" if "\<not> k < length rs"
    using that mem by (force simp: m' ran_def restrict_map_def split: if_splits)
  ultimately have "sn_len m' \<le> max_tracked m \<or> (\<forall>i \<in> ran (nodes m'). sn_tier i \<noteq> Regular)" by blast
  then show ?thesis using removed len by (auto simp: m' map_le_def)
qed

subsection \<open>Latencies\<close>

text \<open>When every success of a peer comes with a latency, the average is the mean of the latencies.\<close>

lemma record_performance_mean:
  assumes "nodes m pid = None" "lats \<noteq> []" "length lats < 2 ^ 64"
  shows "\<exists>i. nodes (fold (\<lambda>l. record_performance now pid addr True (Some l)) lats m) pid = Some i \<and>
    unat (total_successes i) = length lats \<and> sn_avg_latency_ms i = sum_list lats / real (length lats)"
  using assms(2,3)
proof (induction lats rule: rev_induct)
  case (snoc l lats)
  let ?m = "fold (\<lambda>l. record_performance now pid addr True (Some l)) lats m"
  show ?case
  proof (cases "lats = []")
    case True
    then show ?thesis using assms(1) by (simp add: record_performance_def Let_def SuperNodeInfo_new_def)
  next
    case False
    define M where "M = ?m"
    obtain i where i: "nodes M pid = Some i" "unat (total_successes i) = length lats"
      "sn_avg_latency_ms i = sum_list lats / real (length lats)" using False snoc by (auto simp: M_def)
    have n: "unat (total_successes i + 1) = Suc (length lats)" using i(2) snoc.prems(2) by (simp add: unat_word_ariths)
    have "nodes (record_performance now pid addr True (Some l) M) pid = Some (i\<lparr>sn_addr := addr,
        total_successes := total_successes i + 1,
        sn_avg_latency_ms := sum_list lats / real (length lats) * ((real (Suc (length lats)) - 1) / real (Suc (length lats))) +
          l / real (Suc (length lats))\<rparr>)"
      using i(1,3) unfolding n [symmetric] by (simp add: record_performance_def Let_def)
    moreover have "sum_list lats / real (length lats) * ((real (Suc (length lats)) - 1) / real (Suc (length lats))) =
        sum_list lats / real (Suc (length lats))" using False by simp
    ultimately show ?thesis using n unfolding M_def by (simp add: add_divide_distrib)
  qed
qed simp

end
