(* ===== verification/Spec2Isabelle.thy ===== *)
theory Spec2Isabelle
  imports Chat_Stream Node_Lookup Bootstrap Storage Supernode
begin

text \<open>
  \<^bold>\<open>cekyP2P\<close> is a peer to peer node: frames over TCP and UDP, a Noise XX handshake and encrypted
  sessions, a Kademlia routing table with lookups and a store, file transfers with credits, NAT traversal with
  relays, and a node that runs these behind an HTTP API.  This library models it bottom up, one theory per component;
  the paths below are relative to \<open>src/crates/\<close>.

  \<^bold>\<open>How the parts interact.\<close>  The event loop (\<open>Node\<close>) owns the state of every peer, the routing table and the
  transfer manager.  It takes commands from the API (\<open>Api\<close>) and events from the TCP transport (\<open>Tcp\<close>), whose
  reader decodes the stream of a connection (\<open>Codec\<close>) and whose writers encode queued frames.  A new connection runs the
  handshake (\<open>Noise\<close>); its keys open a session (\<open>Session\<close>), and from then on the loop decrypts every frame and
  hands its payload to the routing table (\<open>Routing\<close>, with the messages of \<open>Dht_Msg\<close>), to the transfer manager
  (\<open>Transfer_Manager\<close>, with those of \<open>Transfer_Msg\<close>) or, as an event, to the API.  \<open>Start\<close> builds a node from its
  configuration (\<open>Config\<close>), its key file (\<open>Identity\<close>) and its sockets, and \<open>Event_Loop\<close> runs it beside the tasks
  that feed its queues.

  \<^bold>\<open>Conventions.\<close>  Machine integers are words and wrap, as in the release profile; \<open>usize\<close> is \<open>nat\<close> where it
  counts or indexes; buffers and arrays are byte lists, with an \<open>_ok\<close> predicate where the length is part of the type;
  strings are their UTF-8 bytes, and error reasons are \<open>string\<close>s; an \<open>f64\<close> is a real number.  A fallible call
  returns \<open>('e, 'a) res\<close>: \<open>Inr\<close> a value, \<open>Inl (Err e)\<close> an error and \<open>Inl Panic\<close> a panic; a step of the event loop
  that never returns is \<open>None\<close>.  Instants are natural numbers of nanoseconds and an argument of what reads the clock;
  random bytes, and the order in which a hash map is iterated, are arguments too.  Libraries (\<open>crc32c\<close>,
  \<open>ed25519\<close>, \<open>x25519\<close>, SHA-256, the AEAD, \<open>redb\<close>, \<open>hex\<close>), sockets and the file system are parameters; the laws
  used of them are hypotheses, and each is shown to hold for a concrete function in the witness of the property.
  The types \<open>crypto_impl\<close>, \<open>aead_impl\<close>, \<open>os_impl\<close>, \<open>crc_impl\<close>, \<open>node_env\<close> and \<open>start_world\<close> collect them.

  \<^bold>\<open>Theories.\<close>
  \<^item> \<open>Prelude\<close>, \<open>Buf\<close>: results, byte order, indexing that panics, UTF-8, socket addresses, reading from a buffer.
  \<^item> \<open>Wire_Types\<close>, \<open>Codec\<close> (\<open>ceky-protocol/src: lib.rs, types.rs, error.rs, codec.rs\<close>): frames and the
    streaming decoder.  Encoding and decoding are inverse, frames are recovered from the stream under any chunking, only
    well-formed bytes are accepted, an error is final, and what the decoder buffers is bounded.
  \<^item> \<open>Dht_Msg\<close>, \<open>Transfer_Msg\<close> (\<open>dht.rs, transfer.rs\<close>): payloads; round trips, decoders that never panic, and the
    bitmap of chunks as a set.
  \<^item> \<open>Identity\<close>, \<open>Session\<close>, \<open>Noise\<close> (\<open>ceky-crypto/src\<close>): peer identifiers with their metric and key
    files; the replay window, word by word, against its specification by the set of nonces seen; delivery and
    replay safety of sessions; agreement of the two sides of a handshake.
  \<^item> \<open>Peer_Info\<close>, \<open>Routing\<close>, \<open>Lookup\<close>, \<open>Bootstrap\<close>, \<open>Supernode\<close>, \<open>Storage\<close> (\<open>ceky-dht/src\<close>): the routing
    table with its invariant under all operations and the closest peers it returns; the iterative lookup, which
    terminates with the closest peers heard of; the targets that refresh stale buckets; the promotion of peers to
    relays; the store with its cache, batch writer and collector.
  \<^item> \<open>Kademlia\<close>: lookups in a network of nodes, each answering \<open>FindNode\<close> from its routing table as the event loop does.
    If every node knows some node of every bucket that has one, a lookup ends at the node closest to its target.
  \<^item> \<open>Transfer_Manager\<close> (\<open>ceky-transfer/src\<close>): sender and receiver of files, that a file arrives, and that what is sent
    is bounded by the credits.
  \<^item> \<open>Relay\<close>, \<open>Stun\<close> (\<open>ceky-nat/src\<close>): relay sessions, STUN, NAT classification, hole punching.
  \<^item> \<open>Pool\<close>, \<open>Tcp\<close>, \<open>Udp\<close> (\<open>ceky-transport/src\<close>): connections and their pool, the two transports and the
    chaos stream.  Frames queued by a sender reach the events of a receiver in order; a corrupted byte ends a stream.
  \<^item> \<open>Telemetry\<close> (\<open>ceky-telemetry/src\<close>): counters, log messages and the display.
  \<^item> \<open>Node\<close>, \<open>Node_Correct\<close> (\<open>ceky-node/src/node.rs\<close>): the event loop, one function per branch of
    its \<open>select!\<close>; what every run of it keeps and reports, and when it hangs.
  \<^item> \<open>Node_Chat\<close>, \<open>Node_Transfer\<close>: two nodes end to end, from the API of the one to the API and the files of the other:
    connecting, the handshake and chat messages; and a file, which arrives if it has at most 50 chunks.
  \<^item> \<open>Config\<close>, \<open>Api\<close>, \<open>Start\<close> (\<open>config.rs, main.rs, api.rs, node.rs\<close>): configuration, API and start.
  \<^item> \<open>Event_Loop\<close> (\<open>node.rs, main.rs\<close>): the running node as a transition system, with the queues between its tasks,
    the API server, the handle and the shutdown: its invariant, who can make it act, and what a shutdown does.
  \<^item> \<open>Node_Lookup\<close>: a node told to connect to an identifier asks its peer with \<open>FindNode\<close> and queues a connection to
    the address the answer names.
  \<^item> \<open>Chat_Stream\<close>: chat messages from the handle of one running node to the API of another, through the queues, the
    sessions, the writer task, a byte stream cut anywhere and the decoder.

  \<^bold>\<open>Interleaving.\<close>  Tasks that run concurrently are functions of one turn each: a turn of the event loop, of a reader, of a
  writer, of the telemetry task.  A run is a list of such turns in any order (\<open>node_input\<close>, \<open>node_run\<close>; likewise
  \<open>table_op\<close>, \<open>pool_op\<close>, \<open>store_op\<close>), so that an invariant of all runs holds under every interleaving of turns.
  \<open>sys_run\<close> is the run of a whole node, in which the loop takes from its queues what the other tasks put there.

  \<^bold>\<open>Bounds.\<close>  The loops \<open>decode\<close>, \<open>pump_loop\<close>, \<open>read_chunk\<close> and \<open>chunk_hashes\<close> are total, with a measure.  Two drivers count
  the turns they are given: \<open>writer_run\<close>, and \<open>run_lookup\<close>, for which \<open>lookup_terminates\<close> shows that one round more than there
  are peers completes it.  The witnesses run on small concrete inputs; the theorems have no bound of their own
  beyond the widths of the integers.

  \<^bold>\<open>Defects.\<close>  Some theorems state what the code does where that is surely not what it should do:
  \<open>node_hangs_iff\<close>, \<open>file_transfer_between_nodes\<close>, \<open>shutdown_is_final\<close>, \<open>forged_nonce_blocks_session\<close>, \<open>short_static_panics_responder\<close>,
  \<open>duplicate_chunks_complete\<close> and \<open>offer_escapes_download_dir\<close>; and the lemmas \<open>encode_length_wraps\<close>,
  \<open>total_chunks_wraps\<close>, \<open>chunk_offset_wraps\<close>, \<open>gc_drops_refreshed_entry\<close>, \<open>removed_entry_returns\<close>,
  \<open>from_str_panics_inside_char\<close>, \<open>lagged_socket_ends\<close>, \<open>broken_file_loses_api_key\<close>, \<open>quote_message_panics\<close> and
  \<open>transfer_percent_wraps\<close>.

  \<^bold>\<open>Not modelled.\<close>  The runtime (spawning tasks, and dropping those that still run when \<open>main\<close> returns), logging calls, the rendering of the
  display by \<open>ratatui\<close>, HTTP and JSON by \<open>axum\<close> and \<open>serde\<close>, the parsing of the command line and of TOML: these are
  calls of libraries without logic of this program.  Types that nothing uses (\<open>HandshakeState\<close>, \<open>StoreResult\<close>,
  \<open>FindValueResult\<close>) and methods that only return a field have no definition of their own.  Single operations on the concurrent maps are taken as atomic;
  the window between the two map accesses of \<open>ConnectionPool::insert\<close> is therefore not visible.  The crate roots that only
  re-export have no content to model.
\<close>

subsection \<open>Everything that is read from the network\<close>

text \<open>C22. Type safety of the decoders: whatever bytes arrive, neither the frame codec, nor a decoder of one of the
  nine payloads, nor the parser of STUN responses panics, and what it returns is a well-formed value of its type:
  frames whose length field is the length of their payload and within the limit, identifiers and hashes of their
  fixed lengths, names that are UTF-8, addresses of 4 or 16 bytes.\<close>

theorem decoders_type_safe:
  "yields (\<lambda>f. case f of None \<Rightarrow> True | Some f \<Rightarrow> frame_ok f \<and> seal crc f = f) (fst (decode crc FrameCodec_new bs)) \<and>
   yields FindNode_ok (FindNode_decode bs) \<and> yields FindNodeResp_ok (FindNodeResp_decode bs) \<and>
   yields FileOffer_ok (FileOffer_decode bs) \<and> yields FileAccept_ok (FileAccept_decode bs) \<and>
   yields FileReject_ok (FileReject_decode bs) \<and> yields FileChunk_ok (FileChunk_decode bs) \<and>
   yields FileChunkAck_ok (FileChunkAck_decode bs) \<and> yields FileComplete_ok (FileComplete_decode bs) \<and>
   yields FileCancel_ok (FileCancel_decode bs) \<and> yields sock_ok (parse_binding_response bs txn)"
proof (intro conjI)
  show "yields (\<lambda>f. case f of None \<Rightarrow> True | Some f \<Rightarrow> frame_ok f \<and> seal crc f = f) (fst (decode crc FrameCodec_new bs))"
  proof (rule yieldsI)
    fix f assume "fst (decode crc FrameCodec_new bs) = Inr f"
    then show "case f of None \<Rightarrow> True | Some f \<Rightarrow> frame_ok f \<and> seal crc f = f"
      using decode_Some_wire [of crc bs "the f"]
      by (cases f; cases "decode crc FrameCodec_new bs") auto
  qed (rule decode_no_panic)
qed (rule find_node.dec_yields find_node_resp.dec_yields file_offer.dec_yields file_accept.dec_yields
    file_reject.dec_yields file_chunk.dec_yields file_chunk_ack.dec_yields file_complete.dec_yields
    file_cancel.dec_yields parse_binding_response_yields)+

end
